(* ===== verification/Prelude.thy ===== *)
theory Prelude
  imports Main "HOL-Library.AList" "HOL-Library.Multiset"
begin

text \<open>
  Shared vocabulary of the development: JavaScript objects used as dictionaries, the
  \<open>join\<close>/\<open>split\<close> pair the program builds its composite keys with, \<open>splice\<close>, the
  rounding of fractional dates, results of fallible code, and the automation the
  component theories share.

  A JavaScript object used as a dictionary is an association list: \<open>Object.keys\<close> and
  \<open>Object.entries\<close> enumerate the (non integer-like) keys in insertion order, an assignment
  to an existing key keeps its position, one to a new key appends it, and \<open>delete\<close> removes
  it.  These are \<open>AList.update\<close> and \<open>AList.delete\<close>.
\<close>

named_theorems sched_simps \<open>evaluation rules of the scheduling components\<close>
named_theorems inv_intros \<open>one-step invariant preservation rules\<close>

subsection \<open>Types\<close>

type_synonym time = int \<comment> \<open>milliseconds, as \<open>Date.getTime\<close> reports them\<close>

type_synonym 'v jsobj = "(string \<times> 'v) list"

abbreviation obj_get :: "'v jsobj \<Rightarrow> string \<Rightarrow> 'v option" where
  "obj_get ob k \<equiv> map_of ob k"

abbreviation obj_set :: "string \<Rightarrow> 'v \<Rightarrow> 'v jsobj \<Rightarrow> 'v jsobj" where
  "obj_set k v ob \<equiv> AList.update k v ob"

abbreviation obj_del :: "string \<Rightarrow> 'v jsobj \<Rightarrow> 'v jsobj" where
  "obj_del k ob \<equiv> AList.delete k ob"

abbreviation obj_keys :: "'v jsobj \<Rightarrow> string list" where
  "obj_keys ob \<equiv> map fst ob"

text \<open>\<open>key in obj\<close>\<close>

abbreviation obj_has :: "'v jsobj \<Rightarrow> string \<Rightarrow> bool" where
  "obj_has ob k \<equiv> map_of ob k \<noteq> None"

text \<open>\<open>Object.fromEntries\<close> and \<open>Object.assign\<close>: later entries win, positions are those of the
  first occurrence.\<close>

definition obj_from :: "(string \<times> 'v) list \<Rightarrow> 'v jsobj" where
  "obj_from ps = foldl (\<lambda>acc (k, v). obj_set k v acc) [] ps"

definition obj_assign :: "'v jsobj \<Rightarrow> 'v jsobj \<Rightarrow> 'v jsobj" where
  "obj_assign base ps = foldl (\<lambda>acc (k, v). obj_set k v acc) base ps"

subsection \<open>Composite keys\<close>

text \<open>\<open>parts.join(sep)\<close>\<close>

fun join :: "string \<Rightarrow> string list \<Rightarrow> string" where
  "join sep [] = []"
| "join sep [x] = x"
| "join sep (x # y # ys) = x @ sep @ join sep (y # ys)"

abbreviation hash_sep :: string where
  "hash_sep \<equiv> ''##''"

text \<open>\<open>s.split("##")\<close>: leftmost, non-overlapping separators.\<close>

fun split_hash :: "string \<Rightarrow> string list" where
  "split_hash [] = [[]]"
| "split_hash [c] = [[c]]"
| "split_hash (c # d # cs) =
     (if c = CHR ''#'' \<and> d = CHR ''#'' then [] # split_hash cs
      else (case split_hash (d # cs) of [] \<Rightarrow> [[c]] | p # ps \<Rightarrow> (c # p) # ps))"

text \<open>\<open>s.split(".")\<close> and \<open>s.split("/")\<close>: a one-character separator.\<close>

fun split_char :: "char \<Rightarrow> string \<Rightarrow> string list" where
  "split_char ch [] = [[]]"
| "split_char ch (c # cs) =
     (if c = ch then [] # split_char ch cs
      else (case split_char ch cs of [] \<Rightarrow> [[c]] | p # ps \<Rightarrow> (c # p) # ps))"

subsection \<open>Arrays\<close>

text \<open>\<open>xs.splice(i, 1)\<close> for an index in range\<close>

definition splice1 :: "nat \<Rightarrow> 'a list \<Rightarrow> 'a list" where
  "splice1 i xs = take i xs @ drop (Suc i) xs"

subsection \<open>Numbers\<close>

text \<open>
  \<open>new Date(x)\<close> truncates a fractional number of milliseconds towards zero.  The program
  multiplies its run interval by 1.2, 1.5 and 0.95; such values are kept here in
  tenths or hundredths and truncated where a date is made of them.
\<close>

definition trunc_div :: "int \<Rightarrow> int \<Rightarrow> int" where
  "trunc_div a b = (if 0 \<le> a then a div b else - ((- a) div b))"

text \<open>\<open>Math.round(n / d)\<close> for an integer \<open>n\<close> and a positive \<open>d\<close>: halves round up.\<close>

definition round_div :: "int \<Rightarrow> int \<Rightarrow> int" where
  "round_div n d = (2 * n + d) div (2 * d)"

subsection \<open>Timers\<close>

text \<open>\<open>setTimeout(fn, d)\<close> waits at least one millisecond; a delay beyond 31 bits counts as one
  as well.\<close>

definition timeout_due :: "time \<Rightarrow> int \<Rightarrow> time" where
  "timeout_due now d = now + (if 1 \<le> d \<and> d \<le> 2147483647 then d else 1)"

subsection \<open>Lemmas on objects\<close>

lemma obj_get_set [simp]: "obj_get (obj_set k v ob) k' = (if k' = k then Some v else obj_get ob k')"
  by (simp add: update_conv)

lemma obj_get_del [simp]: "obj_get (obj_del k ob) k' = (if k' = k then None else obj_get ob k')"
  by (simp add: delete_conv)

lemma distinct_obj_set [simp]: "distinct (obj_keys ob) \<Longrightarrow> distinct (obj_keys (obj_set k v ob))"
  by (simp add: distinct_update)

lemma distinct_obj_del [simp]: "distinct (obj_keys ob) \<Longrightarrow> distinct (obj_keys (obj_del k ob))"
  by (simp add: distinct_delete)

lemma set_keys_obj_set [simp]: "fst ` set (obj_set k v ob) = insert k (fst ` set ob)"
proof -
  have "set (obj_keys (obj_set k v ob)) = insert k (set (obj_keys ob))"
    unfolding update_keys by auto
  then show ?thesis by simp
qed

lemma obj_set_mem: "(a, b) \<in> set (obj_set k v ob) \<Longrightarrow> (a, b) = (k, v) \<or> (a, b) \<in> set ob"
  by (induction ob) (auto split: if_splits)

lemma length_obj_set_fresh: "k \<notin> fst ` set ob \<Longrightarrow> length (obj_set k v ob) = Suc (length ob)"
  by (induction ob) auto

lemma obj_set_fresh: "k \<notin> fst ` set ob \<Longrightarrow> obj_set k v ob = ob @ [(k, v)]"
  by (induction ob) auto

lemma obj_has_iff: "obj_has ob k \<longleftrightarrow> k \<in> set (obj_keys ob)"
  by (force simp: map_of_eq_None_iff)

lemma obj_assign_get:
  "obj_get (obj_assign base ps) k = (case obj_get (rev ps) k of None \<Rightarrow> obj_get base k | Some v \<Rightarrow> Some v)"
  unfolding obj_assign_def
proof (induction ps arbitrary: base)
  case Nil
  then show ?case by simp
next
  case (Cons p ps)
  obtain a b where p: "p = (a, b)" by fastforce
  show ?case
    using Cons [of "obj_set a b base"] by (simp add: p map_add_def split: option.splits)
qed

lemma distinct_obj_assign: "distinct (obj_keys base) \<Longrightarrow> distinct (obj_keys (obj_assign base ps))"
  unfolding obj_assign_def
  by (induction ps arbitrary: base) (auto simp: distinct_update)

lemma distinct_obj_from: "distinct (obj_keys (obj_from ps))"
  using distinct_obj_assign [of "[]" ps] by (simp add: obj_from_def obj_assign_def)

lemma obj_from_get: "obj_get (obj_from ps) k = obj_get (rev ps) k"
  using obj_assign_get [of "[]" ps k]
  by (simp add: obj_from_def obj_assign_def split: option.splits)

lemma obj_from_mem: "(k, v) \<in> set (obj_from ps) \<Longrightarrow> (k, v) \<in> set ps"
  using map_of_is_SomeI [of "obj_from ps" k v] obj_from_get [of ps k] map_of_SomeD [of "rev ps" k v]
  by (simp add: distinct_obj_from)

subsection \<open>Lemmas on arrays\<close>

lemma length_splice1 [simp]: "i < length xs \<Longrightarrow> length (splice1 i xs) = length xs - 1"
  by (simp add: splice1_def)

lemma mset_splice1: "i < length xs \<Longrightarrow> add_mset (xs ! i) (mset (splice1 i xs)) = mset xs"
proof -
  assume "i < length xs"
  then have "xs = take i xs @ xs ! i # drop (Suc i) xs" by (simp add: id_take_nth_drop)
  then have "mset xs = mset (take i xs) + add_mset (xs ! i) (mset (drop (Suc i) xs))"
    by (metis mset.simps(2) mset_append)
  then show ?thesis by (simp add: splice1_def)
qed

lemma set_splice1_subset: "set (splice1 i xs) \<subseteq> set xs"
  by (auto simp: splice1_def dest: in_set_takeD in_set_dropD)

lemma set_splice1_insert: "i < length xs \<Longrightarrow> set xs = insert (xs ! i) (set (splice1 i xs))"
  by (metis mset_splice1 set_mset_add_mset_insert set_mset_mset)

lemma sum_list_splice1:
  fixes f :: "'a \<Rightarrow> int"
  assumes "i < length xs"
  shows "sum_list (map f (splice1 i xs)) = sum_list (map f xs) - f (xs ! i)"
proof -
  have "sum_list (map f xs) = sum_mset (image_mset f (mset xs))"
    by (simp flip: sum_mset_sum_list)
  also have "\<dots> = sum_mset (image_mset f (add_mset (xs ! i) (mset (splice1 i xs))))"
    by (simp add: mset_splice1 assms)
  also have "\<dots> = f (xs ! i) + sum_list (map f (splice1 i xs))"
    by (simp flip: sum_mset_sum_list)
  finally show ?thesis by simp
qed

subsection \<open>Lemmas on composite keys\<close>

lemma split_hash_ne [simp]: "split_hash s \<noteq> []"
  by (induction s rule: split_hash.induct) (auto split: list.splits)

lemma split_hash_plain: "CHR ''#'' \<notin> set s \<Longrightarrow> split_hash s = [s]"
  by (induction s rule: split_hash.induct) auto

lemma split_hash_sep:
  "CHR ''#'' \<notin> set s \<Longrightarrow> split_hash (s @ CHR ''#'' # CHR ''#'' # t) = s # split_hash t"
proof (induction s)
  case Nil
  then show ?case by simp
next
  case (Cons c s)
  then have IH: "split_hash (s @ CHR ''#'' # CHR ''#'' # t) = s # split_hash t" by simp
  obtain d u where du: "s @ CHR ''#'' # CHR ''#'' # t = d # u" by (cases s) auto
  from Cons.prems have "c \<noteq> CHR ''#''" by auto
  then show ?case using IH by (simp add: du)
qed

text \<open>Parts without the separator character survive \<open>join\<close> followed by \<open>split\<close>.\<close>

lemma split_hash_join:
  "xs \<noteq> [] \<Longrightarrow> \<forall>x\<in>set xs. CHR ''#'' \<notin> set x \<Longrightarrow> split_hash (join hash_sep xs) = xs"
proof (induction xs rule: induct_list012)
  case (2 x)
  then show ?case by (simp add: split_hash_plain)
next
  case (3 x y zs)
  then show ?case using split_hash_sep [of x "join hash_sep (y # zs)"] by simp
qed simp

lemma join_inj:
  assumes "xs \<noteq> []" "ys \<noteq> []"
    and "\<forall>x\<in>set xs. CHR ''#'' \<notin> set x" "\<forall>y\<in>set ys. CHR ''#'' \<notin> set y"
    and "join hash_sep xs = join hash_sep ys"
  shows "xs = ys"
proof -
  have "xs = split_hash (join hash_sep xs)" by (rule split_hash_join [OF assms(1,3), symmetric])
  also have "\<dots> = split_hash (join hash_sep ys)" by (rule arg_cong [OF assms(5)])
  also have "\<dots> = ys" by (rule split_hash_join [OF assms(2,4)])
  finally show ?thesis .
qed

lemma join_append:
  "xs \<noteq> [] \<Longrightarrow> ys \<noteq> [] \<Longrightarrow> join sep (xs @ ys) = join sep xs @ sep @ join sep ys"
proof (induction sep xs rule: join.induct)
  case (2 sep x)
  then show ?case by (cases ys) auto
next
  case (3 sep x y ys')
  then show ?case by simp
qed simp

lemma join_nested:
  "ys \<noteq> [] \<Longrightarrow> join sep (xs @ [join sep ys]) = join sep (xs @ ys)"
  by (cases "xs = []") (simp_all add: join_append)

lemma trunc_div_nonneg [simp]: "0 \<le> a \<Longrightarrow> trunc_div a b = a div b"
  by (simp add: trunc_div_def)

end
