(* ===== verification/Constants.thy ===== *)
theory Constants
  imports Prelude
begin

text \<open>The constants of \<open>src/constants.js\<close>: processing status, transaction modes, priorities.\<close>

text \<open>\<open>EventProcessingStatus\<close> is an object of numbers; the database column is an integer, and so
  is every status here.\<close>

definition Open :: int where "Open = 0"
definition InProgress :: int where "InProgress = 1"
definition Done :: int where "Done = 2"
definition Error :: int where "Error = 3"
definition Exceeded :: int where "Exceeded = 4"
definition Suspended :: int where "Suspended = 5"

lemmas status_defs = Open_def InProgress_def Done_def Error_def Exceeded_def Suspended_def

text \<open>\<open>TransactionMode\<close> is an object of strings, too; a configured mode may be any string.\<close>

definition isolated :: string where "isolated = ''isolated''"
definition alwaysCommit :: string where "alwaysCommit = ''alwaysCommit''"
definition alwaysRollback :: string where "alwaysRollback = ''alwaysRollback''"

lemmas mode_defs = isolated_def alwaysCommit_def alwaysRollback_def

datatype Priority = Low | Medium | High | VeryHigh

text \<open>Priorities are ordered as \<open>Object.values(Priorities)\<close> lists them.\<close>

fun prio_rank :: "Priority \<Rightarrow> nat" where
  "prio_rank Low = 0"
| "prio_rank Medium = 1"
| "prio_rank High = 2"
| "prio_rank VeryHigh = 3"

lemma prio_rank_inj: "prio_rank p = prio_rank q \<Longrightarrow> p = q"
  by (cases p; cases q) simp_all

instantiation Priority :: linorder
begin

definition less_eq_Priority :: "Priority \<Rightarrow> Priority \<Rightarrow> bool" where
  "less_eq_Priority p q \<longleftrightarrow> prio_rank p \<le> prio_rank q"

definition less_Priority :: "Priority \<Rightarrow> Priority \<Rightarrow> bool" where
  "less_Priority p q \<longleftrightarrow> prio_rank p < prio_rank q"

instance
  by standard (auto simp: less_eq_Priority_def less_Priority_def intro: prio_rank_inj)

end

text \<open>The string values of \<open>Priorities\<close>.\<close>

fun priority_of :: "string \<Rightarrow> Priority option" where
  "priority_of s =
     (if s = ''low'' then Some Low else if s = ''medium'' then Some Medium
      else if s = ''high'' then Some High else if s = ''veryHigh'' then Some VeryHigh else None)"

end
