(* ===== verification/JsValues.thy ===== *)
theory JsValues
  imports Prelude "HOL-Library.List_Lexorder" "HOL-Library.Char_ord"
begin

text \<open>
  The JavaScript values the program handles without a fixed shape (payloads, raw configuration
  objects, error infos), and what it uses of the standard library on them: truthiness, \<open>??\<close>,
  property access, \<open>String()\<close>, \<open>JSON.stringify\<close> and \<open>Date.prototype.toISOString\<close>.
  Numbers are integers.  An \<open>Error\<close> instance is a constructor of its own, because the program tests
  for it with \<open>instanceof\<close>: name, message, stack and the enumerable own properties.
\<close>

datatype jsval =
    JUndef | JNull | JBool bool | JNum int | JStr string | JDate time
  | JErr string string string "(string \<times> jsval) list"
  | JArr "jsval list" | JObj "(string \<times> jsval) list"

fun truthy :: "jsval \<Rightarrow> bool" where
  "truthy JUndef = False"
| "truthy JNull = False"
| "truthy (JBool b) = b"
| "truthy (JNum n) = (n \<noteq> 0)"
| "truthy (JStr s) = (s \<noteq> [])"
| "truthy _ = True"

fun nullish :: "jsval \<Rightarrow> bool" where
  "nullish JUndef = True"
| "nullish JNull = True"
| "nullish _ = False"

text \<open>\<open>a ?? b\<close>\<close>

definition coalesce :: "jsval \<Rightarrow> jsval \<Rightarrow> jsval" where
  "coalesce a b = (if nullish a then b else a)"

text \<open>\<open>obj.name\<close>: a missing property is \<open>undefined\<close>.\<close>

definition js_prop :: "jsval jsobj \<Rightarrow> string \<Rightarrow> jsval" where
  "js_prop ob k = (case obj_get ob k of None \<Rightarrow> JUndef | Some v \<Rightarrow> v)"

text \<open>\<open>v.name\<close> on an arbitrary value; \<open>None\<close> is the \<open>TypeError\<close> on \<open>undefined\<close> and \<open>null\<close>.\<close>

fun js_get :: "jsval \<Rightarrow> string \<Rightarrow> jsval option" where
  "js_get JUndef k = None"
| "js_get JNull k = None"
| "js_get (JObj ps) k = Some (js_prop ps k)"
| "js_get (JErr n m st ps) k =
     Some (if obj_has ps k then js_prop ps k
           else js_prop [(''name'', JStr n), (''message'', JStr m), (''stack'', JStr st)] k)"
| "js_get _ k = Some JUndef"

subsection \<open>Numbers as text\<close>

definition digit_char :: "nat \<Rightarrow> char" where
  "digit_char d = char_of (48 + d)"

fun show_nat :: "nat \<Rightarrow> string" where
  "show_nat n = (if n < 10 then [digit_char n] else show_nat (n div 10) @ [digit_char (n mod 10)])"

declare show_nat.simps [simp del]

definition show_int :: "int \<Rightarrow> string" where
  "show_int n = (if n < 0 then ''-'' @ show_nat (nat (- n)) else show_nat (nat n))"

text \<open>\<open>padStart(w, "0")\<close>\<close>

definition pad :: "nat \<Rightarrow> int \<Rightarrow> string" where
  "pad w n = (let s = show_nat (nat n) in replicate (w - length s) (CHR ''0'') @ s)"

subsection \<open>Dates\<close>

text \<open>Year, month and day of a day number counted from 1970-01-01 (proleptic Gregorian).\<close>

definition civil :: "int \<Rightarrow> int \<times> int \<times> int" where
  "civil z0 =
     (let z = z0 + 719468; era = z div 146097; doe = z mod 146097;
          yoe = (doe - doe div 1460 + doe div 36524 - doe div 146096) div 365;
          doy = doe - (365 * yoe + yoe div 4 - yoe div 100);
          mp = (5 * doy + 2) div 153;
          d = doy - (153 * mp + 2) div 5 + 1;
          m = (if mp < 10 then mp + 3 else mp - 9);
          y = yoe + era * 400 + (if m \<le> 2 then 1 else 0)
      in (y, m, d))"

definition toISOString :: "time \<Rightarrow> string" where
  "toISOString t =
     (case civil (t div 86400000) of (y, m, d) \<Rightarrow>
        let ms = t mod 86400000 in
        (if 0 \<le> y \<and> y \<le> 9999 then pad 4 y
         else (if y < 0 then ''-'' else ''+'') @ pad 6 \<bar>y\<bar>) @ ''-'' @ pad 2 m @ ''-'' @ pad 2 d
        @ ''T'' @ pad 2 (ms div 3600000) @ '':'' @ pad 2 (ms div 60000 mod 60)
        @ '':'' @ pad 2 (ms div 1000 mod 60) @ ''.'' @ pad 3 (ms mod 1000) @ ''Z'')"

subsection \<open>JSON\<close>

definition hex_digit :: "nat \<Rightarrow> char" where
  "hex_digit d = (if d < 10 then char_of (48 + d) else char_of (87 + d))"

definition json_char :: "char \<Rightarrow> string" where
  "json_char c =
     (let n = (of_char c :: nat) in
      if n = 34 then [CHR 0x5C, c] else if n = 92 then [CHR 0x5C, c]
      else if n = 8 then [CHR 0x5C, CHR ''b''] else if n = 9 then [CHR 0x5C, CHR ''t'']
      else if n = 10 then [CHR 0x5C, CHR ''n''] else if n = 12 then [CHR 0x5C, CHR ''f'']
      else if n = 13 then [CHR 0x5C, CHR ''r'']
      else if n < 32 then [CHR 0x5C, CHR ''u'', CHR ''0'', CHR ''0'', hex_digit (n div 16), hex_digit (n mod 16)]
      else [c])"

definition json_quote :: "string \<Rightarrow> string" where
  "json_quote s = [CHR 0x22] @ concat (map json_char s) @ [CHR 0x22]"

text \<open>\<open>JSON.stringify\<close> of a defined value; an undefined array element is \<open>null\<close>, an undefined
  property is dropped, an \<open>Error\<close> has only its enumerable properties.\<close>

fun json :: "jsval \<Rightarrow> string" where
  "json JUndef = ''null''"
| "json JNull = ''null''"
| "json (JBool b) = (if b then ''true'' else ''false'')"
| "json (JNum n) = show_int n"
| "json (JStr s) = json_quote s"
| "json (JDate t) = json_quote (toISOString t)"
| "json (JErr n m st ps) =
     ''{'' @ join '','' (map (\<lambda>(k, v). json_quote k @ '':'' @ json v) (filter (\<lambda>(k, v). v \<noteq> JUndef) ps)) @ ''}''"
| "json (JArr vs) = ''['' @ join '','' (map json vs) @ '']''"
| "json (JObj ps) =
     ''{'' @ join '','' (map (\<lambda>(k, v). json_quote k @ '':'' @ json v) (filter (\<lambda>(k, v). v \<noteq> JUndef) ps)) @ ''}''"

text \<open>\<open>String(v)\<close>, the parts \<open>Array.prototype.join\<close> renders; \<open>dateStr\<close> is \<open>Date.prototype.toString\<close>,
  which depends on the time zone of the process.\<close>

fun js_string :: "(time \<Rightarrow> string) \<Rightarrow> jsval \<Rightarrow> string" where
  "js_string dateStr JUndef = ''undefined''"
| "js_string dateStr JNull = ''null''"
| "js_string dateStr (JBool b) = (if b then ''true'' else ''false'')"
| "js_string dateStr (JNum n) = show_int n"
| "js_string dateStr (JStr s) = s"
| "js_string dateStr (JDate t) = dateStr t"
| "js_string dateStr (JErr n m st ps) = (if m = [] then n else n @ '': '' @ m)"
| "js_string dateStr (JArr vs) =
     join '','' (map (\<lambda>v. if nullish v then [] else js_string dateStr v) vs)"
| "js_string dateStr (JObj ps) = ''[object Object]''"

text \<open>An element of \<open>join\<close>: \<open>null\<close> and \<open>undefined\<close> render as the empty string.\<close>

definition join_part :: "(time \<Rightarrow> string) \<Rightarrow> jsval \<Rightarrow> string" where
  "join_part dateStr v = (if nullish v then [] else js_string dateStr v)"

subsection \<open>Comparison\<close>

text \<open>\<open>a >= b\<close>: two strings compare by code unit, everything else as numbers; \<open>None\<close> is not a number,
  for which no comparison holds.  A string counts as the decimal integer it spells.\<close>

definition digit_val :: "char \<Rightarrow> int option" where
  "digit_val c = (let n = (of_char c :: int) in if 48 \<le> n \<and> n \<le> 57 then Some (n - 48) else None)"

fun digits_val :: "int \<Rightarrow> string \<Rightarrow> int option" where
  "digits_val acc [] = Some acc"
| "digits_val acc (c # cs) = (case digit_val c of None \<Rightarrow> None | Some d \<Rightarrow> digits_val (10 * acc + d) cs)"

definition str_number :: "string \<Rightarrow> int option" where
  "str_number s =
     (case s of [] \<Rightarrow> Some 0
      | c # cs \<Rightarrow> if cs \<noteq> [] \<and> c = CHR ''-'' then map_option uminus (digits_val 0 cs)
                  else if cs \<noteq> [] \<and> c = CHR ''+'' then digits_val 0 cs
                  else digits_val 0 s)"

fun to_number :: "jsval \<Rightarrow> int option" where
  "to_number JNull = Some 0"
| "to_number (JBool b) = Some (if b then 1 else 0)"
| "to_number (JNum n) = Some n"
| "to_number (JStr s) = str_number s"
| "to_number (JDate t) = Some t"
| "to_number _ = None"

definition js_ge :: "jsval \<Rightarrow> jsval \<Rightarrow> bool" where
  "js_ge a b =
     (case (a, b) of (JStr s, JStr t) \<Rightarrow> t \<le> s
      | _ \<Rightarrow> (case (to_number a, to_number b) of (Some x, Some y) \<Rightarrow> y \<le> x | _ \<Rightarrow> False))"

lemma js_ge_num [simp]: "js_ge (JNum a) (JNum b) \<longleftrightarrow> b \<le> a"
  by (simp add: js_ge_def)

text \<open>\<open>v?.name\<close>\<close>

definition opt_get :: "jsval \<Rightarrow> string \<Rightarrow> jsval" where
  "opt_get v k = (case js_get v k of None \<Rightarrow> JUndef | Some x \<Rightarrow> x)"

text \<open>\<open>{ ...v }\<close> of an object; other configuration values contribute nothing.\<close>

fun as_obj :: "jsval \<Rightarrow> jsval jsobj" where
  "as_obj (JObj ps) = ps"
| "as_obj _ = []"

subsection \<open>Lemmas\<close>

lemma js_prop_set [simp]: "js_prop (obj_set k v ob) k' = (if k' = k then v else js_prop ob k')"
  by (simp add: js_prop_def)

lemma js_prop_del [simp]: "js_prop (obj_del k ob) k' = (if k' = k then JUndef else js_prop ob k')"
  by (simp add: js_prop_def)

lemma js_prop_Nil [simp]: "js_prop [] k = JUndef"
  by (simp add: js_prop_def)

lemma js_prop_Cons [simp]: "js_prop ((k', v) # ob) k = (if k' = k then v else js_prop ob k)"
  by (simp add: js_prop_def)

lemma js_get_truthy: "truthy v \<Longrightarrow> \<exists>x. js_get v k = Some x"
  by (cases v) auto

lemma toISOString_example: "toISOString 1700000000123 = ''2023-11-14T22:13:20.123Z''"
  by code_simp

end
