(* ===== verification/EventQueueError.thy ===== *)
theory EventQueueError
  imports JsValues
begin

text \<open>
  \<open>src/EventQueueError.js\<close>: the error codes, their messages, and one constructor function per
  static method of the class.  An error is the record a \<open>VError\<close> carries here: its name (the
  code), its info object and its message.  Errors are values of the left summand wherever the
  program throws.
\<close>

subsection \<open>Codes and messages\<close>

datatype ErrorCode =
    WRONG_TX_USAGE
  | UNKNOWN_EVENT_TYPE
  | NOT_INITIALIZED
  | REDIS_CREATE_CLIENT
  | REDIS_LOCAL_NO_RECONNECT
  | MISSING_TABLE_DEFINITION
  | MISSING_ELEMENT_IN_TABLE
  | TYPE_MISMATCH_TABLE
  | NO_VALID_DATE
  | INVALID_INTERVAL
  | CANT_PARSE_CRON
  | CRON_INTERVAL
  | NO_INTERVAL_OR_CRON
  | INTERVAL_AND_CRON
  | MISSING_IMPL
  | MISSING_TYPE
  | MISSING_SUBTYPE
  | DUPLICATE_EVENT_REGISTRATION
  | NO_MANUEL_INSERT_OF_PERIODIC
  | LOAD_HIGHER_THAN_LIMIT
  | NOT_ALLOWED_PRIORITY
  | APP_NAMES_FORMAT
  | APP_INSTANCES_FORMAT
  | MULTI_INSTANCE_PROCESSING_NOT_ALLOWED
  | INVALID_CLUSTER_HANDLER_RESULT

fun code_name :: "ErrorCode \<Rightarrow> string" where
  "code_name WRONG_TX_USAGE = ''WRONG_TX_USAGE''"
| "code_name UNKNOWN_EVENT_TYPE = ''UNKNOWN_EVENT_TYPE''"
| "code_name NOT_INITIALIZED = ''NOT_INITIALIZED''"
| "code_name REDIS_CREATE_CLIENT = ''REDIS_CREATE_CLIENT''"
| "code_name REDIS_LOCAL_NO_RECONNECT = ''REDIS_LOCAL_NO_RECONNECT''"
| "code_name MISSING_TABLE_DEFINITION = ''MISSING_TABLE_DEFINITION''"
| "code_name MISSING_ELEMENT_IN_TABLE = ''MISSING_ELEMENT_IN_TABLE''"
| "code_name TYPE_MISMATCH_TABLE = ''TYPE_MISMATCH_TABLE''"
| "code_name NO_VALID_DATE = ''NO_VALID_DATE''"
| "code_name INVALID_INTERVAL = ''INVALID_INTERVAL''"
| "code_name CANT_PARSE_CRON = ''CANT_PARSE_CRON''"
| "code_name CRON_INTERVAL = ''CRON_INTERVAL''"
| "code_name NO_INTERVAL_OR_CRON = ''NO_INTERVAL_OR_CRON''"
| "code_name INTERVAL_AND_CRON = ''INTERVAL_AND_CRON''"
| "code_name MISSING_IMPL = ''MISSING_IMPL''"
| "code_name MISSING_TYPE = ''MISSING_TYPE''"
| "code_name MISSING_SUBTYPE = ''MISSING_SUBTYPE''"
| "code_name DUPLICATE_EVENT_REGISTRATION = ''DUPLICATE_EVENT_REGISTRATION''"
| "code_name NO_MANUEL_INSERT_OF_PERIODIC = ''NO_MANUEL_INSERT_OF_PERIODIC''"
| "code_name LOAD_HIGHER_THAN_LIMIT = ''LOAD_HIGHER_THAN_LIMIT''"
| "code_name NOT_ALLOWED_PRIORITY = ''NOT_ALLOWED_PRIORITY''"
| "code_name APP_NAMES_FORMAT = ''APP_NAMES_FORMAT''"
| "code_name APP_INSTANCES_FORMAT = ''APP_INSTANCES_FORMAT''"
| "code_name MULTI_INSTANCE_PROCESSING_NOT_ALLOWED = ''MULTI_INSTANCE_PROCESSING_NOT_ALLOWED''"
| "code_name INVALID_CLUSTER_HANDLER_RESULT = ''INVALID_CLUSTER_HANDLER_RESULT''"

text \<open>\<open>ERROR_CODES_META[code].message\<close>\<close>

fun code_message :: "ErrorCode \<Rightarrow> string" where
  "code_message WRONG_TX_USAGE =
     ''Usage of this.tx|this.context is not allowed if parallel event processing is enabled''"
| "code_message UNKNOWN_EVENT_TYPE =
     ''The event type and subType configuration is not configured! Maintain the combination in the config file.''"
| "code_message NOT_INITIALIZED =
     ''The event-queue is not initialized yet. The initialization needs to be completed before the package is used.''"
| "code_message REDIS_CREATE_CLIENT =
     ''error during create client with redis-cache service''"
| "code_message REDIS_LOCAL_NO_RECONNECT =
     ''disabled reconnect, because not running on cloud foundry''"
| "code_message MISSING_TABLE_DEFINITION =
     ''Could not find table in csn. Make sure the provided table name is correct and the table is known by CDS.''"
| "code_message MISSING_ELEMENT_IN_TABLE =
     ''The provided table doesn'' @ [CHR 0x27] @ ''t match the required structure. At least the following element is missing.''"
| "code_message TYPE_MISMATCH_TABLE =
     ''At least one field in the provided table doesn'' @ [CHR 0x27] @ ''t have the expected data type.''"
| "code_message NO_VALID_DATE =
     ''One or more events contain a date in a malformed format.''"
| "code_message INVALID_INTERVAL =
     ''Invalid interval, the value needs to greater than 10 seconds.''"
| "code_message CANT_PARSE_CRON =
     ''The cron expression is syntactically not correct and can'' @ [CHR 0x27] @ ''t be parsed!''"
| "code_message CRON_INTERVAL =
     ''The difference between two cron execution must be greater than 10 seconds.''"
| "code_message NO_INTERVAL_OR_CRON =
     ''For periodic events either the cron or interval parameter must be defined!''"
| "code_message INTERVAL_AND_CRON =
     ''For periodic events only the cron or interval parameter can be defined!''"
| "code_message MISSING_IMPL =
     ''Missing path to event class implementation.''"
| "code_message MISSING_TYPE =
     ''Missing type event implementation.''"
| "code_message MISSING_SUBTYPE =
     ''Missing subtype event implementation.''"
| "code_message DUPLICATE_EVENT_REGISTRATION =
     ''Duplicate event registration, check the uniqueness of type and subType.''"
| "code_message NO_MANUEL_INSERT_OF_PERIODIC =
     ''Periodic events are managed by the framework and are not allowed to insert manually.''"
| "code_message LOAD_HIGHER_THAN_LIMIT =
     ''The defined load of an event is higher than the maximum defined limit. Check your configuration!''"
| "code_message NOT_ALLOWED_PRIORITY =
     ''The supplied priority is not allowed. Only LOW, MEDIUM, HIGH is allowed!''"
| "code_message APP_NAMES_FORMAT =
     ''The app names property must be an array and only contain strings.''"
| "code_message APP_INSTANCES_FORMAT =
     ''The app instances property must be an array and only contain numbers.''"
| "code_message MULTI_INSTANCE_PROCESSING_NOT_ALLOWED =
     ''The config multiInstanceProcessing is currently only allowed for ad-hoc events and single-tenant-apps.''"
| "code_message INVALID_CLUSTER_HANDLER_RESULT =
     ''A cluster handler returned an invalid result. Cluster handlers must return the clustered payload data.''"

record EventQueueError =
  err_name :: ErrorCode
  err_info :: "(string \<times> jsval) list"
  err_message :: string
  err_cause :: "jsval option"

subsection \<open>Constructors\<close>

definition wrongTxUsage :: "jsval \<Rightarrow> jsval \<Rightarrow> EventQueueError" where
  "wrongTxUsage type' subType' =
     \<lparr>err_name = WRONG_TX_USAGE, err_info = [(''type'', type'), (''subType'', subType')],
      err_message = code_message WRONG_TX_USAGE, err_cause = None\<rparr>"

definition unknownEventType :: "jsval \<Rightarrow> jsval \<Rightarrow> EventQueueError" where
  "unknownEventType type' subType' =
     \<lparr>err_name = UNKNOWN_EVENT_TYPE, err_info = [(''type'', type'), (''subType'', subType')],
      err_message = code_message UNKNOWN_EVENT_TYPE, err_cause = None\<rparr>"

definition notInitialized :: "EventQueueError" where
  "notInitialized =
     \<lparr>err_name = NOT_INITIALIZED, err_info = [],
      err_message = code_message NOT_INITIALIZED, err_cause = None\<rparr>"

definition redisConnectionFailure :: "jsval \<Rightarrow> EventQueueError" where
  "redisConnectionFailure err' =
     \<lparr>err_name = REDIS_CREATE_CLIENT, err_info = [],
      err_message = code_message REDIS_CREATE_CLIENT, err_cause = (if truthy err' then Some err' else None)\<rparr>"

definition redisNoReconnect :: "EventQueueError" where
  "redisNoReconnect =
     \<lparr>err_name = REDIS_LOCAL_NO_RECONNECT, err_info = [],
      err_message = code_message REDIS_LOCAL_NO_RECONNECT, err_cause = None\<rparr>"

definition missingTableInCsn :: "jsval \<Rightarrow> EventQueueError" where
  "missingTableInCsn tableName' =
     \<lparr>err_name = MISSING_TABLE_DEFINITION, err_info = [(''tableName'', tableName')],
      err_message = code_message MISSING_TABLE_DEFINITION, err_cause = None\<rparr>"

definition missingElementInTable :: "jsval \<Rightarrow> jsval \<Rightarrow> EventQueueError" where
  "missingElementInTable tableName' elementName' =
     \<lparr>err_name = MISSING_ELEMENT_IN_TABLE, err_info = [(''tableName'', tableName'), (''elementName'', elementName')],
      err_message = code_message MISSING_ELEMENT_IN_TABLE, err_cause = None\<rparr>"

definition typeMismatchInTable :: "jsval \<Rightarrow> jsval \<Rightarrow> EventQueueError" where
  "typeMismatchInTable tableName' elementName' =
     \<lparr>err_name = TYPE_MISMATCH_TABLE, err_info = [(''tableName'', tableName'), (''elementName'', elementName')],
      err_message = code_message TYPE_MISMATCH_TABLE, err_cause = None\<rparr>"

definition malformedDate :: "jsval \<Rightarrow> EventQueueError" where
  "malformedDate date' =
     \<lparr>err_name = NO_VALID_DATE, err_info = [(''date'', date')],
      err_message = code_message NO_VALID_DATE, err_cause = None\<rparr>"

definition invalidInterval :: "jsval \<Rightarrow> jsval \<Rightarrow> jsval \<Rightarrow> EventQueueError" where
  "invalidInterval type' subType' interval' =
     \<lparr>err_name = INVALID_INTERVAL, err_info = [(''type'', type'), (''subType'', subType'), (''interval'', interval')],
      err_message = code_message INVALID_INTERVAL, err_cause = None\<rparr>"

definition cantParseCronExpression :: "jsval \<Rightarrow> jsval \<Rightarrow> jsval \<Rightarrow> EventQueueError" where
  "cantParseCronExpression type' subType' expression' =
     \<lparr>err_name = CANT_PARSE_CRON, err_info = [(''type'', type'), (''subType'', subType'), (''expression'', expression')],
      err_message = code_message CANT_PARSE_CRON, err_cause = None\<rparr>"

definition invalidIntervalBetweenCron :: "jsval \<Rightarrow> jsval \<Rightarrow> jsval \<Rightarrow> EventQueueError" where
  "invalidIntervalBetweenCron type' subType' interval' =
     \<lparr>err_name = CRON_INTERVAL, err_info = [(''type'', type'), (''subType'', subType'), (''interval'', interval')],
      err_message = code_message CRON_INTERVAL, err_cause = None\<rparr>"

definition noCronOrInterval :: "jsval \<Rightarrow> jsval \<Rightarrow> EventQueueError" where
  "noCronOrInterval type' subType' =
     \<lparr>err_name = CRON_INTERVAL, err_info = [(''type'', type'), (''subType'', subType')],
      err_message = code_message NO_INTERVAL_OR_CRON, err_cause = None\<rparr>"

definition cronAndInterval :: "jsval \<Rightarrow> jsval \<Rightarrow> EventQueueError" where
  "cronAndInterval type' subType' =
     \<lparr>err_name = INTERVAL_AND_CRON, err_info = [(''type'', type'), (''subType'', subType')],
      err_message = code_message INTERVAL_AND_CRON, err_cause = None\<rparr>"

definition missingImpl :: "jsval \<Rightarrow> jsval \<Rightarrow> EventQueueError" where
  "missingImpl type' subType' =
     \<lparr>err_name = MISSING_IMPL, err_info = [(''type'', type'), (''subType'', subType')],
      err_message = code_message MISSING_IMPL, err_cause = None\<rparr>"

definition missingType :: "jsval \<Rightarrow> EventQueueError" where
  "missingType config' =
     \<lparr>err_name = MISSING_TYPE, err_info = [(''config'', config')],
      err_message = code_message MISSING_TYPE, err_cause = None\<rparr>"

definition missingSubType :: "jsval \<Rightarrow> EventQueueError" where
  "missingSubType config' =
     \<lparr>err_name = MISSING_SUBTYPE, err_info = [(''config'', config')],
      err_message = code_message MISSING_SUBTYPE, err_cause = None\<rparr>"

definition duplicateEventRegistration :: "jsval \<Rightarrow> jsval \<Rightarrow> EventQueueError" where
  "duplicateEventRegistration type' subType' =
     \<lparr>err_name = DUPLICATE_EVENT_REGISTRATION, err_info = [(''type'', type'), (''subType'', subType')],
      err_message = code_message DUPLICATE_EVENT_REGISTRATION, err_cause = None\<rparr>"

definition manuelPeriodicEventInsert :: "jsval \<Rightarrow> jsval \<Rightarrow> EventQueueError" where
  "manuelPeriodicEventInsert type' subType' =
     \<lparr>err_name = NO_MANUEL_INSERT_OF_PERIODIC, err_info = [(''type'', type'), (''subType'', subType')],
      err_message = code_message NO_MANUEL_INSERT_OF_PERIODIC, err_cause = None\<rparr>"

definition loadHigherThanLimit :: "jsval \<Rightarrow> jsval \<Rightarrow> EventQueueError" where
  "loadHigherThanLimit load' label' =
     \<lparr>err_name = LOAD_HIGHER_THAN_LIMIT, err_info = [(''load'', load'), (''label'', label')],
      err_message = code_message LOAD_HIGHER_THAN_LIMIT, err_cause = None\<rparr>"

definition priorityNotAllowed :: "jsval \<Rightarrow> jsval \<Rightarrow> EventQueueError" where
  "priorityNotAllowed priority' label' =
     \<lparr>err_name = NOT_ALLOWED_PRIORITY, err_info = [(''priority'', priority'), (''label'', label')],
      err_message = code_message NOT_ALLOWED_PRIORITY, err_cause = None\<rparr>"

definition appNamesFormat :: "jsval \<Rightarrow> jsval \<Rightarrow> jsval \<Rightarrow> EventQueueError" where
  "appNamesFormat type' subType' appNames' =
     \<lparr>err_name = APP_NAMES_FORMAT, err_info = [(''type'', type'), (''subType'', subType'), (''appNames'', appNames')],
      err_message = code_message APP_NAMES_FORMAT, err_cause = None\<rparr>"

definition appInstancesFormat :: "jsval \<Rightarrow> jsval \<Rightarrow> jsval \<Rightarrow> EventQueueError" where
  "appInstancesFormat type' subType' appInstances' =
     \<lparr>err_name = APP_INSTANCES_FORMAT, err_info = [(''type'', type'), (''subType'', subType'), (''appInstances'', appInstances')],
      err_message = code_message APP_INSTANCES_FORMAT, err_cause = None\<rparr>"

definition multiInstanceProcessingNotAllowed :: "jsval \<Rightarrow> jsval \<Rightarrow> EventQueueError" where
  "multiInstanceProcessingNotAllowed type' subType' =
     \<lparr>err_name = MULTI_INSTANCE_PROCESSING_NOT_ALLOWED, err_info = [(''type'', type'), (''subType'', subType')],
      err_message = code_message MULTI_INSTANCE_PROCESSING_NOT_ALLOWED, err_cause = None\<rparr>"

definition invalidClusterHandlerResult :: "jsval \<Rightarrow> jsval \<Rightarrow> EventQueueError" where
  "invalidClusterHandlerResult clusterKey' propertyName' =
     \<lparr>err_name = INVALID_CLUSTER_HANDLER_RESULT, err_info = [(''clusterKey'', clusterKey'), (''propertyName'', propertyName')],
      err_message = code_message INVALID_CLUSTER_HANDLER_RESULT, err_cause = None\<rparr>"

text \<open>\<open>isRedisConnectionFailure(err)\<close>: \<open>None\<close> stands for a value that is no \<open>VError\<close>.\<close>

definition isRedisConnectionFailure :: "EventQueueError option \<Rightarrow> bool" where
  "isRedisConnectionFailure err = (case err of None \<Rightarrow> False | Some e \<Rightarrow> err_name e = REDIS_CREATE_CLIENT)"

lemmas error_defs =
  wrongTxUsage_def
  unknownEventType_def
  notInitialized_def
  redisConnectionFailure_def
  redisNoReconnect_def
  missingTableInCsn_def
  missingElementInTable_def
  typeMismatchInTable_def
  malformedDate_def
  invalidInterval_def
  cantParseCronExpression_def
  invalidIntervalBetweenCron_def
  noCronOrInterval_def
  cronAndInterval_def
  missingImpl_def
  missingType_def
  missingSubType_def
  duplicateEventRegistration_def
  manuelPeriodicEventInsert_def
  loadHigherThanLimit_def
  priorityNotAllowed_def
  appNamesFormat_def
  appInstancesFormat_def
  multiInstanceProcessingNotAllowed_def
  invalidClusterHandlerResult_def

subsection \<open>The errors the program can raise\<close>

inductive raisable :: "EventQueueError \<Rightarrow> bool" where
  "raisable (wrongTxUsage type' subType')"
| "raisable (unknownEventType type' subType')"
| "raisable (notInitialized)"
| "raisable (redisConnectionFailure err')"
| "raisable (redisNoReconnect)"
| "raisable (missingTableInCsn tableName')"
| "raisable (missingElementInTable tableName' elementName')"
| "raisable (typeMismatchInTable tableName' elementName')"
| "raisable (malformedDate date')"
| "raisable (invalidInterval type' subType' interval')"
| "raisable (cantParseCronExpression type' subType' expression')"
| "raisable (invalidIntervalBetweenCron type' subType' interval')"
| "raisable (noCronOrInterval type' subType')"
| "raisable (cronAndInterval type' subType')"
| "raisable (missingImpl type' subType')"
| "raisable (missingType config')"
| "raisable (missingSubType config')"
| "raisable (duplicateEventRegistration type' subType')"
| "raisable (manuelPeriodicEventInsert type' subType')"
| "raisable (loadHigherThanLimit load' label')"
| "raisable (priorityNotAllowed priority' label')"
| "raisable (appNamesFormat type' subType' appNames')"
| "raisable (appInstancesFormat type' subType' appInstances')"
| "raisable (multiInstanceProcessingNotAllowed type' subType')"
| "raisable (invalidClusterHandlerResult clusterKey' propertyName')"

inductive_cases raisableE: "raisable e"

lemma raisable_message:
  "raisable e \<Longrightarrow> err_message e = code_message (err_name e)
     \<or> (\<exists>t s. e = noCronOrInterval t s)"
  by (erule raisableE) (simp_all add: error_defs)

lemma noCronOrInterval_code: "err_name (noCronOrInterval t s) = CRON_INTERVAL"
  by (simp add: noCronOrInterval_def)

lemma redis_failure_iff:
  "raisable e \<Longrightarrow> isRedisConnectionFailure (Some e) \<longleftrightarrow> (\<exists>c. e = redisConnectionFailure c)"
  by (erule raisableE) (auto simp: error_defs isRedisConnectionFailure_def)

text \<open>
  Every error the class can construct carries the message registered for its own code,
  except the one for a periodic event without cron and interval: that one is named
  \<open>CRON_INTERVAL\<close> (the code of a too short cron distance) while carrying the
  message of \<open>NO_INTERVAL_OR_CRON\<close>, so a caller that dispatches on the name cannot tell the two apart.
\<close>

theorem error_message_matches_code:
  assumes "raisable e"
  shows "err_message e \<noteq> code_message (err_name e) \<longleftrightarrow> (\<exists>t s. e = noCronOrInterval t s)"
  using raisable_message [OF assms] by (auto simp: noCronOrInterval_def)

theorem error_message_matches_code_witness:
  "raisable (noCronOrInterval (JStr ''T'') (JStr ''S''))
   \<and> err_message (noCronOrInterval (JStr ''T'') (JStr ''S''))
       \<noteq> code_message (err_name (noCronOrInterval (JStr ''T'') (JStr ''S'')))"
proof -
  have r: "raisable (noCronOrInterval (JStr ''T'') (JStr ''S''))" by (rule raisable.intros)
  then show ?thesis using error_message_matches_code [OF r] by blast
qed

end
