(* ===== verification/WorkerQueue.thy ===== *)
theory WorkerQueue
  imports Constants EventQueueError
begin

text \<open>
  \<open>src/shared/WorkerQueue.js\<close>: the load-limited, prioritised queue every event-queue run goes
  through.  The state is the class's private fields; \<open>addToQueue\<close>, \<open>#checkForNext\<close>,
  \<open>_executeFunction\<close>, its \<open>finally\<close> handler and \<open>#adjustPriority\<close> are one definition each.
  A callback is represented by its number; a running promise by the queue entry it was made of.
  Loads and limits are integers, \<open>process.hrtime.bigint()\<close> is an integer of nanoseconds that the
  environment supplies.  Logging of the waiting time is left out.

  Proved: the running load is the sum of the running entries' loads and never exceeds the limit,
  every entry is either queued, running or finished (nothing is lost or duplicated), the entry
  picked is the first fitting one of the highest priority, and no entry waits while it would fit;
  hence the queue is empty whenever nothing runs.
\<close>

subsection \<open>State\<close>

text \<open>\<open>[load, label, cb, resolve, reject, increasePriorityOverTime, startTime, ...shifted]\<close>:
  indices 0, 1, 2, 5, 6 and the times pushed at index 7 and later.\<close>

record queue_entry =
  load :: int
  label :: string
  cb :: nat
  increasePrio :: bool
  startTime :: int
  shiftedTimes :: "int list"

record worker_queue =
  concurrencyLimit :: int
  runningPromises :: "queue_entry list"
  runningLoad :: int
  queue :: "Priority \<Rightarrow> queue_entry list"

text \<open>\<open>Object.values(Priorities)\<close> and its reverse.\<close>

definition priorityValues :: "Priority list" where
  "priorityValues = [Low, Medium, High, VeryHigh]"

definition PRIORITIES :: "Priority list" where
  "PRIORITIES = rev priorityValues"

text \<open>The constructor; \<open>None\<close> is \<open>NaN\<close>.\<close>

definition new_WorkerQueue :: "int option \<Rightarrow> worker_queue" where
  "new_WorkerQueue concurrency =
     \<lparr>concurrencyLimit =
        (case concurrency of None \<Rightarrow> 1 | Some c \<Rightarrow> if c \<le> 0 then 1 else c),
      runningPromises = [], runningLoad = 0, queue = (\<lambda>_. [])\<rparr>"

subsection \<open>Operations\<close>

definition set_queue :: "Priority \<Rightarrow> queue_entry list \<Rightarrow> worker_queue \<Rightarrow> worker_queue" where
  "set_queue p es s = s\<lparr>queue := (queue s)(p := es)\<rparr>"

definition allQueued :: "worker_queue \<Rightarrow> queue_entry list" where
  "allQueued s = concat (map (queue s) PRIORITIES)"

text \<open>The inner \<open>for\<close> loop of \<open>#checkForNext\<close>: the first entry that fits.\<close>

fun findFit :: "worker_queue \<Rightarrow> queue_entry list \<Rightarrow> nat \<Rightarrow> nat option" where
  "findFit s [] i = None"
| "findFit s (e # es) i =
     (if runningLoad s + load e \<le> concurrencyLimit s then Some i else findFit s es (Suc i))"

text \<open>The outer loop over the priorities, left with \<open>break\<close> once an entry was found.\<close>

fun findNext :: "worker_queue \<Rightarrow> Priority list \<Rightarrow> (Priority \<times> nat) option" where
  "findNext s [] = None"
| "findNext s (p # ps) =
     (case findFit s (queue s p) 0 of Some i \<Rightarrow> Some (p, i) | None \<Rightarrow> findNext s ps)"

lemma findFit_Some:
  "findFit s es i = Some j \<Longrightarrow>
     i \<le> j \<and> j - i < length es \<and> runningLoad s + load (es ! (j - i)) \<le> concurrencyLimit s
     \<and> (\<forall>k < j - i. concurrencyLimit s < runningLoad s + load (es ! k))"
proof (induction s es i rule: findFit.induct)
  case (2 s e es i)
  show ?case
  proof (cases "runningLoad s + load e \<le> concurrencyLimit s")
    case False
    with "2.prems" have "findFit s es (Suc i) = Some j" by simp
    from "2.IH" [OF False this] have IH: "Suc i \<le> j" "j - Suc i < length es"
      "runningLoad s + load (es ! (j - Suc i)) \<le> concurrencyLimit s"
      "\<And>k. k < j - Suc i \<Longrightarrow> concurrencyLimit s < runningLoad s + load (es ! k)" by auto
    obtain d where d: "j - i = Suc d" using IH(1) by (metis Suc_diff_Suc Suc_le_lessD)
    then have d': "j - Suc i = d" by simp
    show ?thesis
      using IH d d' False by (auto simp: less_Suc_eq_0_disj)
  qed (use "2.prems" in auto)
qed simp

lemma findFit_None:
  "findFit s es i = None \<longleftrightarrow> (\<forall>e\<in>set es. concurrencyLimit s < runningLoad s + load e)"
  by (induction s es i rule: findFit.induct) auto

lemma findNext_Some:
  "findNext s ps = Some (p, i) \<Longrightarrow> p \<in> set ps \<and> findFit s (queue s p) 0 = Some i"
  by (induction s ps rule: findNext.induct) (auto split: option.splits)

lemma findNext_in_range:
  "findNext s ps = Some (p, i) \<Longrightarrow> i < length (queue s p)"
  using findNext_Some findFit_Some by fastforce

lemma queue_set_queue [simp]:
  "queue (set_queue p es s) q = (if q = p then es else queue s q)"
  "runningLoad (set_queue p es s) = runningLoad s"
  "concurrencyLimit (set_queue p es s) = concurrencyLimit s"
  "runningPromises (set_queue p es s) = runningPromises s"
  by (simp_all add: set_queue_def)

lemma length_allQueued_splice:
  "i < length (queue s p) \<Longrightarrow>
     Suc (length (allQueued (set_queue p (splice1 i (queue s p)) s))) = length (allQueued s)"
  by (cases p) (auto simp: allQueued_def PRIORITIES_def priorityValues_def)

text \<open>
  \<open>_executeFunction\<close> starts the entry and calls \<open>#checkForNext\<close> again unless the limit is reached;
  \<open>#checkForNext\<close> takes the entry out of its queue and executes it.  Each round removes an entry
  from the queues, which is why the two terminate.
\<close>

function (sequential) executeFunction :: "queue_entry \<Rightarrow> worker_queue \<Rightarrow> worker_queue"
  and checkForNext :: "worker_queue \<Rightarrow> worker_queue" where
  "executeFunction e s =
     (let s1 = s\<lparr>runningPromises := runningPromises s @ [e], runningLoad := runningLoad s + load e\<rparr>
      in if runningLoad s1 \<noteq> concurrencyLimit s1 then checkForNext s1 else s1)"
| "checkForNext s =
     (if (\<forall>p\<in>set PRIORITIES. queue s p = []) \<or> runningLoad s = concurrencyLimit s then s
      else (case findNext s PRIORITIES of
              None \<Rightarrow> s
            | Some (p, i) \<Rightarrow>
                executeFunction (queue s p ! i) (set_queue p (splice1 i (queue s p)) s)))"
  by pat_completeness auto
termination
proof (relation "measure (\<lambda>x. case x of Inl (e, s) \<Rightarrow> Suc (2 * length (allQueued s))
    | Inr s \<Rightarrow> 2 * length (allQueued s))", goal_cases)
  case (3 s x p i)
  then have "i < length (queue s p)" using findNext_in_range by auto
  from length_allQueued_splice [OF this] show ?case by simp
qed (simp_all add: allQueued_def)

declare executeFunction.simps [simp del] checkForNext.simps [simp del]

definition addToQueue ::
  "int \<Rightarrow> string \<Rightarrow> string option \<Rightarrow> bool \<Rightarrow> nat \<Rightarrow> int \<Rightarrow> worker_queue
   \<Rightarrow> EventQueueError + worker_queue" where
  "addToQueue ld lbl prio inc cb' hrtime s =
     (if ld > concurrencyLimit s then Inl (loadHigherThanLimit (JNum ld) (JStr lbl))
      else
        (let pr = (case prio of None \<Rightarrow> ''medium'' | Some x \<Rightarrow> x) in
         case priority_of pr of
           None \<Rightarrow> Inl (priorityNotAllowed (JStr pr) (JStr lbl))
         | Some p \<Rightarrow>
             (let e = \<lparr>load = ld, label = lbl, cb = cb', increasePrio = inc, startTime = hrtime,
                       shiftedTimes = []\<rparr>
              in Inr (checkForNext (set_queue p (queue s p @ [e]) s)))))"

text \<open>The \<open>finally\<close> handler of the promise at index \<open>i\<close> of the running ones.\<close>

definition settle :: "nat \<Rightarrow> worker_queue \<Rightarrow> worker_queue" where
  "settle i s =
     checkForNext (s\<lparr>runningLoad := runningLoad s - load (runningPromises s ! i),
                      runningPromises := splice1 i (runningPromises s)\<rparr>)"

text \<open>\<open>queueEntry[7] ?? queueEntry[6]\<close>\<close>

definition waitingSince :: "queue_entry \<Rightarrow> int" where
  "waitingSince e = (case shiftedTimes e of [] \<Rightarrow> startTime e | t # _ \<Rightarrow> t)"

definition isDue :: "int \<Rightarrow> queue_entry \<Rightarrow> bool" where
  "isDue checkTime e \<longleftrightarrow>
     increasePrio e \<and> round_div (checkTime - waitingSince e) 1000000 > 3 * (60 * 1000)"

text \<open>
  The inner loop of \<open>#adjustPriority\<close> over \<open>q = this.queue[priority]\<close> and
  \<open>nxt = this.queue[nextPriority]\<close>.  \<open>splice\<close> moves the following entry to index \<open>i\<close>, and the
  loop goes on with index \<open>i + 1\<close>.
\<close>

function adjustLoop ::
  "int \<Rightarrow> nat \<Rightarrow> queue_entry list \<Rightarrow> queue_entry list \<Rightarrow> queue_entry list \<times> queue_entry list" where
  "adjustLoop checkTime i q nxt =
     (if i < length q then
        (let e = q ! i in
         if isDue checkTime e then
           adjustLoop checkTime (Suc i) (splice1 i q)
             (nxt @ [e\<lparr>shiftedTimes := shiftedTimes e @ [checkTime]\<rparr>])
         else adjustLoop checkTime (Suc i) q nxt)
      else (q, nxt))"
  by pat_completeness auto
termination
  by (relation "measure (\<lambda>(c, i, q, n). length q - i)") auto

declare adjustLoop.simps [simp del]

text \<open>The outer loop: each priority but the last, with its successor.\<close>

definition adjustStep :: "int \<Rightarrow> worker_queue \<Rightarrow> Priority \<times> Priority \<Rightarrow> worker_queue" where
  "adjustStep checkTime s pn =
     (case adjustLoop checkTime 0 (queue s (fst pn)) (queue s (snd pn)) of
        (q, nxt) \<Rightarrow> set_queue (snd pn) nxt (set_queue (fst pn) q s))"

definition adjustPriority :: "int \<Rightarrow> worker_queue \<Rightarrow> worker_queue" where
  "adjustPriority checkTime s =
     foldl (adjustStep checkTime) s (zip (butlast priorityValues) (tl priorityValues))"

text \<open>Everything that can happen to the queue: a call, a settled promise, the interval runner.
  Loads are not negative (the configuration documents them as positive numbers).\<close>

inductive wq_step :: "worker_queue \<Rightarrow> worker_queue \<Rightarrow> bool" where
  add: "0 \<le> ld \<Longrightarrow> addToQueue ld lbl prio inc c now s = Inr s' \<Longrightarrow> wq_step s s'"
| settled: "i < length (runningPromises s) \<Longrightarrow> wq_step s (settle i s)"
| adjust: "wq_step s (adjustPriority now s)"

inductive_cases wq_stepE: "wq_step s t"

subsection \<open>What is picked\<close>

lemma findNext_highest:
  assumes "findNext s ps = Some (p, i)"
  shows "\<exists>us vs. ps = us @ p # vs
    \<and> (\<forall>q\<in>set us. \<forall>e\<in>set (queue s q). concurrencyLimit s < runningLoad s + load e)"
  using assms
proof (induction s ps rule: findNext.induct)
  case (2 s q qs)
  show ?case
  proof (cases "findFit s (queue s q) 0")
    case None
    with "2.prems" have "findNext s qs = Some (p, i)" by simp
    from "2.IH" [OF None this] obtain us vs where uv: "qs = us @ p # vs"
      "\<forall>q\<in>set us. \<forall>e\<in>set (queue s q). concurrencyLimit s < runningLoad s + load e" by blast
    have "q # qs = (q # us) @ p # vs" using uv(1) by simp
    moreover have "\<forall>r\<in>set (q # us). \<forall>e\<in>set (queue s r). concurrencyLimit s < runningLoad s + load e"
      using uv(2) None by (simp add: findFit_None)
    ultimately show ?thesis by blast
  next
    case (Some j)
    with "2.prems" show ?thesis by (intro exI [of _ "[]"] exI [of _ qs]) auto
  qed
qed simp

lemma findNext_highest_prio:
  assumes "findNext s PRIORITIES = Some (p, i)" "p < q" "e \<in> set (queue s q)"
  shows "concurrencyLimit s < runningLoad s + load e"
proof -
  obtain us vs where uv: "PRIORITIES = us @ p # vs"
    "\<forall>q\<in>set us. \<forall>e\<in>set (queue s q). concurrencyLimit s < runningLoad s + load e"
    using findNext_highest [OF assms(1)] by blast
  have "q \<in> set us"
    using uv(1) assms(2)
    by (cases p; cases q)
      (auto simp: PRIORITIES_def priorityValues_def less_Priority_def Cons_eq_append_conv)
  then show ?thesis using uv(2) assms(3) by blast
qed

lemma findNext_None:
  "findNext s ps = None \<longleftrightarrow>
     (\<forall>p\<in>set ps. \<forall>e\<in>set (queue s p). concurrencyLimit s < runningLoad s + load e)"
proof (induction s ps rule: findNext.induct)
  case (2 s p ps)
  then show ?case
    by (cases "findFit s (queue s p) 0") (simp_all flip: findFit_None [of s "queue s p" 0])
qed simp

lemma set_PRIORITIES [simp]: "set PRIORITIES = UNIV"
  using Priority.exhaust by (auto simp: PRIORITIES_def priorityValues_def)

lemma set_allQueued: "set (allQueued s) = (\<Union>p. set (queue s p))"
  by (simp add: allQueued_def)

lemma mset_allQueued:
  "mset (allQueued s) =
     mset (queue s VeryHigh) + mset (queue s High) + mset (queue s Medium) + mset (queue s Low)"
  by (simp add: allQueued_def PRIORITIES_def priorityValues_def)

lemma mset_allQueued_set_queue:
  "mset es + mset fs = mset (queue s p) + mset gs \<Longrightarrow>
     mset (allQueued (set_queue p es s)) + mset fs = mset (allQueued s) + mset gs"
  by (cases p) (auto simp: mset_allQueued ac_simps)

lemma mset_allQueued_splice:
  "i < length (queue s p) \<Longrightarrow>
     add_mset (queue s p ! i) (mset (allQueued (set_queue p (splice1 i (queue s p)) s)))
       = mset (allQueued s)"
  using mset_allQueued_set_queue [of "splice1 i (queue s p)" "[queue s p ! i]" s p "[]"]
    mset_splice1 [of i "queue s p"] by simp

subsection \<open>The invariant\<close>

text \<open>Loads are accounted for and within bounds.\<close>

definition wq_base :: "worker_queue \<Rightarrow> bool" where
  "wq_base s \<longleftrightarrow>
     1 \<le> concurrencyLimit s
     \<and> runningLoad s = sum_list (map load (runningPromises s))
     \<and> runningLoad s \<le> concurrencyLimit s
     \<and> (\<forall>e\<in>set (runningPromises s). 0 \<le> load e)
     \<and> (\<forall>e\<in>set (allQueued s). 0 \<le> load e \<and> load e \<le> concurrencyLimit s)"

text \<open>No queued entry would fit.\<close>

definition wq_busy :: "worker_queue \<Rightarrow> bool" where
  "wq_busy s \<longleftrightarrow> runningLoad s = concurrencyLimit s
     \<or> (\<forall>e\<in>set (allQueued s). concurrencyLimit s < runningLoad s + load e)"

definition wq_inv :: "worker_queue \<Rightarrow> bool" where
  "wq_inv s \<longleftrightarrow> wq_base s \<and> wq_busy s"

text \<open>The entries the queue knows, up to the times their priority was raised.\<close>

definition known :: "worker_queue \<Rightarrow> nat multiset" where
  "known s = image_mset cb (mset (allQueued s) + mset (runningPromises s))"

definition startAt :: "Priority \<Rightarrow> nat \<Rightarrow> worker_queue \<Rightarrow> worker_queue" where
  "startAt p i s = (set_queue p (splice1 i (queue s p)) s)
     \<lparr>runningPromises := runningPromises s @ [queue s p ! i],
      runningLoad := runningLoad s + load (queue s p ! i)\<rparr>"

lemma startAt_simps [simp]:
  "concurrencyLimit (startAt p i s) = concurrencyLimit s"
  "runningLoad (startAt p i s) = runningLoad s + load (queue s p ! i)"
  "runningPromises (startAt p i s) = runningPromises s @ [queue s p ! i]"
  "allQueued (startAt p i s) = allQueued (set_queue p (splice1 i (queue s p)) s)"
  by (simp_all add: startAt_def allQueued_def)

lemma checkForNext_induct:
  assumes stop: "\<And>s. (\<forall>p. queue s p = []) \<or> runningLoad s = concurrencyLimit s
      \<or> findNext s PRIORITIES = None \<Longrightarrow> P s s"
    and last: "\<And>s p i. findNext s PRIORITIES = Some (p, i) \<Longrightarrow>
      runningLoad (startAt p i s) = concurrencyLimit s \<Longrightarrow> P s (startAt p i s)"
    and more: "\<And>s p i t. findNext s PRIORITIES = Some (p, i) \<Longrightarrow> P (startAt p i s) t \<Longrightarrow> P s t"
  shows "P s (checkForNext s)"
proof (induction "length (allQueued s)" arbitrary: s rule: less_induct)
  case less
  show ?case
  proof (cases "((\<forall>p\<in>set PRIORITIES. queue s p = []) \<or> runningLoad s = concurrencyLimit s)
      \<or> findNext s PRIORITIES = None")
    case True
    then have "checkForNext s = s" by (auto simp: checkForNext.simps [of s])
    with stop [of s] True show ?thesis by simp
  next
    case False
    then have nc: "\<not> ((\<forall>p\<in>set PRIORITIES. queue s p = []) \<or> runningLoad s = concurrencyLimit s)"
      by blast
    from False obtain p i where pi: "findNext s PRIORITIES = Some (p, i)" by force
    have eq: "checkForNext s = (if runningLoad (startAt p i s) \<noteq> concurrencyLimit s
        then checkForNext (startAt p i s) else startAt p i s)"
      by (subst checkForNext.simps, subst if_not_P [OF nc])
        (simp add: pi executeFunction.simps startAt_def Let_def)
    have "Suc (length (allQueued (startAt p i s))) = length (allQueued s)"
      using length_allQueued_splice [OF findNext_in_range [OF pi]] by simp
    then have "P (startAt p i s) (checkForNext (startAt p i s))" by (intro less.hyps) simp
    then show ?thesis
      using eq last [OF pi] more [OF pi] by (auto split: if_splits)
  qed
qed

lemma start_known: "findNext s PRIORITIES = Some (p, i) \<Longrightarrow> known (startAt p i s) = known s"
  using mset_allQueued_splice [OF findNext_in_range, of s PRIORITIES p i]
  by (simp add: known_def) (metis image_mset_add_mset)

lemma checkForNext_known: "known (checkForNext s) = known s"
  by (rule checkForNext_induct [where P = "\<lambda>s t. known t = known s"]) (simp_all add: start_known)

lemma checkForNext_limit: "concurrencyLimit (checkForNext s) = concurrencyLimit s"
  by (rule checkForNext_induct [where P = "\<lambda>s t. concurrencyLimit t = concurrencyLimit s"]) simp_all

lemma start_base:
  assumes "findNext s PRIORITIES = Some (p, i)" "wq_base s"
  shows "wq_base (startAt p i s)"
proof -
  have i: "i < length (queue s p)" by (rule findNext_in_range [OF assms(1)])
  have "queue s p ! i \<in> set (allQueued s)" using nth_mem [OF i] by (auto simp: set_allQueued)
  moreover have "runningLoad s + load (queue s p ! i) \<le> concurrencyLimit s"
    using findNext_Some [OF assms(1)] findFit_Some [of s "queue s p" 0 i] by simp
  moreover have "set (allQueued (startAt p i s)) \<subseteq> set (allQueued s)"
    using mset_allQueued_splice [OF i]
    by (metis set_mset_mset set_mset_add_mset_insert subset_insertI startAt_simps(4))
  ultimately show ?thesis
    using assms(2) by (auto simp: wq_base_def)
qed

lemma checkForNext_inv: "wq_base s \<Longrightarrow> wq_inv (checkForNext s)"
proof (rule checkForNext_induct [where P = "\<lambda>s t. wq_base s \<longrightarrow> wq_inv t", THEN mp], goal_cases)
  case (1 s)
  then show ?case by (auto simp: wq_inv_def wq_busy_def findNext_None set_allQueued)
next
  case (2 s p i)
  then show ?case using start_base [of s p i] by (auto simp: wq_inv_def wq_busy_def)
next
  case (3 s p i t)
  then show ?case using start_base by blast
qed

subsection \<open>The operations keep the invariant\<close>

lemma allQueued_running_update [simp]:
  "allQueued (s\<lparr>runningLoad := l, runningPromises := r\<rparr>) = allQueued s"
  by (simp add: allQueued_def)

lemma set_allQueued_append:
  "set (allQueued (set_queue p (queue s p @ [e]) s)) = insert e (set (allQueued s))"
  by (auto simp: set_allQueued split: if_splits)

lemma mset_allQueued_append:
  "mset (allQueued (set_queue p (queue s p @ [e]) s)) = add_mset e (mset (allQueued s))"
  using mset_allQueued_set_queue [of "queue s p @ [e]" "[]" s p "[e]"] by simp

lemma addToQueue_Inr:
  assumes "addToQueue ld lbl prio inc c now s = Inr t"
  obtains p e where "t = checkForNext (set_queue p (queue s p @ [e]) s)"
    "load e = ld" "cb e = c" "ld \<le> concurrencyLimit s"
  using assms by (auto simp: addToQueue_def Let_def split: if_splits option.splits)

lemma addToQueue_inv [inv_intros]:
  assumes "wq_inv s" "0 \<le> ld" "addToQueue ld lbl prio inc c now s = Inr t"
  shows "wq_inv t"
proof -
  obtain p e where t: "t = checkForNext (set_queue p (queue s p @ [e]) s)"
    and e: "load e = ld" "ld \<le> concurrencyLimit s"
    by (rule addToQueue_Inr [OF assms(3)]) blast
  have "wq_base (set_queue p (queue s p @ [e]) s)"
    using assms(1,2) e by (auto simp: wq_inv_def wq_base_def set_allQueued_append)
  then show ?thesis by (simp add: t checkForNext_inv)
qed

lemma addToQueue_known:
  assumes "addToQueue ld lbl prio inc c now s = Inr t"
  shows "known t = add_mset c (known s)"
  by (rule addToQueue_Inr [OF assms])
    (simp add: checkForNext_known, simp add: known_def mset_allQueued_append)

lemma settle_inv [inv_intros]:
  assumes "wq_inv s" "i < length (runningPromises s)"
  shows "wq_inv (settle i s)"
proof -
  have "0 \<le> load (runningPromises s ! i)" "sum_list (map load (runningPromises s)) \<le> concurrencyLimit s"
    using assms by (simp_all add: wq_inv_def wq_base_def)
  then have le: "sum_list (map load (runningPromises s)) - load (runningPromises s ! i) \<le> concurrencyLimit s"
    by linarith
  show ?thesis
    unfolding settle_def using assms le set_splice1_subset [of i "runningPromises s"]
    by (intro checkForNext_inv) (auto simp: wq_inv_def wq_base_def sum_list_splice1)
qed

lemma settle_known:
  assumes "i < length (runningPromises s)"
  shows "add_mset (cb (runningPromises s ! i)) (known (settle i s)) = known s"
proof -
  have "known (settle i s) = image_mset cb (mset (allQueued s) + mset (splice1 i (runningPromises s)))"
    by (simp add: settle_def checkForNext_known) (simp add: known_def)
  then show ?thesis
    using mset_splice1 [OF assms] by (simp add: known_def) (metis image_mset_add_mset)
qed

subsection \<open>Raising priorities\<close>

text \<open>Whatever of an entry does not depend on the recorded times is neither lost nor duplicated.\<close>

lemma adjustLoop_mset:
  assumes f: "\<And>e ts. f (e\<lparr>shiftedTimes := ts\<rparr>) = f e"
  shows "adjustLoop t i q n = (q', n') \<Longrightarrow>
     image_mset f (mset q' + mset n') = image_mset f (mset q + mset n)"
proof (induction t i q n arbitrary: q' n' rule: adjustLoop.induct)
  case (1 t i q n)
  show ?case
  proof (cases "i < length q \<and> isDue t (q ! i)")
    case True
    then have "adjustLoop t (Suc i) (splice1 i q)
        (n @ [(q ! i)\<lparr>shiftedTimes := shiftedTimes (q ! i) @ [t]\<rparr>]) = (q', n')"
      using "1.prems" by (simp add: adjustLoop.simps [of t i q n] Let_def)
    from "1.IH"(1) [OF _ refl _ this] True have "image_mset f (mset q' + mset n') =
        add_mset (f (q ! i)) (image_mset f (mset (splice1 i q) + mset n))" by (simp add: f)
    also have "\<dots> = image_mset f (mset q + mset n)"
      using True by (simp flip: mset_splice1 [of i q])
    finally show ?thesis .
  next
    case False
    then show ?thesis
      using 1 by (auto simp: adjustLoop.simps [of t i q n] Let_def split: if_splits)
  qed
qed

lemma adjustStep_simps [simp]:
  "concurrencyLimit (adjustStep t s pn) = concurrencyLimit s"
  "runningLoad (adjustStep t s pn) = runningLoad s"
  "runningPromises (adjustStep t s pn) = runningPromises s"
  by (simp_all add: adjustStep_def split: prod.splits)

lemma adjustStep_mset:
  assumes f: "\<And>e ts. f (e\<lparr>shiftedTimes := ts\<rparr>) = f e" and ne: "fst pn \<noteq> snd pn"
  shows "image_mset f (mset (allQueued (adjustStep t s pn))) = image_mset f (mset (allQueued s))"
proof -
  obtain p r where pn: "pn = (p, r)" by fastforce
  obtain q n where qn: "adjustLoop t 0 (queue s p) (queue s r) = (q, n)" by fastforce
  have eq: "image_mset f (mset q + mset n) = image_mset f (mset (queue s p) + mset (queue s r))"
    by (rule adjustLoop_mset [OF f qn])
  have st: "adjustStep t s pn = set_queue r n (set_queue p q s)" by (simp add: adjustStep_def pn qn)
  show ?thesis
    unfolding st using ne eq unfolding pn
    by (cases p; cases r) (simp_all add: mset_allQueued ac_simps)
qed

lemma adjustPriority_simps [simp]:
  "concurrencyLimit (adjustPriority t s) = concurrencyLimit s"
  "runningLoad (adjustPriority t s) = runningLoad s"
  "runningPromises (adjustPriority t s) = runningPromises s"
  by (simp_all add: adjustPriority_def priorityValues_def)

lemma adjustPriority_mset:
  assumes "\<And>e ts. f (e\<lparr>shiftedTimes := ts\<rparr>) = f e"
  shows "image_mset f (mset (allQueued (adjustPriority t s))) = image_mset f (mset (allQueued s))"
  by (simp add: adjustPriority_def priorityValues_def adjustStep_mset [OF assms])

lemma adjustPriority_loads:
  "load ` set (allQueued (adjustPriority t s)) = load ` set (allQueued s)"
proof -
  have "image_mset load (mset (allQueued (adjustPriority t s))) = image_mset load (mset (allQueued s))"
    by (rule adjustPriority_mset) simp
  then have "set_mset (image_mset load (mset (allQueued (adjustPriority t s)))) =
      set_mset (image_mset load (mset (allQueued s)))" by (rule arg_cong)
  then show ?thesis by simp
qed

lemma ball_load_iff:
  fixes A B :: "queue_entry set"
  assumes "load ` A = load ` B"
  shows "(\<forall>e\<in>A. P (load e)) \<longleftrightarrow> (\<forall>e\<in>B. P (load e))"
  using arg_cong [OF assms, of "\<lambda>X. \<forall>l\<in>X. P l"] by simp

lemma adjustPriority_inv [inv_intros]: "wq_inv s \<Longrightarrow> wq_inv (adjustPriority t s)"
  unfolding wq_inv_def wq_base_def wq_busy_def
  using ball_load_iff [OF adjustPriority_loads, of t s "\<lambda>l. 0 \<le> l \<and> l \<le> concurrencyLimit s"]
    ball_load_iff [OF adjustPriority_loads, of t s "\<lambda>l. concurrencyLimit s < runningLoad s + l"]
  by auto

lemma adjustPriority_known: "known (adjustPriority t s) = known s"
  by (simp add: known_def adjustPriority_mset)

subsection \<open>The interface other components rely on\<close>

text \<open>
  A pool with a capacity: its invariant holds at the start and is kept by every step, a waiting
  item never exceeds the capacity, and it waits only while it does not fit.
\<close>

locale work_pool =
  fixes start :: "'s \<Rightarrow> bool" and step :: "'s \<Rightarrow> 's \<Rightarrow> bool" and pool_inv :: "'s \<Rightarrow> bool"
    and capacity :: "'s \<Rightarrow> int" and waiting :: "'s \<Rightarrow> int list" and active :: "'s \<Rightarrow> int list"
  assumes inv_start: "start s \<Longrightarrow> pool_inv s"
    and inv_step: "pool_inv s \<Longrightarrow> step s t \<Longrightarrow> pool_inv t"
    and capacity_pos: "pool_inv s \<Longrightarrow> 0 < capacity s"
    and active_bounded: "pool_inv s \<Longrightarrow> sum_list (active s) \<le> capacity s"
    and waiting_fits: "pool_inv s \<Longrightarrow> l \<in> set (waiting s) \<Longrightarrow> l \<le> capacity s"
    and work_conserving: "pool_inv s \<Longrightarrow> l \<in> set (waiting s) \<Longrightarrow>
      sum_list (active s) = capacity s \<or> capacity s < sum_list (active s) + l"
begin

lemma reach_inv: "step\<^sup>*\<^sup>* s t \<Longrightarrow> start s \<Longrightarrow> pool_inv t"
  by (induction rule: rtranclp_induct) (auto intro: inv_start inv_step)

lemma reach_bounded: "step\<^sup>*\<^sup>* s t \<Longrightarrow> start s \<Longrightarrow> sum_list (active t) \<le> capacity t"
  by (intro active_bounded reach_inv)

lemma reach_no_idle_waiting:
  assumes "step\<^sup>*\<^sup>* s t" "start s" "l \<in> set (waiting t)"
  shows "capacity t < sum_list (active t) + max 1 l"
  using work_conserving [OF reach_inv [OF assms(1,2)] assms(3)] by linarith

lemma reach_not_stuck:
  assumes "step\<^sup>*\<^sup>* s t" "start s" "active t = []"
  shows "waiting t = []"
proof (rule ccontr)
  assume "waiting t \<noteq> []"
  then obtain l where l: "l \<in> set (waiting t)" by (cases "waiting t") auto
  note inv = reach_inv [OF assms(1,2)]
  from work_conserving [OF inv l] waiting_fits [OF inv l] capacity_pos [OF inv] assms(3)
  show False by simp
qed

end

lemma new_WorkerQueue_inv: "wq_inv (new_WorkerQueue c)"
  by (auto simp: wq_inv_def wq_base_def wq_busy_def new_WorkerQueue_def allQueued_def split: option.splits)

lemma wq_step_inv [inv_intros]: "wq_inv s \<Longrightarrow> wq_step s t \<Longrightarrow> wq_inv t"
  by (erule wq_stepE) (auto intro: inv_intros)

lemma wq_inv_laws:
  assumes "wq_inv s"
  shows "0 < concurrencyLimit s" "sum_list (map load (runningPromises s)) \<le> concurrencyLimit s"
    "e \<in> set (allQueued s) \<Longrightarrow> load e \<le> concurrencyLimit s"
    "e \<in> set (allQueued s) \<Longrightarrow> sum_list (map load (runningPromises s)) = concurrencyLimit s
       \<or> concurrencyLimit s < sum_list (map load (runningPromises s)) + load e"
  using assms by (auto simp: wq_inv_def wq_base_def wq_busy_def)

interpretation wq: work_pool "\<lambda>s. \<exists>c. s = new_WorkerQueue c" wq_step wq_inv concurrencyLimit
  "\<lambda>s. map load (allQueued s)" "\<lambda>s. map load (runningPromises s)"
proof (unfold_locales, goal_cases)
  case (1 s)
  then show ?case using new_WorkerQueue_inv by blast
next
  case (2 s t)
  then show ?case by (rule wq_step_inv)
next
  case (5 s l)
  then show ?case using wq_inv_laws(3) by auto
next
  case (6 s l)
  then show ?case using wq_inv_laws(4) [of s] by auto
qed (auto dest: wq_inv_laws(1,2))

subsection \<open>Properties\<close>

text \<open>
  C2. Whatever sequence of calls, settled callbacks and priority adjustments a worker queue goes
  through from its construction, the loads of the callbacks running at the same time never add up
  to more than the configured limit.
\<close>

theorem worker_queue_load_bounded:
  assumes "wq_step\<^sup>*\<^sup>* (new_WorkerQueue limit) s"
  shows "runningLoad s = sum_list (map load (runningPromises s))
    \<and> runningLoad s \<le> concurrencyLimit s"
proof -
  have "wq_inv s" using wq.reach_inv [OF assms] by blast
  then show ?thesis by (simp add: wq_inv_def wq_base_def)
qed

text \<open>
  C3. The queue never stalls: in every reachable state a queued entry waits only because it does
  not fit beside the running ones, so that nothing is queued once nothing runs.  Since each
  settled callback frees its load and restarts the search, every accepted callback is started as
  long as running callbacks settle.
\<close>

theorem worker_queue_not_stuck:
  assumes "wq_step\<^sup>*\<^sup>* (new_WorkerQueue limit) s" "runningPromises s = []"
  shows "queue s p = []"
proof -
  have "map load (allQueued s) = []"
    by (rule wq.reach_not_stuck [OF assms(1)]) (use assms(2) in auto)
  then have "set (allQueued s) = {}" by simp
  then show ?thesis by (auto simp: set_allQueued)
qed

text \<open>
  C4. No callback is lost or run twice: every accepted call adds exactly its callback to the queued
  and running ones, a settled promise removes exactly its own, and raising priorities changes
  none of them.
\<close>

theorem worker_queue_conserves_callbacks:
  "(addToQueue ld lbl prio inc c now s = Inr t \<longrightarrow> known t = add_mset c (known s))
   \<and> (i < length (runningPromises s) \<longrightarrow>
        add_mset (cb (runningPromises s ! i)) (known (settle i s)) = known s)
   \<and> known (adjustPriority now s) = known s"
  using addToQueue_known settle_known adjustPriority_known by blast

text \<open>
  The entry \<open>#checkForNext\<close> starts is the right one: it fits, no entry of a higher priority
  fits, and no earlier entry of its own priority fits.
\<close>

theorem checkForNext_picks_first_fitting:
  assumes "findNext s PRIORITIES = Some (p, i)"
  shows "i < length (queue s p) \<and> runningLoad s + load (queue s p ! i) \<le> concurrencyLimit s
    \<and> (\<forall>j < i. concurrencyLimit s < runningLoad s + load (queue s p ! j))
    \<and> (\<forall>q > p. \<forall>e\<in>set (queue s q). concurrencyLimit s < runningLoad s + load e)"
  using findNext_in_range [OF assms] findNext_Some [OF assms] findFit_Some [of s "queue s p" 0 i]
    findNext_highest_prio [OF assms] by simp

definition waiting_entry :: "nat \<Rightarrow> int list \<Rightarrow> queue_entry" where
  "waiting_entry c ts = \<lparr>load = 1, label = ''e'', cb = c, increasePrio = True, startTime = 0, shiftedTimes = ts\<rparr>"

definition two_waiting :: worker_queue where
  "two_waiting = set_queue Low [waiting_entry 1 [], waiting_entry 2 []] (new_WorkerQueue (Some 1))"

definition raised_once :: worker_queue where
  "raised_once = set_queue Medium [waiting_entry 1 [0]] (new_WorkerQueue (Some 1))"

text \<open>
  A raised entry gets one more recorded time and a place at the end of the next queue, but
  the loop that raises entries skips the neighbour of every entry it raises, and it measures the
  waiting time from the first recorded time for ever: two entries that wait equally long are
  separated by one check, and an entry raised before climbs through all remaining priorities in a
  single check.
\<close>

theorem adjustPriority_skips_and_races:
  "map cb (queue (adjustPriority 200000000000 two_waiting) Low) = [2]
   \<and> map cb (queue (adjustPriority 200000000000 two_waiting) Medium) = [1]
   \<and> map cb (queue (adjustPriority 200000000000 raised_once) VeryHigh) = [1]"
  by code_simp

subsection \<open>Witnesses\<close>

text \<open>A queue of limit 3 in which a callback of load 2 runs and one of the same load waits.\<close>

definition demo_run :: "EventQueueError + worker_queue" where
  "demo_run = addToQueue 2 ''a'' None True 7 0 (new_WorkerQueue (Some 3))"

definition demo_wait :: "EventQueueError + worker_queue" where
  "demo_wait = addToQueue 2 ''b'' (Some ''high'') True 8 0 (projr demo_run)"

lemma demo_run_step: "wq_step\<^sup>*\<^sup>* (new_WorkerQueue (Some 3)) (projr demo_run)"
proof -
  have "\<not> isl demo_run" by code_simp
  then have "addToQueue 2 ''a'' None True 7 0 (new_WorkerQueue (Some 3)) = Inr (projr demo_run)"
    by (simp add: demo_run_def)
  then show ?thesis by (intro r_into_rtranclp wq_step.add [of 2]) simp_all
qed

theorem worker_queue_load_bounded_witness:
  "wq_step\<^sup>*\<^sup>* (new_WorkerQueue (Some 3)) (projr demo_run)
   \<and> runningLoad (projr demo_run) = 2 \<and> runningLoad (projr demo_run) \<le> concurrencyLimit (projr demo_run)"
proof -
  have "runningLoad (projr demo_run) = 2" by code_simp
  then show ?thesis using demo_run_step worker_queue_load_bounded [OF demo_run_step] by blast
qed

theorem worker_queue_not_stuck_witness:
  "wq_step\<^sup>*\<^sup>* (new_WorkerQueue (Some 3)) (settle 0 (projr demo_run))
   \<and> queue (settle 0 (projr demo_run)) Medium = []"
proof -
  have "0 < length (runningPromises (projr demo_run))" by code_simp
  then have r: "wq_step\<^sup>*\<^sup>* (new_WorkerQueue (Some 3)) (settle 0 (projr demo_run))"
    using demo_run_step wq_step.settled by (blast intro: rtranclp.rtrancl_into_rtrancl)
  have e: "runningPromises (settle 0 (projr demo_run)) = []" by code_simp
  show ?thesis using r worker_queue_not_stuck [OF r e] by blast
qed

theorem worker_queue_conserves_callbacks_witness:
  "known (projr demo_wait) = {#8, 7#}
   \<and> add_mset 7 (known (settle 0 (projr demo_wait))) = {#8, 7#}"
proof -
  have "\<not> isl demo_wait" by code_simp
  then have eq: "addToQueue 2 ''b'' (Some ''high'') True 8 0 (projr demo_run) = Inr (projr demo_wait)"
    by (simp add: demo_wait_def)
  have k: "known (projr demo_run) = {#7#}" by code_simp
  have l: "0 < length (runningPromises (projr demo_wait))" by code_simp
  have c: "cb (runningPromises (projr demo_wait) ! 0) = 7" by code_simp
  show ?thesis
    using worker_queue_conserves_callbacks [of 2 "''b''" "Some ''high''" True 8 0 "projr demo_run"
        "projr demo_wait"]
      worker_queue_conserves_callbacks [of 2 "''b''" "Some ''high''" True 8 0 "projr demo_wait"
        undefined 0] eq k l c by auto
qed

theorem checkForNext_picks_first_fitting_witness:
  "findNext two_waiting PRIORITIES = Some (Low, 0)
   \<and> runningLoad two_waiting + load (queue two_waiting Low ! 0) \<le> concurrencyLimit two_waiting"
proof -
  have f: "findNext two_waiting PRIORITIES = Some (Low, 0)" by code_simp
  then show ?thesis using checkForNext_picks_first_fitting [OF f] by blast
qed

end
