(* ===== verification/Database.thy ===== *)
theory Database
  imports JsValues Constants "HOL-Library.Product_Lexorder" "HOL-Library.List_Lexorder" "HOL-Library.Char_ord"
begin

text \<open>
  The two tables the program owns (\<open>db/Event.cds\<close>, \<open>db/Lock.cds\<close>) and the statements it runs on
  them.  A table is the list of its rows; \<open>SELECT\<close>, \<open>UPDATE\<close>, \<open>DELETE\<close> and \<open>INSERT\<close> are the
  usual filter, map and append, with the \<open>WHERE\<close> conditions of the source written as predicates over
  a row by the components that run them.  A comparison with a null column does not hold, as in SQL.
  The payload column is a string or null; once selected, an entry's payload is replaced by the
  parsed value in memory, hence its type.
\<close>

record event_row =
  ev_ID :: string
  ev_type :: string
  ev_subType :: string
  ev_referenceEntity :: "string option"
  ev_referenceEntityKey :: "string option"
  ev_status :: int
  ev_payload :: jsval
  ev_attempts :: int
  ev_lastAttemptTimestamp :: "time option"
  ev_createdAt :: time
  ev_startAfter :: "time option"
  ev_context :: jsval
  ev_error :: "string option"
  ev_namespace :: string

text \<open>The row an \<open>INSERT\<close> makes of the columns given; the others have their defaults.\<close>

definition new_row :: "string \<Rightarrow> time \<Rightarrow> string \<Rightarrow> string \<Rightarrow> string \<Rightarrow> time option \<Rightarrow> event_row" where
  "new_row i now ty sub ns sa =
     \<lparr>ev_ID = i, ev_type = ty, ev_subType = sub, ev_referenceEntity = None, ev_referenceEntityKey = None,
      ev_status = Open, ev_payload = JNull, ev_attempts = 0, ev_lastAttemptTimestamp = None,
      ev_createdAt = now, ev_startAfter = sa, ev_context = JNull, ev_error = None, ev_namespace = ns\<rparr>"

type_synonym event_table = "event_row list"

text \<open>SQL comparison of a nullable column with a value.\<close>

definition sql_le :: "time option \<Rightarrow> time \<Rightarrow> bool" where
  "sql_le c v = (case c of None \<Rightarrow> False | Some t \<Rightarrow> t \<le> v)"

definition sql_ge :: "time option \<Rightarrow> time \<Rightarrow> bool" where
  "sql_ge c v = (case c of None \<Rightarrow> False | Some t \<Rightarrow> v \<le> t)"

definition update_where :: "('r \<Rightarrow> bool) \<Rightarrow> ('r \<Rightarrow> 'r) \<Rightarrow> 'r list \<Rightarrow> 'r list" where
  "update_where P f rows = map (\<lambda>r. if P r then f r else r) rows"

definition delete_where :: "('r \<Rightarrow> bool) \<Rightarrow> 'r list \<Rightarrow> 'r list" where
  "delete_where P rows = filter (\<lambda>r. \<not> P r) rows"

text \<open>\<open>ORDER BY createdAt, ID LIMIT n\<close>\<close>

definition select_ordered :: "(event_row \<Rightarrow> bool) \<Rightarrow> int \<Rightarrow> event_table \<Rightarrow> event_row list" where
  "select_ordered P n rows = take (nat n) (sort_key (\<lambda>r. (ev_createdAt r, ev_ID r)) (filter P rows))"

definition id_in :: "string list \<Rightarrow> event_row \<Rightarrow> bool" where
  "id_in ids r \<longleftrightarrow> ev_ID r \<in> set ids"

text \<open>A well-formed table has its primary key.\<close>

definition table_ok :: "event_table \<Rightarrow> bool" where
  "table_ok rows \<longleftrightarrow> distinct (map ev_ID rows)"

definition row_of :: "event_table \<Rightarrow> string \<Rightarrow> event_row option" where
  "row_of rows i = find (\<lambda>r. ev_ID r = i) rows"

subsection \<open>Lemmas\<close>

lemma sql_le_simps [simp]: "sql_le None v = False" "sql_le (Some t) v = (t \<le> v)"
  by (simp_all add: sql_le_def)

lemma sql_ge_simps [simp]: "sql_ge None v = False" "sql_ge (Some t) v = (v \<le> t)"
  by (simp_all add: sql_ge_def)

lemma set_select_ordered: "set (select_ordered P n rows) \<subseteq> {r \<in> set rows. P r}"
  by (auto simp: select_ordered_def dest: in_set_takeD)

lemma select_orderedD: "r \<in> set (select_ordered P n rows) \<Longrightarrow> r \<in> set rows \<and> P r"
  using set_select_ordered by blast

lemma length_select_ordered: "0 \<le> n \<Longrightarrow> int (length (select_ordered P n rows)) \<le> n"
  by (simp add: select_ordered_def)

lemma distinct_select_ordered:
  "table_ok rows \<Longrightarrow> distinct (map ev_ID (select_ordered P n rows))"
proof -
  assume "table_ok rows"
  then have "distinct (map ev_ID (filter P rows))"
    by (simp add: table_ok_def distinct_map_filter)
  moreover have "mset (map ev_ID (sort_key (\<lambda>r. (ev_createdAt r, ev_ID r)) (filter P rows)))
      = mset (map ev_ID (filter P rows))" by simp
  ultimately have "distinct (map ev_ID (sort_key (\<lambda>r. (ev_createdAt r, ev_ID r)) (filter P rows)))"
    by (metis mset_eq_imp_distinct_iff)
  then show ?thesis by (simp add: select_ordered_def flip: take_map)
qed

lemma map_ID_update_where [simp]:
  "(\<And>r. ev_ID (f r) = ev_ID r) \<Longrightarrow> map ev_ID (update_where P f rows) = map ev_ID rows"
  by (simp add: update_where_def)

lemma table_ok_update_where [intro]:
  "(\<And>r. ev_ID (f r) = ev_ID r) \<Longrightarrow> table_ok rows \<Longrightarrow> table_ok (update_where P f rows)"
  by (simp add: table_ok_def)

lemma row_of_in: "row_of rows i = Some r \<Longrightarrow> r \<in> set rows \<and> ev_ID r = i"
  by (auto simp: row_of_def find_Some_iff)

lemma row_of_member: "table_ok rows \<Longrightarrow> r \<in> set rows \<Longrightarrow> row_of rows (ev_ID r) = Some r"
proof (induction rows)
  case (Cons a rows)
  then show ?case by (auto simp: row_of_def table_ok_def)
qed simp

lemma row_of_update_where:
  assumes "\<And>r. ev_ID (f r) = ev_ID r"
  shows "row_of (update_where P f rows) i = map_option (\<lambda>r. if P r then f r else r) (row_of rows i)"
proof (induction rows)
  case (Cons a rows)
  then show ?case by (auto simp: row_of_def update_where_def assms)
qed (simp add: row_of_def update_where_def)

lemma row_of_update_ids:
  assumes "\<And>r. ev_ID (f r) = ev_ID r"
  shows "row_of (update_where (id_in ids) f rows) i =
    (if i \<in> set ids then map_option f (row_of rows i) else row_of rows i)"
  using row_of_in [of rows i]
  by (cases "row_of rows i") (auto simp: row_of_update_where [OF assms] id_in_def)

end
