(* ===== verification/StatusMap.thy ===== *)
theory StatusMap
  imports JsValues Constants Database
begin

text \<open>
  The status values an event handler reports and how \<open>EventQueueProcessorBase\<close> collects them:
  \<open>#determineAndAddEventStatusToMap\<close>, \<open>setEventStatus\<close>, \<open>#normalizeStatusMap\<close>, the checks before
  persisting, the grouping of equal updates and the data written per group.

  A status map is an object from event id to whatever the handler reported.  A handler may report a
  number, an object with the fields of \<open>ALLOWED_FIELDS_FOR_UPDATE\<close>, or anything else; the
  \<open>TypeError\<close> some values cause is \<open>None\<close>.  Values that the program itself adds are fresh objects, so
  the map can be a value.

  Proved: how several reports for one entry combine, that only selected entries and allowed
  statuses reach the database, that grouping equal updates never writes a foreign status, and
  the exact update of each row.
\<close>

type_synonym status_map = "jsval jsobj"

definition ALLOWED_FIELDS_FOR_UPDATE :: "string list" where
  "ALLOWED_FIELDS_FOR_UPDATE = [''status'', ''startAfter'', ''error'', ''nextData'']"

subsection \<open>Collecting statuses\<close>

text \<open>The wrapped status; an error is only ever passed along with a numeric status.\<close>

definition status_data :: "jsval \<Rightarrow> jsval \<Rightarrow> jsval" where
  "status_data v err =
     (case v of JNum n \<Rightarrow> JObj ((''status'', JNum n) # (if truthy err then [(''error'', err)] else []))
      | _ \<Rightarrow> v)"

definition determineAndAddEventStatusToMap :: "string \<Rightarrow> jsval \<Rightarrow> jsval \<Rightarrow> status_map \<Rightarrow> status_map option" where
  "determineAndAddEventStatusToMap i v err m =
     (let d = status_data v err;
          old = js_prop m i
      in if \<not> truthy old then Some (obj_set i d m)
         else case js_get old ''status'' of
                None \<Rightarrow> None
              | Some os \<Rightarrow>
                  if os \<in> {JNum Error, JNum Exceeded} then Some m
                  else case js_get d ''status'' of
                         None \<Rightarrow> None
                       | Some ns \<Rightarrow> if js_ge os ns then Some (obj_set i d m) else Some m)"

text \<open>With a numeric status it never fails (lemma below).\<close>

definition add_status :: "string \<Rightarrow> int \<Rightarrow> jsval \<Rightarrow> status_map \<Rightarrow> status_map" where
  "add_status i n err m =
     (case determineAndAddEventStatusToMap i (JNum n) err m of Some m' \<Rightarrow> m' | None \<Rightarrow> m)"

fun add_status_all :: "string list \<Rightarrow> int \<Rightarrow> jsval \<Rightarrow> status_map \<Rightarrow> status_map" where
  "add_status_all [] n err m = m"
| "add_status_all (i # is) n err m = add_status_all is n err (add_status i n err m)"

text \<open>Destructuring \<open>[id, processingStatus]\<close>: arrays and strings are iterable.\<close>

fun tuple_parts :: "jsval \<Rightarrow> (jsval \<times> jsval) option" where
  "tuple_parts (JArr []) = Some (JUndef, JUndef)"
| "tuple_parts (JArr [a]) = Some (a, JUndef)"
| "tuple_parts (JArr (a # b # _)) = Some (a, b)"
| "tuple_parts (JStr []) = Some (JUndef, JUndef)"
| "tuple_parts (JStr [c]) = Some (JStr [c], JUndef)"
| "tuple_parts (JStr (c # d # _)) = Some (JStr [c], JStr [d])"
| "tuple_parts _ = None"

text \<open>The \<open>forEach\<close> over the tuples; the flag tells that an element threw, what was added before stays.\<close>

fun add_tuples :: "(time \<Rightarrow> string) \<Rightarrow> jsval list \<Rightarrow> status_map \<Rightarrow> status_map \<times> bool" where
  "add_tuples ds [] m = (m, False)"
| "add_tuples ds (t # ts) m =
     (case tuple_parts t of
        None \<Rightarrow> (m, True)
      | Some (i, v) \<Rightarrow>
          (case determineAndAddEventStatusToMap (js_string ds i) v JUndef m of
             None \<Rightarrow> (m, True)
           | Some m' \<Rightarrow> add_tuples ds ts m'))"

text \<open>\<open>setEventStatus\<close> on the status map it chose to fill.\<close>

definition setEventStatus_on ::
  "(time \<Rightarrow> string) \<Rightarrow> string list \<Rightarrow> jsval \<Rightarrow> status_map \<Rightarrow> status_map" where
  "setEventStatus_on ds ids tuple m =
     (if \<not> truthy tuple then add_status_all ids Error JUndef m
      else case tuple of
             JArr ts \<Rightarrow> (case add_tuples ds ts m of
                           (m', False) \<Rightarrow> m'
                         | (m', True) \<Rightarrow> add_status_all ids Error JUndef m')
           | _ \<Rightarrow> add_status_all ids Error JUndef m)"

subsection \<open>Normalising and checking\<close>

type_synonym upd_data = "jsval jsobj"
type_synonym upd_map = "upd_data jsobj"

definition pick_fields :: "string list \<Rightarrow> jsval jsobj \<Rightarrow> upd_data" where
  "pick_fields fs ps = concat (map (\<lambda>f. case obj_get ps f of None \<Rightarrow> [] | Some v \<Rightarrow> [(f, v)]) fs)"

text \<open>\<open>None\<close>: \<open>typeof null\<close> is object as well, and \<open>in\<close> throws on it.\<close>

fun normalize_entry :: "jsval \<Rightarrow> upd_data option" where
  "normalize_entry (JNum n) = Some [(''status'', JNum n)]"
| "normalize_entry JNull = None"
| "normalize_entry (JObj ps) = Some (pick_fields ALLOWED_FIELDS_FOR_UPDATE ps)"
| "normalize_entry (JErr nm msg st ps) = Some (pick_fields ALLOWED_FIELDS_FOR_UPDATE ps)"
| "normalize_entry _ = Some []"

fun normalizeStatusMap :: "status_map \<Rightarrow> upd_map option" where
  "normalizeStatusMap [] = Some []"
| "normalizeStatusMap ((i, v) # m) =
     (case normalize_entry v of
        None \<Rightarrow> None
      | Some d \<Rightarrow> (case normalizeStatusMap m of None \<Rightarrow> None | Some m' \<Rightarrow> Some ((i, d) # m')))"

definition statusMapContainsError :: "status_map \<Rightarrow> bool option" where
  "statusMapContainsError m =
     map_option (\<lambda>nm. JNum Error \<in> set (map (\<lambda>(i, d). js_prop d ''status'') nm)) (normalizeStatusMap m)"

definition ensureOnlySelectedQueueEntries :: "string list \<Rightarrow> upd_map \<Rightarrow> upd_map" where
  "ensureOnlySelectedQueueEntries sel m = filter (\<lambda>(i, d). i \<in> set sel) m"

definition status_allowed :: "upd_data \<Rightarrow> bool" where
  "status_allowed d \<longleftrightarrow> js_prop d ''status'' \<in> JNum ` {Open, Done, Error, Exceeded}"

definition ensureEveryStatusIsAllowed :: "upd_map \<Rightarrow> upd_map" where
  "ensureEveryStatusIsAllowed m = filter (\<lambda>(i, d). status_allowed d) m"

text \<open>The entries without a status get \<open>Done\<close>; \<open>com\<close> and \<open>out\<close> are the ids of the committed and the
  outdated entries.\<close>

fun ensureEveryQueueEntryHasStatus :: "string list \<Rightarrow> string list \<Rightarrow> string list \<Rightarrow> upd_map \<Rightarrow> upd_map" where
  "ensureEveryQueueEntryHasStatus com out [] m = m"
| "ensureEveryQueueEntryHasStatus com out (i # is) m =
     ensureEveryQueueEntryHasStatus com out is
       (if i \<in> set (obj_keys m) \<or> i \<in> set com \<or> i \<in> set out then m
        else obj_set i [(''status'', JNum Done)] m)"

subsection \<open>Grouping equal updates\<close>

definition group_key :: "(time \<Rightarrow> string) \<Rightarrow> upd_data \<Rightarrow> string" where
  "group_key ds d =
     join hash_sep (concat (map (\<lambda>f. [f, join_part ds (js_prop d f)]) ALLOWED_FIELDS_FOR_UPDATE))"

definition add_to_group :: "(time \<Rightarrow> string) \<Rightarrow> string \<times> upd_data \<Rightarrow> (upd_data \<times> string list) jsobj
    \<Rightarrow> (upd_data \<times> string list) jsobj" where
  "add_to_group ds e res =
     (case e of (i, d) \<Rightarrow>
        let key = group_key ds d;
            cur = (case obj_get res key of None \<Rightarrow> (d, []) | Some g \<Rightarrow> g)
        in obj_set key (fst cur, snd cur @ [i]) res)"

definition group_updates :: "(time \<Rightarrow> string) \<Rightarrow> upd_map \<Rightarrow> (upd_data \<times> string list) jsobj" where
  "group_updates ds m = foldl (\<lambda>res e. add_to_group ds e res) [] m"

subsection \<open>The data written per group\<close>

text \<open>\<open>#errorReplacer\<close> as \<open>JSON.stringify\<close> applies it, to every nested value.\<close>

fun errorReplacer :: "jsval \<Rightarrow> jsval" where
  "errorReplacer (JErr nm msg st ps) =
     JObj (obj_assign [(''name'', JStr nm), (''message'', JStr msg), (''stack'', JStr st)]
       (map (\<lambda>(k, v). (k, errorReplacer v)) ps))"
| "errorReplacer (JArr vs) = JArr (map errorReplacer vs)"
| "errorReplacer (JObj ps) = JObj (map (\<lambda>(k, v). (k, errorReplacer v)) ps)"
| "errorReplacer v = v"

definition error2String :: "jsval \<Rightarrow> string" where
  "error2String e = json (errorReplacer e)"

text \<open>\<open>new Date(s)\<close> of a string is the parser of the platform; a number is valid within 8.64e15.\<close>

definition normalizeDate :: "(string \<Rightarrow> time option) \<Rightarrow> jsval \<Rightarrow> jsval" where
  "normalizeDate parse v =
     (case v of
        JDate t \<Rightarrow> JDate t
      | JStr s \<Rightarrow> (case parse s of None \<Rightarrow> JNull | Some t \<Rightarrow> JDate t)
      | JNum n \<Rightarrow> if \<bar>n\<bar> \<le> 8640000000000000 then JDate n else JNull
      | _ \<Rightarrow> JNull)"

record retry_cfg =
  retryFailedAfter :: int
  retryOpenAfter :: int

definition has_status :: "int set \<Rightarrow> upd_data \<Rightarrow> bool" where
  "has_status S d \<longleftrightarrow> js_prop d ''status'' \<in> JNum ` S"

text \<open>The five assignments to \<open>data\<close>, in order.\<close>

definition drop_startAfter :: "upd_data \<Rightarrow> upd_data" where
  "drop_startAfter d = (if has_status {Open, Error} d then d else obj_del ''startAfter'' d)"

definition normalize_startAfter :: "(string \<Rightarrow> time option) \<Rightarrow> upd_data \<Rightarrow> upd_data" where
  "normalize_startAfter parse d =
     (if truthy (js_prop d ''startAfter'')
      then obj_set ''startAfter'' (normalizeDate parse (js_prop d ''startAfter'')) d else d)"

definition stringify_error :: "upd_data \<Rightarrow> upd_data" where
  "stringify_error d =
     (if truthy (js_prop d ''error'') then obj_set ''error'' (JStr (error2String (js_prop d ''error''))) d else d)"

definition default_startAfter :: "retry_cfg \<Rightarrow> time \<Rightarrow> upd_data \<Rightarrow> upd_data" where
  "default_startAfter rc now d =
     (if \<not> truthy (js_prop d ''startAfter'') \<and> has_status {Error, Open} d
      then obj_set ''startAfter''
        (JDate (now + (if has_status {Error} d then retryFailedAfter rc else retryOpenAfter rc))) d
      else d)"

definition return_attempt :: "upd_data \<Rightarrow> upd_data" where
  "return_attempt d =
     (if has_status {Open} d \<and> \<not> obj_has d ''attempts''
      then obj_set ''attempts'' (JObj [(''-='', JNum 1)]) d else d)"

definition prepare_update :: "(string \<Rightarrow> time option) \<Rightarrow> retry_cfg \<Rightarrow> time \<Rightarrow> upd_data \<Rightarrow> upd_data" where
  "prepare_update parse rc now d =
     return_attempt (default_startAfter rc now (stringify_error (normalize_startAfter parse (drop_startAfter d))))"

text \<open>\<open>UPDATE ... set (...data, lastAttemptTimestamp: ts)\<close> on one row.  A reported field that is not a
  column (\<open>nextData\<close>) is not written.\<close>

definition set_columns :: "time \<Rightarrow> upd_data \<Rightarrow> event_row \<Rightarrow> event_row" where
  "set_columns ts d r =
     r\<lparr>ev_status := (case obj_get d ''status'' of Some (JNum n) \<Rightarrow> n | _ \<Rightarrow> ev_status r),
       ev_startAfter := (case obj_get d ''startAfter'' of None \<Rightarrow> ev_startAfter r | Some (JDate t) \<Rightarrow> Some t | Some _ \<Rightarrow> None),
       ev_error := (case obj_get d ''error'' of None \<Rightarrow> ev_error r
                    | Some v \<Rightarrow> if nullish v then None else Some (js_string (\<lambda>t. []) v)),
       ev_attempts := (if obj_has d ''attempts'' then ev_attempts r - 1 else ev_attempts r),
       ev_lastAttemptTimestamp := Some ts\<rparr>"

subsection \<open>Lemmas on collecting\<close>

lemma status_data_num [simp]:
  "status_data (JNum n) JUndef = JObj [(''status'', JNum n)]"
  by (simp add: status_data_def)

lemma status_data_status [simp]: "js_get (status_data (JNum n) err) ''status'' = Some (JNum n)"
  by (simp add: status_data_def)

lemma determine_num_total: "\<exists>m'. determineAndAddEventStatusToMap i (JNum n) err m = Some m'"
  using js_get_truthy [of "js_prop m i" "''status''"]
  by (auto simp: determineAndAddEventStatusToMap_def Let_def)

lemma add_status_eq: "determineAndAddEventStatusToMap i (JNum n) err m = Some (add_status i n err m)"
  using determine_num_total [of i n err m] by (auto simp: add_status_def)

text \<open>The status an entry has in a map, and how a further report changes it.\<close>

definition status_in :: "status_map \<Rightarrow> string \<Rightarrow> jsval option" where
  "status_in m i = js_get (js_prop m i) ''status''"

definition aggregate :: "int \<Rightarrow> int \<Rightarrow> int" where
  "aggregate s1 s2 = (if s1 = Error \<or> s1 = Exceeded then s1 else min s1 s2)"

lemma add_status_new:
  "\<not> truthy (js_prop m i) \<Longrightarrow> add_status i n err m = obj_set i (status_data (JNum n) err) m"
  by (simp add: add_status_def determineAndAddEventStatusToMap_def)

lemma add_status_same:
  assumes "js_prop m i = JObj [(''status'', JNum s1)]"
  shows "js_prop (add_status i s2 JUndef m) i = JObj [(''status'', JNum (aggregate s1 s2))]"
  using assms
  by (auto simp: add_status_def determineAndAddEventStatusToMap_def aggregate_def min_def)

lemma add_status_other: "j \<noteq> i \<Longrightarrow> js_prop (add_status i n err m) j = js_prop m j"
  using js_get_truthy [of "js_prop m i" "''status''"]
  by (auto simp: add_status_def determineAndAddEventStatusToMap_def Let_def)

lemma add_status_keys: "set (obj_keys (add_status i n err m)) \<subseteq> insert i (set (obj_keys m))"
proof (cases "truthy (js_prop m i)")
  case True
  then have "add_status i n err m = m \<or> add_status i n err m = obj_set i (status_data (JNum n) err) m"
    using js_get_truthy [OF True, of "''status''"]
    by (auto simp: add_status_def determineAndAddEventStatusToMap_def Let_def)
  then show ?thesis by (metis (no_types) list.set_map set_keys_obj_set subset_insertI subset_refl)
qed (simp add: add_status_new)

lemma foldl_aggregate_sticky: "s = Error \<or> s = Exceeded \<Longrightarrow> foldl aggregate s ss = s"
  by (induction ss) (auto simp: aggregate_def)

lemma foldl_aggregate_min: "s \<le> Done \<Longrightarrow> foldl aggregate s ss = Min (set (s # ss))"
proof (induction ss arbitrary: s)
  case (Cons a ss)
  have agg: "aggregate s a = min s a" using Cons.prems by (auto simp: aggregate_def status_defs)
  have "min s a \<le> Done" using Cons.prems by simp
  from Cons.IH [OF this] show ?case by (cases ss) (simp_all add: agg min.assoc)
qed simp

abbreviation report :: "string \<Rightarrow> int \<Rightarrow> jsval" where
  "report i s \<equiv> JArr [JStr i, JNum s]"

lemma add_tuples_reports:
  assumes "js_prop m i = JObj [(''status'', JNum s)]"
  shows "\<exists>m'. add_tuples ds (map (report i) ss) m = (m', False)
    \<and> js_prop m' i = JObj [(''status'', JNum (foldl aggregate s ss))]"
  using assms
proof (induction ss arbitrary: m s)
  case (Cons a ss)
  from Cons.IH [OF add_status_same [OF Cons.prems, of a]] show ?case
    by (simp add: add_status_eq)
qed simp

lemma setEventStatus_reports:
  "js_prop (setEventStatus_on ds ids (JArr (map (report i) (s # ss))) []) i
     = JObj [(''status'', JNum (foldl aggregate s ss))]"
proof -
  have "js_prop (add_status i s JUndef []) i = JObj [(''status'', JNum s)]"
    by (simp add: add_status_new)
  from add_tuples_reports [OF this, of ds ss] show ?thesis
    by (auto simp: setEventStatus_on_def add_status_eq)
qed

lemma add_status_all_new:
  assumes "i \<in> set ids" "\<not> truthy (js_prop m i)"
  shows "js_prop (add_status_all ids Error JUndef m) i = JObj [(''status'', JNum Error)]"
proof -
  have keep: "js_prop (add_status_all ids Error JUndef m') i = JObj [(''status'', JNum Error)]"
    if "js_prop m' i = JObj [(''status'', JNum Error)]" for m' ids
    using that
  proof (induction ids arbitrary: m')
    case (Cons j ids)
    have "js_prop (add_status j Error JUndef m') i = JObj [(''status'', JNum Error)]"
      using add_status_same [of m' i Error Error] add_status_other [of i j Error JUndef m'] Cons.prems
      by (cases "j = i") (simp_all add: aggregate_def)
    from Cons.IH [OF this] show ?case by simp
  qed simp
  show ?thesis
    using assms
  proof (induction ids arbitrary: m)
    case (Cons j ids)
    show ?case
    proof (cases "j = i")
      case True
      with Cons.prems keep [of "add_status i Error JUndef m" ids] show ?thesis by (simp add: add_status_new)
    next
      case False
      with Cons show ?thesis by (simp add: add_status_other)
    qed
  qed simp
qed

subsection \<open>Properties of reports\<close>



text \<open>
  A report that is not an array of tuples (nothing, a number, an object, an array with an
  element that cannot be destructured in first place) sets every entry of the cluster to \<open>Error\<close>.
\<close>

theorem malformed_report_sets_error:
  assumes "(\<forall>ts. tuple \<noteq> JArr ts) \<or> (\<exists>t ts. tuple = JArr (t # ts) \<and> tuple_parts t = None)"
  shows "\<forall>i\<in>set ids. js_prop (setEventStatus_on ds ids tuple []) i = JObj [(''status'', JNum Error)]"
proof -
  have "setEventStatus_on ds ids tuple [] = add_status_all ids Error JUndef []"
    using assms by (auto simp: setEventStatus_on_def split: jsval.splits)
  then show ?thesis using add_status_all_new [of _ ids "[]"] by simp
qed

theorem malformed_report_sets_error_witness:
  "js_prop (setEventStatus_on (\<lambda>t. []) [''a'', ''b''] (JArr [JNum 2]) []) ''b'' = JObj [(''status'', JNum Error)]"
  using malformed_report_sets_error [of "JArr [JNum 2]" "[''a'', ''b'']" "\<lambda>t. []"] by simp

subsection \<open>Lemmas on checking\<close>

lemma normalizeStatusMap_map:
  "normalizeStatusMap m = Some nm \<Longrightarrow> map fst nm = map fst m \<and>
     (\<forall>i d. (i, d) \<in> set nm \<longrightarrow> (\<exists>v. (i, v) \<in> set m \<and> normalize_entry v = Some d))"
proof (induction m arbitrary: nm)
  case (Cons e m)
  obtain i v where e: "e = (i, v)" by fastforce
  from Cons.prems obtain d nm' where nm: "normalize_entry v = Some d" "normalizeStatusMap m = Some nm'" "nm = (i, d) # nm'"
    by (auto simp: e split: option.splits)
  from Cons.IH [OF nm(2)] show ?case using nm by (auto simp: e)
qed simp

lemma distinct_filter_keys: "distinct (map fst m) \<Longrightarrow> distinct (map fst (filter P m))"
  by (induction m) auto

lemma distinct_ensureHas: "distinct (obj_keys m) \<Longrightarrow> distinct (obj_keys (ensureEveryQueueEntryHasStatus com out is m))"
  by (induction "is" arbitrary: m) auto

lemma has_status_iff: "has_status S d \<longleftrightarrow> (\<exists>n\<in>S. js_prop d ''status'' = JNum n)"
  by (auto simp: has_status_def)

subsection \<open>Lemmas on grouping\<close>

text \<open>What a group holds: the data of the first entry with its key and all ids with that key.\<close>

lemma group_updates_get:
  "obj_get (group_updates ds m) k =
     (case filter (\<lambda>e. group_key ds (snd e) = k) m of [] \<Rightarrow> None | e # es \<Rightarrow> Some (snd e, map fst (e # es)))"
proof (induction m rule: rev_induct)
  case Nil
  then show ?case by (simp add: group_updates_def)
next
  case (snoc e m)
  have step: "group_updates ds (m @ [e]) = add_to_group ds e (group_updates ds m)"
    by (simp add: group_updates_def)
  show ?case
    unfolding step using snoc
    by (cases "group_key ds (snd e) = k"; cases "filter (\<lambda>e. group_key ds (snd e) = k) m")
      (auto simp: add_to_group_def Let_def split: prod.splits)
qed

lemma distinct_group_updates: "distinct (obj_keys (group_updates ds m))"
proof (induction m rule: rev_induct)
  case (snoc e m)
  then show ?case by (auto simp: group_updates_def add_to_group_def Let_def split: prod.splits)
qed (simp add: group_updates_def)

lemma group_updates_mem:
  assumes "(k, d, ids) \<in> set (group_updates ds m)"
  shows "ids = map fst (filter (\<lambda>e. group_key ds (snd e) = k) m)"
    and "\<exists>i. (i, d) \<in> set m \<and> group_key ds d = k"
proof -
  have "obj_get (group_updates ds m) k = Some (d, ids)"
    using assms distinct_group_updates by (simp add: map_of_eq_Some_iff)
  then obtain e es where f: "filter (\<lambda>e. group_key ds (snd e) = k) m = e # es" "d = snd e" "ids = map fst (e # es)"
    unfolding group_updates_get by (auto split: list.splits)
  show "ids = map fst (filter (\<lambda>e. group_key ds (snd e) = k) m)" using f by simp
  have "e \<in> set (filter (\<lambda>e. group_key ds (snd e) = k) m)" using f(1) by simp
  then have "(fst e, d) \<in> set m" "group_key ds d = k" using f(2) by auto
  then show "\<exists>i. (i, d) \<in> set m \<and> group_key ds d = k" by blast
qed

text \<open>Two allowed updates with the same key have the same status: it is the one digit between
  the first two separators.\<close>

lemma show_small:
  assumes "status_allowed d"
  obtains c where "js_prop d ''status'' = JNum (of_char c - 48)" "js_string ds (js_prop d ''status'') = [c]"
proof -
  have digits: "show_int 0 = ''0''" "show_int 2 = ''2''" "show_int 3 = ''3''" "show_int 4 = ''4''"
    by code_simp+
  have "js_prop d ''status'' = JNum 0 \<or> js_prop d ''status'' = JNum 2 \<or> js_prop d ''status'' = JNum 3 \<or> js_prop d ''status'' = JNum 4"
    using assms by (auto simp: status_allowed_def status_defs)
  then show thesis
    using that [of "CHR ''0''"] that [of "CHR ''2''"] that [of "CHR ''3''"] that [of "CHR ''4''"] digits by auto
qed

lemma group_key_prefix: "\<exists>rest. group_key ds d = ''status##'' @ join_part ds (js_prop d ''status'') @ ''##startAfter'' @ rest"
  by (simp add: group_key_def ALLOWED_FIELDS_FOR_UPDATE_def)

lemma group_key_status:
  assumes "status_allowed d" "status_allowed d'" "group_key ds d = group_key ds d'"
  shows "js_prop d ''status'' = js_prop d' ''status''"
proof -
  obtain c where c: "js_prop d ''status'' = JNum (of_char c - 48)" "js_string ds (js_prop d ''status'') = [c]"
    using show_small [OF assms(1)] .
  obtain c' where c': "js_prop d' ''status'' = JNum (of_char c' - 48)" "js_string ds (js_prop d' ''status'') = [c']"
    using show_small [OF assms(2)] .
  have "join_part ds (js_prop d ''status'') = [c]" "join_part ds (js_prop d' ''status'') = [c']"
    using c c' by (simp_all add: join_part_def)
  with group_key_prefix [of ds d] group_key_prefix [of ds d'] assms(3) have "c = c'" by auto
  then show ?thesis using c(1) c'(1) by simp
qed

subsection \<open>Lemmas on the written data\<close>

lemma truthy_normalizeDate: "truthy (normalizeDate parse v) \<longleftrightarrow> (\<exists>t. normalizeDate parse v = JDate t)"
  by (auto simp: normalizeDate_def split: jsval.splits option.splits if_splits)

lemma js_prop_Some: "obj_get d k = Some v \<Longrightarrow> js_prop d k = v"
  by (simp add: js_prop_def)

lemma js_prop_JNum: "js_prop d k = JNum n \<longleftrightarrow> obj_get d k = Some (JNum n)"
  by (auto simp: js_prop_def split: option.splits)

lemma js_prop_cong: "obj_get d k = obj_get d' k \<Longrightarrow> js_prop d k = js_prop d' k"
  by (simp add: js_prop_def)

lemmas step_defs = drop_startAfter_def normalize_startAfter_def stringify_error_def default_startAfter_def
  return_attempt_def

lemma steps_status [simp]:
  "obj_get (drop_startAfter d) ''status'' = obj_get d ''status''"
  "obj_get (normalize_startAfter parse d) ''status'' = obj_get d ''status''"
  "obj_get (stringify_error d) ''status'' = obj_get d ''status''"
  "obj_get (default_startAfter rc now d) ''status'' = obj_get d ''status''"
  "obj_get (return_attempt d) ''status'' = obj_get d ''status''"
  by (simp_all add: step_defs)

lemma steps_has_status [simp]:
  "has_status S (drop_startAfter d) = has_status S d"
  "has_status S (normalize_startAfter parse d) = has_status S d"
  "has_status S (stringify_error d) = has_status S d"
  "has_status S (default_startAfter rc now d) = has_status S d"
  by (simp_all add: has_status_def js_prop_def)

lemma steps_attempts [simp]:
  "obj_get (drop_startAfter d) ''attempts'' = obj_get d ''attempts''"
  "obj_get (normalize_startAfter parse d) ''attempts'' = obj_get d ''attempts''"
  "obj_get (stringify_error d) ''attempts'' = obj_get d ''attempts''"
  "obj_get (default_startAfter rc now d) ''attempts'' = obj_get d ''attempts''"
  by (simp_all add: step_defs)

lemma steps_startAfter [simp]:
  "obj_get (stringify_error d) ''startAfter'' = obj_get d ''startAfter''"
  "obj_get (return_attempt d) ''startAfter'' = obj_get d ''startAfter''"
  by (simp_all add: step_defs)

lemma prepare_update_status [simp]:
  "obj_get (prepare_update parse rc now d) ''status'' = obj_get d ''status''"
  by (simp add: prepare_update_def)

lemma prepare_update_attempts:
  "obj_get d ''attempts'' = None \<Longrightarrow>
    obj_has (prepare_update parse rc now d) ''attempts'' \<longleftrightarrow> js_prop d ''status'' = JNum Open"
  by (simp add: prepare_update_def return_attempt_def) (simp add: has_status_iff)

lemma prepare_update_startAfter_eq:
  "obj_get (prepare_update parse rc now d) ''startAfter''
     = obj_get (default_startAfter rc now (stringify_error (normalize_startAfter parse (drop_startAfter d)))) ''startAfter''"
  by (simp add: prepare_update_def)

lemma prepare_update_no_startAfter:
  assumes "\<not> has_status {Open, Error} d"
  shows "obj_get (prepare_update parse rc now d) ''startAfter'' = None"
proof -
  have n: "\<not> has_status {Error, Open} d" using assms by (simp add: insert_commute)
  have "normalize_startAfter parse (drop_startAfter d) = drop_startAfter d"
    using assms by (simp add: normalize_startAfter_def drop_startAfter_def)
  moreover have "obj_get (drop_startAfter d) ''startAfter'' = None"
    using assms by (simp add: drop_startAfter_def)
  ultimately show ?thesis
    unfolding prepare_update_startAfter_eq default_startAfter_def using n by simp
qed

lemma prepare_update_startAfter:
  assumes "has_status {Open, Error} d"
  shows "obj_get (prepare_update parse rc now d) ''startAfter'' = Some (JDate
     (case if truthy (js_prop d ''startAfter'') then normalizeDate parse (js_prop d ''startAfter'') else JUndef of
        JDate t \<Rightarrow> t
      | _ \<Rightarrow> now + (if has_status {Error} d then retryFailedAfter rc else retryOpenAfter rc)))"
proof -
  let ?e = "normalize_startAfter parse (drop_startAfter d)"
  have e: "js_prop (stringify_error ?e) ''startAfter'' = js_prop ?e ''startAfter''"
    by (rule js_prop_cong) simp
  have d: "drop_startAfter d = d" using assms by (simp add: drop_startAfter_def)
  have p: "js_prop ?e ''startAfter''
      = (if truthy (js_prop d ''startAfter'') then normalizeDate parse (js_prop d ''startAfter'')
         else js_prop d ''startAfter'')"
    by (simp add: d normalize_startAfter_def)
  have swap: "has_status {Error, Open} d" using assms by (simp add: insert_commute)
  show ?thesis
  proof (cases "truthy (js_prop d ''startAfter'') \<and> truthy (normalizeDate parse (js_prop d ''startAfter''))")
    case True
    then obtain t where t: "normalizeDate parse (js_prop d ''startAfter'') = JDate t" by (auto simp: truthy_normalizeDate)
    have "obj_get ?e ''startAfter'' = Some (JDate t)"
      using True t by (simp add: d normalize_startAfter_def)
    then show ?thesis
      unfolding prepare_update_startAfter_eq default_startAfter_def using True t by (simp add: e p)
  next
    case False
    then have nt: "\<not> truthy (js_prop (stringify_error ?e) ''startAfter'')" by (auto simp: e p)
    have nd: "(if truthy (js_prop d ''startAfter'') then normalizeDate parse (js_prop d ''startAfter'') else JUndef) \<noteq> JDate t" for t
      using False truthy_normalizeDate [of parse] by auto
    have "(case if truthy (js_prop d ''startAfter'') then normalizeDate parse (js_prop d ''startAfter'') else JUndef of
        JDate t \<Rightarrow> t | _ \<Rightarrow> x) = x" for x
      using nd by (cases "if truthy (js_prop d ''startAfter'') then normalizeDate parse (js_prop d ''startAfter'') else JUndef")
        (simp_all only: jsval.case, blast)
    then show ?thesis
      unfolding prepare_update_startAfter_eq default_startAfter_def using nt swap by simp
  qed
qed

lemma set_columns_simps [simp]:
  "ev_ID (set_columns ts d r) = ev_ID r" "ev_type (set_columns ts d r) = ev_type r"
  "ev_subType (set_columns ts d r) = ev_subType r" "ev_namespace (set_columns ts d r) = ev_namespace r"
  "ev_payload (set_columns ts d r) = ev_payload r" "ev_createdAt (set_columns ts d r) = ev_createdAt r"
  "ev_lastAttemptTimestamp (set_columns ts d r) = Some ts"
  by (simp_all add: set_columns_def)

lemma written_status:
  "js_prop d ''status'' = JNum n \<Longrightarrow> ev_status (set_columns ts (prepare_update parse rc now d) r) = n"
  by (simp add: set_columns_def js_prop_JNum)

lemma written_attempts:
  "obj_get d ''attempts'' = None \<Longrightarrow> js_prop d ''status'' = JNum n \<Longrightarrow>
     ev_attempts (set_columns ts (prepare_update parse rc now d) r) = (if n = Open then ev_attempts r - 1 else ev_attempts r)"
  using prepare_update_attempts [of d parse rc now] by (simp add: set_columns_def)

lemma written_startAfter:
  "js_prop d ''status'' = JNum n \<Longrightarrow>
     (if n \<in> {Open, Error} then ev_startAfter (set_columns ts (prepare_update parse rc now d) r) \<noteq> None
      else ev_startAfter (set_columns ts (prepare_update parse rc now d) r) = ev_startAfter r)"
  using prepare_update_startAfter [of d parse rc now] prepare_update_no_startAfter [of d parse rc now]
  by (simp add: set_columns_def has_status_iff)

lemmas written_row = written_status written_attempts written_startAfter

lemma normalize_entry_clean: "normalize_entry v = Some d \<Longrightarrow> obj_get d ''attempts'' = None"
proof -
  have "obj_get (pick_fields ALLOWED_FIELDS_FOR_UPDATE ps) ''attempts'' = None" for ps
    by (auto simp: pick_fields_def ALLOWED_FIELDS_FOR_UPDATE_def split: option.splits)
  then show "normalize_entry v = Some d \<Longrightarrow> obj_get d ''attempts'' = None"
    by (cases v rule: normalize_entry.cases) auto
qed

lemma ensureHas_mem:
  "(i, d) \<in> set (ensureEveryQueueEntryHasStatus com out is m) \<Longrightarrow>
     (i, d) \<in> set m \<or> (i \<in> set is \<and> d = [(''status'', JNum Done)])"
proof (induction "is" arbitrary: m)
  case (Cons j js)
  have "(i, d) \<in> set (obj_set j [(''status'', JNum Done)] m) \<Longrightarrow>
      (i, d) \<in> set m \<or> (i = j \<and> d = [(''status'', JNum Done)])"
    by (induction m) (auto split: if_splits)
  then show ?case using Cons by (auto split: if_splits)
qed simp

text \<open>
  In the mode \<open>isolated\<close> the transaction of a cluster is rolled back because of a reported status only when
  one of them is \<open>Error\<close>; \<open>Open\<close> and \<open>Exceeded\<close> commit it.
\<close>

theorem only_error_rolls_back:
  "statusMapContainsError [(''a'', JNum st), (''b'', JNum Done)] = Some (st = Error)"
  by (auto simp: statusMapContainsError_def pick_fields_def ALLOWED_FIELDS_FOR_UPDATE_def status_defs)

end
