(* ===== verification/EventScheduler.thy ===== *)
theory EventScheduler
  imports JsValues
begin

text \<open>
  \<open>src/shared/eventScheduler.js\<close>: delayed runs.  \<open>scheduleEvent\<close> arms one timer per combination of
  tenant, type, subtype, namespace and date; when it fires, the run is broadcast.  The state holds
  the two private fields of the class and the timers the process has armed; a broadcast request is
  recorded in \<open>broadcasts\<close>, in order.

  A tenant is \<open>None\<close> where the program has \<open>undefined\<close> (single tenant).

  Proved: at most one timer is pending per combination, every pending timer belongs to a marked
  combination, firing broadcasts exactly the combination's run and frees it for a new timer.
  Clearing a tenant cancels its timers but keeps the marks, so such a combination is never
  scheduled again.
\<close>

type_synonym tenant = "string option"

definition tenant_part :: "tenant \<Rightarrow> string" where
  "tenant_part t = (case t of None \<Rightarrow> [] | Some s \<Rightarrow> s)"

text \<open>The property name an undefined tenant becomes.\<close>

definition tenant_prop :: "tenant \<Rightarrow> string" where
  "tenant_prop t = (case t of None \<Rightarrow> ''undefined'' | Some s \<Rightarrow> s)"

record sched_event =
  se_tenant :: tenant
  se_type :: string
  se_subType :: string
  se_namespace :: string

record timer =
  tm_id :: nat
  tm_event :: sched_event
  tm_key :: string
  tm_due :: time

record scheduler =
  scheduledEvents :: "bool jsobj"
  eventsByTenants :: "nat list jsobj"
  pending :: "timer list"
  nextTimer :: nat
  broadcasts :: "sched_event list"

definition new_EventScheduler :: scheduler where
  "new_EventScheduler =
     \<lparr>scheduledEvents = [], eventsByTenants = [], pending = [], nextTimer = 1, broadcasts = []\<rparr>"

text \<open>\<open>calculateOffset\<close>: the date itself and its distance from now.\<close>

definition calculateOffset :: "time \<Rightarrow> time \<Rightarrow> time \<times> int" where
  "calculateOffset now startAfter = (startAfter, startAfter - now)"

definition schedule_key :: "sched_event \<Rightarrow> time \<Rightarrow> string" where
  "schedule_key ev date =
     join hash_sep [tenant_part (se_tenant ev), se_type ev, se_subType ev, se_namespace ev, toISOString date]"

definition scheduleEvent :: "time \<Rightarrow> sched_event \<Rightarrow> time \<Rightarrow> scheduler \<Rightarrow> scheduler" where
  "scheduleEvent now ev startAfter s =
     (case calculateOffset now startAfter of (date, relative) \<Rightarrow>
        let key = schedule_key ev date in
        if obj_get (scheduledEvents s) key = Some True then s
        else
          let tk = tenant_prop (se_tenant ev);
              known = (case obj_get (eventsByTenants s) tk of None \<Rightarrow> [] | Some ts \<Rightarrow> ts);
              tid = nextTimer s
          in s\<lparr>scheduledEvents := obj_set key True (scheduledEvents s),
               eventsByTenants := obj_set tk (known @ [tid]) (eventsByTenants s),
               pending := pending s @
                 [\<lparr>tm_id = tid, tm_event = ev, tm_key = key, tm_due = timeout_due now relative\<rparr>],
               nextTimer := Suc tid\<rparr>)"

text \<open>The timer callback.\<close>

definition fireTimer :: "timer \<Rightarrow> scheduler \<Rightarrow> scheduler" where
  "fireTimer tm s =
     (let tk = tenant_prop (se_tenant (tm_event tm)) in
      s\<lparr>pending := filter (\<lambda>t. tm_id t \<noteq> tm_id tm) (pending s),
        eventsByTenants :=
          (case obj_get (eventsByTenants s) tk of
             None \<Rightarrow> eventsByTenants s
           | Some ts \<Rightarrow> obj_set tk (filter (\<lambda>i. i \<noteq> tm_id tm) ts) (eventsByTenants s)),
        scheduledEvents := obj_del (tm_key tm) (scheduledEvents s),
        broadcasts := broadcasts s @ [tm_event tm]\<rparr>)"

definition clearForTenant :: "tenant \<Rightarrow> scheduler \<Rightarrow> scheduler" where
  "clearForTenant tenantId s =
     (let ids = (case obj_get (eventsByTenants s) (tenant_prop tenantId) of None \<Rightarrow> [] | Some ts \<Rightarrow> ts)
      in s\<lparr>pending := filter (\<lambda>t. tm_id t \<notin> set ids) (pending s)\<rparr>)"

definition clearScheduledEvents :: "scheduler \<Rightarrow> scheduler" where
  "clearScheduledEvents s = s\<lparr>scheduledEvents := []\<rparr>"

definition clearEventsByTenants :: "scheduler \<Rightarrow> scheduler" where
  "clearEventsByTenants s = s\<lparr>eventsByTenants := []\<rparr>"

text \<open>The steps of a running process (the two clear operations above are for tests only).\<close>

inductive sched_step :: "scheduler \<Rightarrow> scheduler \<Rightarrow> bool" where
  schedule: "sched_step s (scheduleEvent now ev date s)"
| fire: "tm \<in> set (pending s) \<Longrightarrow> tm_due tm \<le> now \<Longrightarrow> sched_step s (fireTimer tm s)"
| clear: "sched_step s (clearForTenant t s)"

inductive_cases sched_stepE: "sched_step s t"

subsection \<open>Invariant\<close>

definition sched_inv :: "scheduler \<Rightarrow> bool" where
  "sched_inv s \<longleftrightarrow>
     distinct (map tm_key (pending s)) \<and> distinct (map tm_id (pending s))
     \<and> (\<forall>tm\<in>set (pending s). tm_id tm < nextTimer s
          \<and> obj_get (scheduledEvents s) (tm_key tm) = Some True)"

lemma sched_inv_new: "sched_inv new_EventScheduler"
  by (simp add: sched_inv_def new_EventScheduler_def)

lemma scheduleEvent_dup:
  "obj_get (scheduledEvents s) (schedule_key ev date) = Some True \<Longrightarrow> scheduleEvent now ev date s = s"
  by (simp add: scheduleEvent_def calculateOffset_def)

lemma scheduleEvent_new:
  assumes "obj_get (scheduledEvents s) (schedule_key ev date) \<noteq> Some True"
  shows "pending (scheduleEvent now ev date s) = pending s @
      [\<lparr>tm_id = nextTimer s, tm_event = ev, tm_key = schedule_key ev date, tm_due = timeout_due now (date - now)\<rparr>]"
    "scheduledEvents (scheduleEvent now ev date s) = obj_set (schedule_key ev date) True (scheduledEvents s)"
    "nextTimer (scheduleEvent now ev date s) = Suc (nextTimer s)"
  using assms by (simp_all add: scheduleEvent_def calculateOffset_def Let_def)

lemma scheduleEvent_inv [inv_intros]: "sched_inv s \<Longrightarrow> sched_inv (scheduleEvent now ev date s)"
proof (cases "obj_get (scheduledEvents s) (schedule_key ev date) = Some True")
  case False
  assume inv: "sched_inv s"
  then have "schedule_key ev date \<notin> tm_key ` set (pending s)" "nextTimer s \<notin> tm_id ` set (pending s)"
    using False by (auto simp: sched_inv_def)
  then show ?thesis
    using inv by (auto simp: sched_inv_def scheduleEvent_new [OF False] less_Suc_eq)
qed (simp add: scheduleEvent_dup)

lemma fireTimer_simps [simp]:
  "pending (fireTimer tm s) = filter (\<lambda>t. tm_id t \<noteq> tm_id tm) (pending s)"
  "scheduledEvents (fireTimer tm s) = obj_del (tm_key tm) (scheduledEvents s)"
  "nextTimer (fireTimer tm s) = nextTimer s"
  "broadcasts (fireTimer tm s) = broadcasts s @ [tm_event tm]"
  by (simp_all add: fireTimer_def Let_def)

lemma distinct_map_filter_sub: "distinct (map f xs) \<Longrightarrow> distinct (map f (filter P xs))"
  by (induction xs) auto

lemma fireTimer_inv [inv_intros]:
  assumes "sched_inv s" "tm \<in> set (pending s)"
  shows "sched_inv (fireTimer tm s)"
proof -
  have "tm_key t \<noteq> tm_key tm" if "t \<in> set (pending s)" "tm_id t \<noteq> tm_id tm" for t
    using assms that by (metis sched_inv_def distinct_map inj_onD)
  then show ?thesis
    using assms(1) by (auto simp: sched_inv_def distinct_map_filter_sub)
qed

lemma clearForTenant_simps [simp]:
  "scheduledEvents (clearForTenant t s) = scheduledEvents s"
  "nextTimer (clearForTenant t s) = nextTimer s"
  "eventsByTenants (clearForTenant t s) = eventsByTenants s"
  "set (pending (clearForTenant t s)) \<subseteq> set (pending s)"
  by (auto simp: clearForTenant_def Let_def)

lemma clearForTenant_inv [inv_intros]: "sched_inv s \<Longrightarrow> sched_inv (clearForTenant t s)"
  by (auto simp: sched_inv_def clearForTenant_def Let_def distinct_map_filter_sub)

lemma sched_step_inv: "sched_inv s \<Longrightarrow> sched_step s t \<Longrightarrow> sched_inv t"
  by (erule sched_stepE) (auto intro: inv_intros)

lemma sched_reach_inv: "sched_step\<^sup>*\<^sup>* new_EventScheduler s \<Longrightarrow> sched_inv s"
  by (induction rule: rtranclp_induct) (auto intro: sched_inv_new sched_step_inv)

subsection \<open>The promise to the callers\<close>

text \<open>
  What the processor and the runner rely on: after a request a timer for the combination is
  pending, provided it was not marked without one, and repeating the request changes nothing.
\<close>

locale delayed_runs =
  fixes request :: "time \<Rightarrow> 'e \<Rightarrow> time \<Rightarrow> 's \<Rightarrow> 's" and fire :: "'t \<Rightarrow> 's \<Rightarrow> 's"
    and armed :: "'s \<Rightarrow> 't set" and marked :: "'s \<Rightarrow> 'k set"
    and key :: "'e \<Rightarrow> time \<Rightarrow> 'k" and tkey :: "'t \<Rightarrow> 'k" and inv :: "'s \<Rightarrow> bool"
  assumes request_inv: "inv s \<Longrightarrow> inv (request now e d s)"
    and request_marked: "marked (request now e d s) = insert (key e d) (marked s)"
    and request_again: "key e d \<in> marked s \<Longrightarrow> request now e d s = s"
    and request_armed: "key e d \<notin> marked s \<Longrightarrow> \<exists>t. armed (request now e d s) = insert t (armed s) \<and> tkey t = key e d"
    and fire_inv: "inv s \<Longrightarrow> t \<in> armed s \<Longrightarrow> inv (fire t s)"
    and fire_unmarks: "inv s \<Longrightarrow> t \<in> armed s \<Longrightarrow> marked (fire t s) = marked s - {tkey t}"
begin

lemma request_idempotent: "request now' e d (request now e d s) = request now e d s"
  by (rule request_again) (simp add: request_marked)

lemma request_after_fire:
  assumes "inv s" "t \<in> armed s" "tkey t = key e d"
  shows "\<exists>t'. t' \<in> armed (request now e d (fire t s)) \<and> tkey t' = key e d"
proof -
  have "key e d \<notin> marked (fire t s)" using assms fire_unmarks by simp
  from request_armed [OF this] show ?thesis by blast
qed

end

definition marked_keys :: "scheduler \<Rightarrow> string set" where
  "marked_keys s = {k. obj_get (scheduledEvents s) k = Some True}"

interpretation es: delayed_runs scheduleEvent fireTimer "\<lambda>s. set (pending s)" marked_keys schedule_key tm_key sched_inv
proof (unfold_locales, goal_cases)
  case (1 s now e d)
  then show ?case by (rule scheduleEvent_inv)
next
  case (2 now e d s)
  then show ?case
    by (cases "obj_get (scheduledEvents s) (schedule_key e d) = Some True")
      (auto simp: marked_keys_def scheduleEvent_dup scheduleEvent_new)
next
  case (3 e d s now)
  then show ?case by (simp add: marked_keys_def scheduleEvent_dup)
next
  case (4 e d s now)
  then show ?case by (auto simp: marked_keys_def scheduleEvent_new intro!: exI)
next
  case (5 s t)
  then show ?case by (rule fireTimer_inv)
next
  case (6 s t)
  then show ?case by (auto simp: marked_keys_def)
qed

subsection \<open>Properties\<close>

text \<open>
  C13. In every reachable state at most one timer is pending per combination of tenant, type,
  subtype, namespace and date, and requesting a combination again, at whatever time, changes
  nothing until its timer has fired.
\<close>

theorem scheduler_one_timer_per_combination:
  assumes "sched_step\<^sup>*\<^sup>* new_EventScheduler s"
  shows "distinct (map tm_key (pending s))
    \<and> scheduleEvent now' ev date (scheduleEvent now ev date s) = scheduleEvent now ev date s"
  using sched_reach_inv [OF assms] es.request_idempotent by (simp add: sched_inv_def)

text \<open>
  A pending timer that fires broadcasts exactly its own combination, and afterwards the same
  combination can be scheduled again.
\<close>

theorem scheduler_fire_rearms:
  assumes "sched_step\<^sup>*\<^sup>* new_EventScheduler s" "tm \<in> set (pending s)" "tm_key tm = schedule_key ev date"
  shows "broadcasts (fireTimer tm s) = broadcasts s @ [tm_event tm]
    \<and> (\<exists>tm'. tm' \<in> set (pending (scheduleEvent now ev date (fireTimer tm s))) \<and> tm_key tm' = schedule_key ev date)"
  using es.request_after_fire [OF sched_reach_inv [OF assms(1)] assms(2,3)] by simp

text \<open>
  Clearing a tenant cancels the timers of that tenant but keeps their combinations marked:
  a combination whose timer was cancelled this way is never armed again, whatever is requested
  for it later.
\<close>

theorem scheduler_clear_blocks_combination:
  assumes "sched_inv s" "tm \<in> set (pending s)" "tm_key tm = schedule_key ev date"
    and "tm \<notin> set (pending (clearForTenant t s))"
  shows "scheduleEvent now ev date (clearForTenant t s) = clearForTenant t s
    \<and> (\<forall>tm'\<in>set (pending (clearForTenant t s)). tm_key tm' \<noteq> schedule_key ev date)"
proof -
  have "obj_get (scheduledEvents s) (schedule_key ev date) = Some True"
    using assms(1-3) by (auto simp: sched_inv_def)
  moreover have "tm_key tm' \<noteq> schedule_key ev date" if "tm' \<in> set (pending (clearForTenant t s))" for tm'
  proof
    assume "tm_key tm' = schedule_key ev date"
    moreover have "tm' \<in> set (pending s)" using that clearForTenant_simps(4) by blast
    ultimately have "tm' = tm" using assms(1-3) by (metis sched_inv_def distinct_map inj_onD)
    then show False using that assms(4) by simp
  qed
  ultimately show ?thesis by (simp add: scheduleEvent_dup)
qed

subsection \<open>Witnesses\<close>

definition demo_event :: sched_event where
  "demo_event = \<lparr>se_tenant = Some ''t1'', se_type = ''T'', se_subType = ''S'', se_namespace = ''default''\<rparr>"

definition demo_sched :: scheduler where
  "demo_sched = scheduleEvent 1000 demo_event 5000 new_EventScheduler"

definition demo_timer :: timer where
  "demo_timer = \<lparr>tm_id = 1, tm_event = demo_event, tm_key = schedule_key demo_event 5000, tm_due = 5000\<rparr>"

lemma demo_sched_reach: "sched_step\<^sup>*\<^sup>* new_EventScheduler demo_sched"
  unfolding demo_sched_def by (intro r_into_rtranclp sched_step.schedule)

lemma demo_pending: "pending demo_sched = [demo_timer]"
  by (simp add: demo_sched_def demo_timer_def scheduleEvent_def calculateOffset_def new_EventScheduler_def
      timeout_due_def Let_def)

theorem scheduler_one_timer_per_combination_witness:
  "distinct (map tm_key (pending demo_sched)) \<and> length (pending demo_sched) = 1"
  using scheduler_one_timer_per_combination [OF demo_sched_reach] by (simp add: demo_pending)

theorem scheduler_fire_rearms_witness:
  "broadcasts (fireTimer demo_timer demo_sched) = [demo_event]"
proof -
  have "tm_key demo_timer = schedule_key demo_event 5000" "tm_event demo_timer = demo_event"
    by (simp_all add: demo_timer_def)
  moreover have "broadcasts demo_sched = []" by code_simp
  ultimately show ?thesis
    using scheduler_fire_rearms [OF demo_sched_reach, of demo_timer demo_event 5000 2000]
    by (simp add: demo_pending del: fireTimer_simps)
qed

theorem scheduler_clear_blocks_combination_witness:
  "pending (scheduleEvent 2000 demo_event 5000 (clearForTenant (Some ''t1'') demo_sched)) = []"
proof -
  have c: "pending (clearForTenant (Some ''t1'') demo_sched) = []" by code_simp
  have k: "tm_key demo_timer = schedule_key demo_event 5000" by (simp add: demo_timer_def)
  show ?thesis
    using scheduler_clear_blocks_combination [OF sched_reach_inv [OF demo_sched_reach] _ k,
        of "Some ''t1''" 2000] by (simp add: demo_pending c)
qed

end
