(* ===== verification/ProcessorBase.thy ===== *)
theory ProcessorBase
  imports StatusMap EventScheduler
begin

text \<open>
  \<open>src/EventQueueProcessorBase.js\<close>, the state of one processing run and the operations on the event
  table: claiming entries, persisting statuses, entries whose retries are exceeded, periodic
  entries.  The keep alive is in its own theory.

  The run's state is the record \<open>processor\<close>; the state outside it is the record \<open>world\<close>: the event
  table, the scheduler instance and the business data \<open>'b\<close> the handlers work on, which a database
  transaction commits or rolls back.  Handlers, the parsers of \<open>JSON.parse\<close> and \<open>new Date\<close>, the cron
  parser, \<open>Math.random\<close> and \<open>cds.utils.uuid\<close> are parameters.  An operation reads the clock once
  (\<open>now\<close>); database statements succeed.

  Proved: claiming selects only rows that are due, sets exactly them in progress and counts the
  attempt; persisting writes to each selected entry its own status and to no other row anything;
  \<open>Open\<close> does not consume an attempt; the exceeded hook is given up after three failures.
\<close>

subsection \<open>Configuration and state\<close>

record global_cfg =
  runInterval :: int
  randomOffsetPeriodicEvents :: "int option"

text \<open>\<open>keepAliveMaxInProgressTime\<close> is 3.5 times the keep alive interval, hence kept in tenths of a second.\<close>

record event_cfg =
  ec_namespace :: string
  ec_isPeriodic :: bool
  ec_parallelEventProcessing :: "int option"
  ec_multiInstanceProcessing :: bool
  ec_retryAttempts :: "int option"
  ec_selectMaxChunkSize :: "int option"
  ec_checkForNextChunk :: bool
  ec_transactionMode :: "string option"
  ec_keepAliveInterval :: int
  ec_keepAliveMaxInProgressTime :: int
  ec_retry :: retry_cfg
  ec_cron :: "string option"
  ec_interval :: int
  ec_randomOffset :: "int option"
  ec_lastSuccessfulRunTimestamp :: bool
  ec_selectedDelayedEventIds :: "string list"
  ec_startTime :: time
  ec_lockAcquiredTime :: time

record processor =
  p_tenant :: tenant
  p_type :: string
  p_subType :: string
  p_cfg :: event_cfg
  p_parallelEventProcessing :: int
  p_retryAttempts :: int
  p_selectMaxChunkSize :: int
  p_selectNextChunk :: bool
  p_transactionMode :: string
  p_statusMap :: status_map
  p_commitedStatusMap :: "jsval jsobj"
  p_notCommitedStatusMap :: "event_row jsobj"
  p_outdatedEventMap :: "bool jsobj"
  p_selectedEventMap :: "event_row jsobj"
  p_queueEntries :: "event_row list"
  p_queueEntriesMap :: "event_row jsobj"
  p_queueEntriesWithPayloadMap :: "(event_row \<times> jsval) jsobj"
  p_eventProcessingMap :: "(event_row list \<times> jsval) jsobj"
  p_eventsWithExceededTries :: "event_row list"
  p_exceededTriesExceeded :: "event_row list"
  p_emptyChunkSelected :: bool
  p_lockAcquired :: bool
  p_keepAliveViolated :: bool
  p_etagMap :: "time jsobj"
  p_txRollback :: "bool jsobj"
  p_nextSagaEvents :: "event_row list"
  p_lastSuccessfulRunTimestamp :: "time option option"

definition DEFAULT_RETRY_ATTEMPTS :: int where "DEFAULT_RETRY_ATTEMPTS = 3"
definition DEFAULT_PARALLEL_EVENT_PROCESSING :: int where "DEFAULT_PARALLEL_EVENT_PROCESSING = 1"
definition LIMIT_PARALLEL_EVENT_PROCESSING :: int where "LIMIT_PARALLEL_EVENT_PROCESSING = 10"
definition SELECT_LIMIT_EVENTS_PER_TICK :: int where "SELECT_LIMIT_EVENTS_PER_TICK = 100"
definition TRIES_FOR_EXCEEDED_EVENTS :: int where "TRIES_FOR_EXCEEDED_EVENTS = 3"
definition EVENT_START_AFTER_HEADROOM :: int where "EVENT_START_AFTER_HEADROOM = 3 * 1000"

abbreviation or_default :: "'a option \<Rightarrow> 'a \<Rightarrow> 'a" where
  "or_default x d \<equiv> (case x of None \<Rightarrow> d | Some v \<Rightarrow> v)"

definition new_processor :: "tenant \<Rightarrow> string \<Rightarrow> string \<Rightarrow> event_cfg \<Rightarrow> processor" where
  "new_processor t ty sub cfg =
     (let par = or_default (ec_parallelEventProcessing cfg) DEFAULT_PARALLEL_EVENT_PROCESSING in
      \<lparr>p_tenant = t, p_type = ty, p_subType = sub, p_cfg = cfg,
       p_parallelEventProcessing =
         (if par > LIMIT_PARALLEL_EVENT_PROCESSING then LIMIT_PARALLEL_EVENT_PROCESSING else par),
       p_retryAttempts = (if ec_isPeriodic cfg then 1 else or_default (ec_retryAttempts cfg) DEFAULT_RETRY_ATTEMPTS),
       p_selectMaxChunkSize = or_default (ec_selectMaxChunkSize cfg) SELECT_LIMIT_EVENTS_PER_TICK,
       p_selectNextChunk = ec_checkForNextChunk cfg,
       p_transactionMode = or_default (ec_transactionMode cfg) isolated,
       p_statusMap = [], p_commitedStatusMap = [], p_notCommitedStatusMap = [], p_outdatedEventMap = [],
       p_selectedEventMap = [], p_queueEntries = [], p_queueEntriesMap = [],
       p_queueEntriesWithPayloadMap = [], p_eventProcessingMap = [],
       p_eventsWithExceededTries = [], p_exceededTriesExceeded = [], p_emptyChunkSelected = False,
       p_lockAcquired = False, p_keepAliveViolated = False, p_etagMap = [], p_txRollback = [],
       p_nextSagaEvents = [], p_lastSuccessfulRunTimestamp = None\<rparr>)"

definition commitOnEventLevel :: "processor \<Rightarrow> bool" where
  "commitOnEventLevel p \<longleftrightarrow> p_transactionMode p = isolated"

definition sched_event_of :: "processor \<Rightarrow> string \<Rightarrow> sched_event" where
  "sched_event_of p ns =
     \<lparr>se_tenant = p_tenant p, se_type = p_type p, se_subType = p_subType p, se_namespace = ns\<rparr>"

record 'b world =
  w_events :: event_table
  w_sched :: scheduler
  w_biz :: 'b

text \<open>What the platform provides: \<open>Date.prototype.toString\<close>, \<open>new Date(string)\<close> and \<open>JSON.parse\<close>.\<close>

record platform =
  pf_dateStr :: "time \<Rightarrow> string"
  pf_parseDate :: "string \<Rightarrow> time option"
  pf_parseJson :: "string \<Rightarrow> jsval option"

definition schedule_in :: "time \<Rightarrow> sched_event \<Rightarrow> time \<Rightarrow> 'b world \<Rightarrow> 'b world" where
  "schedule_in now ev t w = w\<lparr>w_sched := scheduleEvent now ev t (w_sched w)\<rparr>"

text \<open>\<open>logTimeExceededAndPublishContinue\<close>\<close>

definition logTimeExceededAndPublishContinue :: "time \<Rightarrow> processor \<Rightarrow> 'b world \<Rightarrow> 'b world" where
  "logTimeExceededAndPublishContinue now p w =
     schedule_in now (sched_event_of p (ec_namespace (p_cfg p))) (now + 5 * 1000) w"

subsection \<open>Entries, payloads and clusters\<close>

text \<open>\<open>arrayToFlatMap\<close> by id (\<open>shared/common.js\<close>)\<close>

definition arrayToFlatMap :: "event_row list \<Rightarrow> event_row jsobj" where
  "arrayToFlatMap rows = obj_from (map (\<lambda>r. (ev_ID r, r)) rows)"

definition parse_or_keep :: "(string \<Rightarrow> jsval option) \<Rightarrow> jsval \<Rightarrow> jsval" where
  "parse_or_keep parse v = (case v of JStr s \<Rightarrow> (case parse s of Some x \<Rightarrow> x | None \<Rightarrow> v) | _ \<Rightarrow> v)"

definition modifyQueueEntry :: "platform \<Rightarrow> event_row \<Rightarrow> event_row" where
  "modifyQueueEntry pf r =
     r\<lparr>ev_payload := parse_or_keep (pf_parseJson pf) (ev_payload r),
       ev_context := parse_or_keep (pf_parseJson pf) (ev_context r)\<rparr>"

definition addEventWithPayloadForProcessing :: "event_row \<Rightarrow> jsval \<Rightarrow> processor \<Rightarrow> processor" where
  "addEventWithPayloadForProcessing r payload p =
     (if obj_has (p_queueEntriesMap p) (ev_ID r)
      then p\<lparr>p_queueEntriesWithPayloadMap := obj_set (ev_ID r) (r, payload) (p_queueEntriesWithPayloadMap p)\<rparr>
      else p)"

definition addEntryToProcessingMap :: "string \<Rightarrow> event_row \<Rightarrow> jsval \<Rightarrow> processor \<Rightarrow> processor" where
  "addEntryToProcessingMap key r payload p =
     (let cur = or_default (obj_get (p_eventProcessingMap p) key) ([], payload)
      in p\<lparr>p_eventProcessingMap := obj_set key (fst cur @ [r], snd cur) (p_eventProcessingMap p)\<rparr>)"

definition clusterQueueEntries :: "(event_row \<times> jsval) jsobj \<Rightarrow> processor \<Rightarrow> processor" where
  "clusterQueueEntries m p = foldl (\<lambda>p' (key, r, payload). addEntryToProcessingMap key r payload p') p m"

subsection \<open>Statuses of entries\<close>

definition add_to_own :: "string list \<Rightarrow> int \<Rightarrow> jsval \<Rightarrow> processor \<Rightarrow> processor" where
  "add_to_own ids n err p = p\<lparr>p_statusMap := add_status_all ids n err (p_statusMap p)\<rparr>"

definition setStatusToDone :: "event_row \<Rightarrow> processor \<Rightarrow> processor" where
  "setStatusToDone r p = add_to_own [ev_ID r] Done JUndef p"

definition handleErrorDuringProcessing :: "jsval \<Rightarrow> event_row list \<Rightarrow> processor \<Rightarrow> processor \<times> status_map" where
  "handleErrorDuringProcessing err rs p =
     (add_to_own (map ev_ID rs) Error err p,
      obj_from (map (\<lambda>r. (ev_ID r, JObj [(''status'', JNum Error), (''error'', err)])) rs))"

definition handleErrorDuringClustering :: "processor \<Rightarrow> processor" where
  "handleErrorDuringClustering p = add_to_own (map ev_ID (p_queueEntries p)) Error JUndef p"

definition handleErrorTx :: "processor \<Rightarrow> processor" where
  "handleErrorTx p = add_to_own (map ev_ID (p_queueEntries p)) Error JUndef p"

definition handleInvalidPayloadReturned :: "event_row \<Rightarrow> processor \<Rightarrow> processor" where
  "handleInvalidPayloadReturned r p = add_to_own [ev_ID r] Error JUndef p"

text \<open>The returned map is the own one exactly where the code returns \<open>this.__statusMap\<close>.\<close>

definition setEventStatus :: "platform \<Rightarrow> event_row list \<Rightarrow> jsval \<Rightarrow> bool \<Rightarrow> processor \<Rightarrow> processor \<times> status_map" where
  "setEventStatus pf rs tuple returnMap p =
     (let ids = map ev_ID rs in
      if commitOnEventLevel p \<or> returnMap
      then (p, setEventStatus_on (pf_dateStr pf) ids tuple [])
      else let m = setEventStatus_on (pf_dateStr pf) ids tuple (p_statusMap p)
           in (p\<lparr>p_statusMap := m\<rparr>, m))"

definition set_error_column :: "jsval \<Rightarrow> event_row \<Rightarrow> event_row" where
  "set_error_column err r = (if truthy err then r\<lparr>ev_error := Some (error2String err)\<rparr> else r)"

definition setPeriodicEventStatus :: "string list \<Rightarrow> int \<Rightarrow> jsval \<Rightarrow> 'b world \<Rightarrow> 'b world" where
  "setPeriodicEventStatus ids st err w =
     w\<lparr>w_events := update_where (id_in ids) (\<lambda>r. set_error_column err (r\<lparr>ev_status := st\<rparr>)) (w_events w)\<rparr>"

definition setShouldRollbackTransaction :: "string \<Rightarrow> processor \<Rightarrow> processor" where
  "setShouldRollbackTransaction key p = p\<lparr>p_txRollback := obj_set key True (p_txRollback p)\<rparr>"

definition shouldRollbackTransaction :: "string \<Rightarrow> processor \<Rightarrow> bool" where
  "shouldRollbackTransaction key p \<longleftrightarrow> obj_get (p_txRollback p) key = Some True"

subsection \<open>Persisting\<close>

text \<open>
  The two ways the code calls \<open>persistEventStatus\<close>: with the run's own map and all checks, or with a
  given map and \<open>skipChecks\<close>.
\<close>

datatype persist_mode = OwnMap | Given status_map

definition note_commited :: "jsval \<Rightarrow> string list \<Rightarrow> processor \<Rightarrow> processor" where
  "note_commited st ids p =
     p\<lparr>p_commitedStatusMap := foldl (\<lambda>c i. obj_set i st c) (p_commitedStatusMap p) ids,
       p_notCommitedStatusMap := foldl (\<lambda>c i. obj_del i c) (p_notCommitedStatusMap p) ids\<rparr>"

definition persist_group ::
  "platform \<Rightarrow> time \<Rightarrow> upd_data \<times> string list \<Rightarrow> 'b world \<times> processor \<Rightarrow> 'b world \<times> processor" where
  "persist_group pf now g s =
     (case (g, s) of ((d, ids), w, p) \<Rightarrow>
        if \<not> obj_has d ''status'' then (w, p)
        else
          let d' = prepare_update (pf_parseDate pf) (ec_retry (p_cfg p)) now d;
              w1 = (case js_prop d' ''startAfter'' of
                      JDate t \<Rightarrow> schedule_in now (sched_event_of p (ec_namespace (p_cfg p))) t w
                    | _ \<Rightarrow> w)
          in (w1\<lparr>w_events := update_where (id_in ids) (set_columns now d') (w_events w1)\<rparr>,
              note_commited (js_prop d ''status'') ids p))"

definition insert_nextSagaEvents :: "'b world \<times> processor \<Rightarrow> 'b world \<times> processor" where
  "insert_nextSagaEvents s =
     (case s of (w, p) \<Rightarrow>
        if p_nextSagaEvents p = [] then (w, p)
        else (w\<lparr>w_events := w_events w @ p_nextSagaEvents p\<rparr>, p\<lparr>p_nextSagaEvents := []\<rparr>))"

text \<open>The checked map that is written.\<close>

definition checked_map :: "persist_mode \<Rightarrow> processor \<Rightarrow> upd_map option" where
  "checked_map mode p =
     (case normalizeStatusMap (case mode of OwnMap \<Rightarrow> p_statusMap p | Given m \<Rightarrow> m) of
        None \<Rightarrow> None
      | Some nm \<Rightarrow>
          let sel = ensureOnlySelectedQueueEntries (obj_keys (p_selectedEventMap p)) nm;
              full = (if mode = OwnMap
                      then ensureEveryQueueEntryHasStatus (obj_keys (p_commitedStatusMap p))
                             (obj_keys (p_outdatedEventMap p)) (map ev_ID (p_queueEntries p)) sel
                      else sel)
          in Some (ensureEveryStatusIsAllowed full))"

text \<open>The own map after the call: the checked one, with the written data where the entry was the first
  of its group (the update mutates that object).\<close>

definition written_map :: "platform \<Rightarrow> time \<Rightarrow> processor \<Rightarrow> upd_map \<Rightarrow> status_map" where
  "written_map pf now p m =
     map (\<lambda>(i, d). (i, JObj
       (case obj_get (group_updates (pf_dateStr pf) m) (group_key (pf_dateStr pf) d) of
          Some (_, j # _) \<Rightarrow> if i = j \<and> obj_has d ''status''
                             then prepare_update (pf_parseDate pf) (ec_retry (p_cfg p)) now d else d
        | _ \<Rightarrow> d))) m"

definition persistEventStatus ::
  "platform \<Rightarrow> time \<Rightarrow> persist_mode \<Rightarrow> 'b world \<times> processor \<Rightarrow> ('b world \<times> processor) option" where
  "persistEventStatus pf now mode s =
     (case checked_map mode (snd s) of
        None \<Rightarrow> None
      | Some m \<Rightarrow>
          let p1 = (if mode = OwnMap then (snd s)\<lparr>p_statusMap := written_map pf now (snd s) m\<rparr> else snd s);
              groups = map snd (group_updates (pf_dateStr pf) m)
          in if groups = [] then Some (fst s, p1)
             else Some (insert_nextSagaEvents (foldl (\<lambda>s' g. persist_group pf now g s') (fst s, p1) groups)))"

subsection \<open>Claiming entries\<close>

text \<open>\<open>new Date(baseDate + runInterval * 1.2)\<close>, and the date below which an entry is not delayed.\<close>

definition refDateStartAfter :: "global_cfg \<Rightarrow> time \<Rightarrow> time" where
  "refDateStartAfter gc now = trunc_div (10 * now + 12 * runInterval gc) 10"

definition refDateDelayed :: "global_cfg \<Rightarrow> time \<Rightarrow> time" where
  "refDateDelayed gc ref = trunc_div (10 * ref - 12 * runInterval gc + 10 * EVENT_START_AFTER_HEADROOM) 10"

definition stuckBefore :: "event_cfg \<Rightarrow> time \<Rightarrow> time" where
  "stuckBefore cfg now = now - ec_keepAliveMaxInProgressTime cfg * 100"

text \<open>The \<open>WHERE\<close> clause of the selection.\<close>

definition status_selectable :: "event_cfg \<Rightarrow> time \<Rightarrow> event_row \<Rightarrow> bool" where
  "status_selectable cfg now r \<longleftrightarrow>
     ev_status r = Open \<and>
       (sql_le (ev_lastAttemptTimestamp r) (ec_startTime cfg) \<or> ev_lastAttemptTimestamp r = None)
     \<or> \<not> ec_isPeriodic cfg \<and> ev_status r = Error \<and> sql_le (ev_lastAttemptTimestamp r) (ec_startTime cfg)
     \<or> ev_status r = InProgress \<and> sql_le (ev_lastAttemptTimestamp r) (stuckBefore cfg now)"

definition selectable :: "global_cfg \<Rightarrow> processor \<Rightarrow> time \<Rightarrow> event_row \<Rightarrow> bool" where
  "selectable gc p now r \<longleftrightarrow>
     ev_type r = p_type p \<and> ev_subType r = p_subType p \<and> ev_namespace r = ec_namespace (p_cfg p)
     \<and> (ev_startAfter r = None \<or> sql_le (ev_startAfter r) (refDateStartAfter gc now))
     \<and> status_selectable (p_cfg p) now r
     \<and> ev_ID r \<notin> set (ec_selectedDelayedEventIds (p_cfg p))"

definition isDelayedEvent :: "time \<Rightarrow> event_row \<Rightarrow> bool" where
  "isDelayedEvent ref r = (case ev_startAfter r of None \<Rightarrow> False | Some t \<Rightarrow> \<not> ref \<ge> t)"

record clusters =
  cl_exceededTries :: "event_row list"
  cl_openEvents :: "event_row list"
  cl_exceededTriesExceeded :: "event_row list"
  cl_delayedEvents :: "event_row list"

definition cluster_step :: "int \<Rightarrow> time \<Rightarrow> clusters \<Rightarrow> event_row \<Rightarrow> clusters" where
  "cluster_step retry ref c r =
     (if ev_attempts r = retry + TRIES_FOR_EXCEEDED_EVENTS
      then c\<lparr>cl_exceededTriesExceeded := cl_exceededTriesExceeded c @ [r]\<rparr>
      else if ev_attempts r \<ge> retry then c\<lparr>cl_exceededTries := cl_exceededTries c @ [r]\<rparr>
      else if isDelayedEvent ref r then c\<lparr>cl_delayedEvents := cl_delayedEvents c @ [r]\<rparr>
      else c\<lparr>cl_openEvents := cl_openEvents c @ [r]\<rparr>)"

definition clusterEvents :: "int \<Rightarrow> time \<Rightarrow> event_row list \<Rightarrow> clusters" where
  "clusterEvents retry ref rows =
     foldl (cluster_step retry ref)
       \<lparr>cl_exceededTries = [], cl_openEvents = [], cl_exceededTriesExceeded = [], cl_delayedEvents = []\<rparr> rows"

definition handleDelayedEvent :: "bool \<Rightarrow> time \<Rightarrow> 'b world \<times> processor \<Rightarrow> event_row \<Rightarrow> 'b world \<times> processor" where
  "handleDelayedEvent skipExclude now s r =
     (case s of (w, p) \<Rightarrow>
        (schedule_in now (sched_event_of p (ev_namespace r)) (or_default (ev_startAfter r) 0) w,
         if skipExclude then p
         else p\<lparr>p_cfg := (p_cfg p)\<lparr>ec_selectedDelayedEventIds := ec_selectedDelayedEventIds (p_cfg p) @ [ev_ID r]\<rparr>\<rparr>))"

definition handleDelayedEvents :: "bool \<Rightarrow> time \<Rightarrow> event_row list \<Rightarrow> 'b world \<times> processor \<Rightarrow> 'b world \<times> processor" where
  "handleDelayedEvents skipExclude now rs s = foldl (handleDelayedEvent skipExclude now) s rs"

definition selectLastSuccessfulPeriodicTimestamp :: "processor \<Rightarrow> event_table \<Rightarrow> time option" where
  "selectLastSuccessfulPeriodicTimestamp p rows =
     foldl (\<lambda>m r. case (m, ev_lastAttemptTimestamp r) of
                    (None, x) \<Rightarrow> x | (m, None) \<Rightarrow> m | (Some a, Some b) \<Rightarrow> Some (max a b)) None
       (filter (\<lambda>r. ev_type r = p_type p \<and> ev_subType r = p_subType p \<and> ev_status r = Done) rows)"

text \<open>The selected entry in memory and its row after claiming.\<close>

definition claim_entry :: "time \<Rightarrow> event_row \<Rightarrow> event_row" where
  "claim_entry now r =
     r\<lparr>ev_lastAttemptTimestamp := Some now,
       ev_payload := (if ev_payload r = JNull then JStr [] else ev_payload r)\<rparr>"

definition claim_row :: "time \<Rightarrow> event_row \<Rightarrow> event_row" where
  "claim_row now r =
     r\<lparr>ev_status := InProgress, ev_lastAttemptTimestamp := Some now, ev_attempts := ev_attempts r + 1\<rparr>"

definition fail_row :: "time \<Rightarrow> event_row \<Rightarrow> event_row" where
  "fail_row now r = r\<lparr>ev_status := Error, ev_lastAttemptTimestamp := Some now\<rparr>"

definition set_in_progress ::
  "time \<Rightarrow> event_row list \<Rightarrow> event_row list \<Rightarrow> 'b world \<times> processor \<Rightarrow> 'b world \<times> processor" where
  "set_in_progress now forProcessing result s =
     (case s of (w, p) \<Rightarrow>
        let w1 = w\<lparr>w_events := update_where (id_in (map ev_ID forProcessing)) (claim_row now) (w_events w)\<rparr>
        in (w1, p\<lparr>p_queueEntries := result,
                  p_queueEntriesMap := arrayToFlatMap result,
                  p_notCommitedStatusMap := arrayToFlatMap result,
                  p_etagMap := obj_from (map (\<lambda>r. (ev_ID r, now)) result),
                  p_lastSuccessfulRunTimestamp :=
                    (if ec_isPeriodic (p_cfg p) \<and> ec_lastSuccessfulRunTimestamp (p_cfg p)
                     then Some (selectLastSuccessfulPeriodicTimestamp p (w_events w1))
                     else p_lastSuccessfulRunTimestamp p)\<rparr>))"

text \<open>Claiming: the clusters of the selected rows, the entries to be set in progress among them, the
  bookkeeping, and the two updates.\<close>

definition claim_clusters :: "global_cfg \<Rightarrow> time \<Rightarrow> processor \<Rightarrow> event_table \<Rightarrow> clusters" where
  "claim_clusters gc now p rows =
     clusterEvents (p_retryAttempts p) (refDateDelayed gc (refDateStartAfter gc now))
       (select_ordered (selectable gc p now) (p_selectMaxChunkSize p) rows)"

definition events_for_processing :: "processor \<Rightarrow> clusters \<Rightarrow> event_row list" where
  "events_for_processing p c =
     cl_openEvents c @ cl_exceededTriesExceeded c @ (if ec_isPeriodic (p_cfg p) then [] else cl_exceededTries c)"

definition getQueueEntriesAndSetToInProgress ::
  "global_cfg \<Rightarrow> time \<Rightarrow> 'b world \<times> processor \<Rightarrow> ('b world \<times> processor) \<times> event_row list" where
  "getQueueEntriesAndSetToInProgress gc now s =
     (case s of (w, p) \<Rightarrow>
        if select_ordered (selectable gc p now) (p_selectMaxChunkSize p) (w_events w) = []
        then ((w, p\<lparr>p_emptyChunkSelected := True\<rparr>), [])
        else
          let c = claim_clusters gc now p (w_events w);
              periodic = ec_isPeriodic (p_cfg p);
              forProcessing = events_for_processing p c;
              claimed = map (claim_entry now) forProcessing;
              openEvents = map (claim_entry now) (cl_openEvents c);
              p1 = p\<lparr>p_selectedEventMap := arrayToFlatMap claimed,
                     p_eventsWithExceededTries :=
                       (if \<not> periodic \<and> cl_exceededTries c \<noteq> [] then map (claim_entry now) (cl_exceededTries c)
                        else p_eventsWithExceededTries p),
                     p_exceededTriesExceeded :=
                       (if cl_exceededTriesExceeded c \<noteq> [] then map (claim_entry now) (cl_exceededTriesExceeded c)
                        else p_exceededTriesExceeded p)\<rparr>;
              (w2, p2) = handleDelayedEvents False now (cl_delayedEvents c) (w, p1);
              w3 = (if periodic \<and> cl_exceededTries c \<noteq> []
                    then w2\<lparr>w_events := update_where (id_in (map ev_ID (cl_exceededTries c))) (fail_row now) (w_events w2)\<rparr>
                    else w2)
          in if forProcessing = [] then ((w3, p2), [])
             else (set_in_progress now forProcessing openEvents (w3, p2), openEvents))"

definition getLastSuccessfulRunTimestamp :: "'b world \<Rightarrow> processor \<Rightarrow> processor \<times> time option" where
  "getLastSuccessfulRunTimestamp w p =
     (if \<not> ec_isPeriodic (p_cfg p) then (p, None)
      else case p_lastSuccessfulRunTimestamp p of
             Some ts \<Rightarrow> (p, ts)
           | None \<Rightarrow> let ts = selectLastSuccessfulPeriodicTimestamp p (w_events w)
                     in (p\<lparr>p_lastSuccessfulRunTimestamp := Some ts\<rparr>, ts))"

subsection \<open>Exceeded retries\<close>

definition persistEventQueueStatusForExceeded ::
  "platform \<Rightarrow> time \<Rightarrow> event_row list \<Rightarrow> int \<Rightarrow> 'b world \<times> processor \<Rightarrow> ('b world \<times> processor) option" where
  "persistEventQueueStatusForExceeded pf now rs st s =
     (let (p1, m) = setEventStatus pf rs (JArr (map (\<lambda>r. JArr [JStr (ev_ID r), JNum st]) rs)) True (snd s)
      in persistEventStatus pf now (Given m) (fst s, p1))"

definition handleExceededTriesExceeded ::
  "platform \<Rightarrow> time \<Rightarrow> 'b world \<times> processor \<Rightarrow> ('b world \<times> processor) option" where
  "handleExceededTriesExceeded pf now s =
     (if p_exceededTriesExceeded (snd s) = [] then Some s
      else persistEventQueueStatusForExceeded pf now (p_exceededTriesExceeded (snd s)) Exceeded s)"

text \<open>The hook works in the transaction that is committed with the status \<open>Exceeded\<close>; when it throws
  (\<open>Inl\<close>), that transaction is rolled back and the status \<open>Error\<close> is persisted in a new one.\<close>

definition handleExceededEvent ::
  "platform \<Rightarrow> (event_row \<Rightarrow> 'b \<Rightarrow> jsval + 'b) \<Rightarrow> time \<Rightarrow> event_row \<Rightarrow> 'b world \<times> processor
     \<Rightarrow> ('b world \<times> processor) option" where
  "handleExceededEvent pf hook now r s =
     (case s of (w, p) \<Rightarrow>
        (case hook (modifyQueueEntry pf r) (w_biz w) of
           Inr b \<Rightarrow> persistEventQueueStatusForExceeded pf now [r] Exceeded (w\<lparr>w_biz := b\<rparr>, p)
         | Inl err \<Rightarrow> persistEventQueueStatusForExceeded pf now [r] Error (w, p)))"

fun for_each_exceeded ::
  "platform \<Rightarrow> (event_row \<Rightarrow> 'b \<Rightarrow> jsval + 'b) \<Rightarrow> time \<Rightarrow> event_row list \<Rightarrow> 'b world \<times> processor
     \<Rightarrow> ('b world \<times> processor) option" where
  "for_each_exceeded pf hook now [] s = Some s"
| "for_each_exceeded pf hook now (r # rs) s =
     (case handleExceededEvent pf hook now r s of None \<Rightarrow> None | Some s' \<Rightarrow> for_each_exceeded pf hook now rs s')"

definition handleExceededEvents ::
  "platform \<Rightarrow> (event_row \<Rightarrow> 'b \<Rightarrow> jsval + 'b) \<Rightarrow> time \<Rightarrow> 'b world \<times> processor \<Rightarrow> ('b world \<times> processor) option" where
  "handleExceededEvents pf hook now s =
     (case handleExceededTriesExceeded pf now s of
        None \<Rightarrow> None
      | Some s' \<Rightarrow> for_each_exceeded pf hook now (p_eventsWithExceededTries (snd s')) s')"

subsection \<open>Periodic entries\<close>

text \<open>\<open>rnd offset\<close> is \<open>Math.floor(Math.random() * offset)\<close>.\<close>

definition calculateRandomOffset :: "global_cfg \<Rightarrow> (int \<Rightarrow> int) \<Rightarrow> event_cfg \<Rightarrow> int" where
  "calculateRandomOffset gc rnd cfg =
     (let offset = (case ec_randomOffset cfg of Some x \<Rightarrow> Some x | None \<Rightarrow> randomOffsetPeriodicEvents gc)
      in case offset of None \<Rightarrow> 0 | Some x \<Rightarrow> if x = 0 then 0 else rnd x * 1000)"

text \<open>\<open>null\<close>, the interval of a cron event, counts as 0 in the comparisons; \<open>cronNext expr now\<close> is the date
  the cron parser reports.\<close>

definition intervalInMs :: "event_cfg \<Rightarrow> int" where
  "intervalInMs cfg = (if ec_cron cfg \<noteq> None then 0 else ec_interval cfg * 1000)"

definition plannedStartAfter ::
  "global_cfg \<Rightarrow> (string \<Rightarrow> time \<Rightarrow> time) \<Rightarrow> (int \<Rightarrow> int) \<Rightarrow> event_cfg \<Rightarrow> time \<Rightarrow> event_row \<Rightarrow> time" where
  "plannedStartAfter gc cronNext rnd cfg now r =
     (case ec_cron cfg of
        Some expr \<Rightarrow> cronNext expr now + calculateRandomOffset gc rnd cfg
      | None \<Rightarrow> or_default (ev_startAfter r) 0 + intervalInMs cfg + calculateRandomOffset gc rnd cfg)"

text \<open>More than one interval behind: shift.\<close>

definition shiftedStartAfter :: "event_cfg \<Rightarrow> time \<Rightarrow> time \<Rightarrow> time" where
  "shiftedStartAfter cfg now planned =
     (let relative = snd (calculateOffset now planned)
      in if relative < 0 \<and> \<bar>relative\<bar> \<ge> intervalInMs cfg then now + 5 * 1000 else planned)"

definition scheduleNextPeriodEvent ::
  "global_cfg \<Rightarrow> (string \<Rightarrow> time \<Rightarrow> time) \<Rightarrow> (int \<Rightarrow> int) \<Rightarrow> string \<Rightarrow> time \<Rightarrow> event_row \<Rightarrow> 'b world \<times> processor
     \<Rightarrow> ('b world \<times> processor) \<times> bool" where
  "scheduleNextPeriodEvent gc cronNext rnd uuid now r s =
     (case s of (w, p) \<Rightarrow>
        let cfg = p_cfg p;
            startAfter = shiftedStartAfter cfg now (plannedStartAfter gc cronNext rnd cfg now r);
            newEvent = new_row uuid now (p_type p) (p_subType p) (ec_namespace cfg) (Some startAfter);
            w1 = w\<lparr>w_events := w_events w @ [newEvent]\<rparr>
        in if 10 * intervalInMs cfg < 15 * runInterval gc
           then (handleDelayedEvents True now [newEvent] (w1, p), snd (calculateOffset now startAfter) \<le> 0)
           else ((w1, p), False))"

text \<open>The condition of the duplicate handling reads the property \<open>queueEntry\<close> of an entry, which no
  entry has.\<close>

definition startAfter_val :: "event_row \<Rightarrow> jsval" where
  "startAfter_val r = (case ev_startAfter r of None \<Rightarrow> JNull | Some t \<Rightarrow> JDate t)"

definition queueEntry_val :: "event_row \<Rightarrow> jsval" where
  "queueEntry_val r = JUndef"

fun pick_duplicate :: "event_row \<Rightarrow> event_row list \<Rightarrow> event_row list \<Rightarrow> event_row \<times> event_row list" where
  "pick_duplicate use obsolete [] = (use, obsolete)"
| "pick_duplicate use obsolete (r # rs) =
     (if js_ge (queueEntry_val r) (startAfter_val use) then pick_duplicate r (obsolete @ [use]) rs
      else pick_duplicate use (obsolete @ [r]) rs)"

definition handleDuplicatedPeriodicEventEntry ::
  "event_row list \<Rightarrow> 'b world \<Rightarrow> 'b world \<times> event_row option" where
  "handleDuplicatedPeriodicEventEntry rs w =
     (case rs of
        [] \<Rightarrow> (w, None)
      | r # rest \<Rightarrow> (case pick_duplicate r [] rest of
                       (use, obsolete) \<Rightarrow> (setPeriodicEventStatus (map ev_ID obsolete) Done JUndef w, Some use)))"

subsection \<open>Lemmas on persisting\<close>

lemma schedule_in_simps [simp]:
  "w_events (schedule_in now ev t w) = w_events w" "w_biz (schedule_in now ev t w) = w_biz w"
  by (simp_all add: schedule_in_def)

lemma note_commited_simps [simp]:
  "p_cfg (note_commited st ids p) = p_cfg p"
  "p_statusMap (note_commited st ids p) = p_statusMap p"
  "p_selectedEventMap (note_commited st ids p) = p_selectedEventMap p"
  "p_queueEntries (note_commited st ids p) = p_queueEntries p"
  "p_eventsWithExceededTries (note_commited st ids p) = p_eventsWithExceededTries p"
  "p_exceededTriesExceeded (note_commited st ids p) = p_exceededTriesExceeded p"
  "p_transactionMode (note_commited st ids p) = p_transactionMode p"
  "p_eventProcessingMap (note_commited st ids p) = p_eventProcessingMap p"
  "p_emptyChunkSelected (note_commited st ids p) = p_emptyChunkSelected p"
  "p_nextSagaEvents (note_commited st ids p) = p_nextSagaEvents p"
  by (simp_all add: note_commited_def)

definition group_rows :: "platform \<Rightarrow> retry_cfg \<Rightarrow> time \<Rightarrow> event_table \<Rightarrow> upd_data \<times> string list \<Rightarrow> event_table" where
  "group_rows pf rc now rows g =
     (if obj_has (fst g) ''status''
      then update_where (id_in (snd g)) (set_columns now (prepare_update (pf_parseDate pf) rc now (fst g))) rows
      else rows)"

lemma persist_group_rows:
  "w_events (fst (persist_group pf now g (w, p))) = group_rows pf (ec_retry (p_cfg p)) now (w_events w) g"
  "p_cfg (snd (persist_group pf now g (w, p))) = p_cfg p"
  "w_biz (fst (persist_group pf now g (w, p))) = w_biz w"
  by (cases g; auto simp: persist_group_def group_rows_def Let_def split: jsval.splits)+

lemma persist_fold_rows:
  "w_events (fst (foldl (\<lambda>s g. persist_group pf now g s) (w, p) gs))
     = foldl (group_rows pf (ec_retry (p_cfg p)) now) (w_events w) gs
   \<and> w_biz (fst (foldl (\<lambda>s g. persist_group pf now g s) (w, p) gs)) = w_biz w"
proof (induction gs arbitrary: w p)
  case (Cons g gs)
  obtain w1 p1 where s: "persist_group pf now g (w, p) = (w1, p1)" by fastforce
  show ?case using Cons [of w1 p1] persist_group_rows [of pf now g w p] by (simp add: s)
qed simp

lemma group_rows_ok [simp]: "map ev_ID (group_rows pf rc now rows g) = map ev_ID rows"
  by (simp add: group_rows_def)

lemma fold_group_rows_ok: "map ev_ID (foldl (group_rows pf rc now) rows gs) = map ev_ID rows"
  by (induction gs arbitrary: rows) simp_all

lemma row_group_rows:
  "row_of (group_rows pf rc now rows g) i =
     (if i \<in> set (snd g) \<and> obj_has (fst g) ''status''
      then map_option (set_columns now (prepare_update (pf_parseDate pf) rc now (fst g))) (row_of rows i)
      else row_of rows i)"
  by (auto simp: group_rows_def row_of_update_ids)

lemma row_fold_none:
  "\<forall>g\<in>set gs. i \<notin> set (snd g) \<Longrightarrow> row_of (foldl (group_rows pf rc now) rows gs) i = row_of rows i"
  by (induction gs arbitrary: rows) (simp_all add: row_group_rows)

text \<open>The row of an entry of the checked map is updated with the data of the first entry with the
  same key; all other rows stay.\<close>

lemma fold_group_updates_row:
  assumes "distinct (obj_keys m)" "obj_get m i = Some d" "obj_has d ''status''"
    and st: "\<forall>(j, e)\<in>set m. obj_has e ''status''"
  shows "\<exists>j d'. (j, d') \<in> set m \<and> group_key ds d' = group_key ds d \<and>
    row_of (foldl (group_rows pf rc now) rows (map snd (group_updates ds m))) i
      = map_option (set_columns now (prepare_update (pf_parseDate pf) rc now d')) (row_of rows i)"
proof -
  let ?k = "group_key ds d" and ?G = "group_updates ds m"
  have im: "(i, d) \<in> set m" using assms(2) by (rule map_of_SomeD)
  then have "filter (\<lambda>e. group_key ds (snd e) = ?k) m \<noteq> []" by (force simp: filter_empty_conv)
  then obtain d' ids where "obj_get ?G ?k = Some (d', ids)"
    unfolding group_updates_get by (auto simp: neq_Nil_conv split: list.splits)
  then have mem: "(?k, d', ids) \<in> set ?G" by (rule map_of_SomeD)
  then obtain g1 g2 where G: "?G = g1 @ (?k, d', ids) # g2" by (meson split_list)
  have ids: "i \<in> set ids" using group_updates_mem(1) [OF mem] im by force
  have other: "i \<notin> set ids'" if gm: "(k', e, ids') \<in> set ?G" and ne: "k' \<noteq> ?k" for k' e ids'
  proof
    assume "i \<in> set ids'"
    then obtain d'' where "(i, d'') \<in> set m" "group_key ds d'' = k'"
      using group_updates_mem(1) [OF gm] by auto
    moreover have "d'' = d" using \<open>(i, d'') \<in> set m\<close> im assms(1) by (metis map_of_eq_Some_iff option.inject)
    ultimately show False using ne by simp
  qed
  have "distinct (map fst (g1 @ (?k, d', ids) # g2))" using distinct_group_updates [of ds m] G by simp
  then have keys: "?k \<notin> fst ` set g1" "?k \<notin> fst ` set g2" by simp_all
  have none: "i \<notin> set (snd (snd g))" if "g \<in> set g1 \<or> g \<in> set g2" for g
  proof -
    obtain k' e ids' where g: "g = (k', e, ids')" by (cases g) auto
    have "g \<in> set ?G" unfolding G using that by auto
    moreover have "k' \<noteq> ?k" using that keys g by (metis fst_conv image_eqI)
    ultimately show ?thesis using other g by simp
  qed
  have none1: "\<forall>g\<in>set (map snd g1). i \<notin> set (snd g)" and none2: "\<forall>g\<in>set (map snd g2). i \<notin> set (snd g)"
    using none by auto
  obtain j where j: "(j, d') \<in> set m" "group_key ds d' = ?k" using group_updates_mem(2) [OF mem] by blast
  have "obj_has d' ''status''" using st j(1) by auto
  then have "row_of (foldl (group_rows pf rc now) rows (map snd ?G)) i
      = map_option (set_columns now (prepare_update (pf_parseDate pf) rc now d')) (row_of rows i)"
    unfolding G by (simp add: row_fold_none [OF none1] row_fold_none [OF none2] row_group_rows ids)
  then show ?thesis using j by blast
qed

lemma fold_group_updates_other:
  assumes "obj_get m i = None"
  shows "row_of (foldl (group_rows pf rc now) rows (map snd (group_updates ds m))) i = row_of rows i"
proof (rule row_fold_none, rule ballI)
  fix g assume "g \<in> set (map snd (group_updates ds m))"
  then obtain k d ids where "(k, d, ids) \<in> set (group_updates ds m)" "g = (d, ids)" by auto
  moreover have "i \<notin> fst ` set m" using assms by (metis map_of_eq_None_iff)
  ultimately show "i \<notin> set (snd g)" using group_updates_mem(1) [of k d ids ds m] by auto
qed

lemma row_of_append: "row_of (rows @ xs) i = (case row_of rows i of None \<Rightarrow> row_of xs i | Some r \<Rightarrow> Some r)"
  by (induction rows) (simp_all add: row_of_def)

lemma checked_map_facts:
  assumes "checked_map mode p = Some m" and d: "distinct (obj_keys (case mode of OwnMap \<Rightarrow> p_statusMap p | Given g \<Rightarrow> g))"
  shows "distinct (obj_keys m)"
    and "(i, e) \<in> set m \<Longrightarrow> status_allowed e \<and> obj_get e ''attempts'' = None"
    and "(i, e) \<in> set m \<Longrightarrow> i \<in> set (obj_keys (p_selectedEventMap p)) \<union> ev_ID ` set (p_queueEntries p)"
proof -
  from assms(1) obtain nm where nm: "normalizeStatusMap (case mode of OwnMap \<Rightarrow> p_statusMap p | Given g \<Rightarrow> g) = Some nm"
    by (auto simp: checked_map_def split: option.splits)
  let ?sel = "ensureOnlySelectedQueueEntries (obj_keys (p_selectedEventMap p)) nm"
  let ?full = "if mode = OwnMap then ensureEveryQueueEntryHasStatus (obj_keys (p_commitedStatusMap p))
      (obj_keys (p_outdatedEventMap p)) (map ev_ID (p_queueEntries p)) ?sel else ?sel"
  have m: "m = ensureEveryStatusIsAllowed ?full"
    using assms(1) nm by (auto simp: checked_map_def Let_def)
  have "distinct (obj_keys nm)" using normalizeStatusMap_map [OF nm] d by simp
  then have "distinct (obj_keys ?full)"
    by (simp add: ensureOnlySelectedQueueEntries_def distinct_filter_keys distinct_ensureHas)
  then show "distinct (obj_keys m)"
    unfolding m ensureEveryStatusIsAllowed_def by (rule distinct_filter_keys)
  assume "(i, e) \<in> set m"
  then have al: "status_allowed e" and full: "(i, e) \<in> set ?full"
    unfolding m by (simp_all only: ensureEveryStatusIsAllowed_def set_filter mem_Collect_eq prod.case)
  from full have cases: "(i, e) \<in> set ?sel \<or> i \<in> ev_ID ` set (p_queueEntries p) \<and> e = [(''status'', JNum Done)]"
    using ensureHas_mem [of i e _ _ "map ev_ID (p_queueEntries p)" ?sel] by (auto split: if_splits)
  show "status_allowed e \<and> obj_get e ''attempts'' = None"
  proof (intro conjI al, use cases in \<open>elim disjE\<close>)
    assume "(i, e) \<in> set ?sel"
    then have "(i, e) \<in> set nm" by (simp add: ensureOnlySelectedQueueEntries_def)
    then show "obj_get e ''attempts'' = None" using normalizeStatusMap_map [OF nm] normalize_entry_clean by blast
  qed simp
  show "i \<in> set (obj_keys (p_selectedEventMap p)) \<union> ev_ID ` set (p_queueEntries p)"
    using cases by (auto simp: ensureOnlySelectedQueueEntries_def)
qed

abbreviation mode_map :: "persist_mode \<Rightarrow> processor \<Rightarrow> status_map" where
  "mode_map mode p \<equiv> (case mode of OwnMap \<Rightarrow> p_statusMap p | Given g \<Rightarrow> g)"

lemma group_updates_Nil: "group_updates ds m = [] \<longleftrightarrow> m = []"
proof (cases m)
  case (Cons e es)
  then have "obj_get (group_updates ds m) (group_key ds (snd e)) \<noteq> None" by (simp add: group_updates_get)
  then show ?thesis using Cons by auto
qed (simp add: group_updates_def)

text \<open>Persisting updates the rows group by group and inserts the events that follow.\<close>

lemma persist_table:
  assumes "persistEventStatus pf now mode (w, p) = Some (w', p')" "checked_map mode p = Some m"
  shows "w_events w' = foldl (group_rows pf (ec_retry (p_cfg p)) now) (w_events w) (map snd (group_updates (pf_dateStr pf) m))
      @ (if m = [] then [] else p_nextSagaEvents p)"
    and "w_biz w' = w_biz w"
proof -
  let ?gs = "map snd (group_updates (pf_dateStr pf) m)"
  define p1 where "p1 = (if mode = OwnMap then p\<lparr>p_statusMap := written_map pf now p m\<rparr> else p)"
  have cfg: "p_cfg p1 = p_cfg p" and ns: "p_nextSagaEvents p1 = p_nextSagaEvents p" by (simp_all add: p1_def)
  obtain w2 p2 where f: "foldl (\<lambda>s' g. persist_group pf now g s') (w, p1) ?gs = (w2, p2)" by fastforce
  have saga: "p_nextSagaEvents (snd (foldl (\<lambda>s' g. persist_group pf now g s') s gs)) = p_nextSagaEvents (snd s)" for s gs
  proof (induction gs arbitrary: s)
    case (Cons g gs)
    have "p_nextSagaEvents (snd (persist_group pf now g s)) = p_nextSagaEvents (snd s)"
      by (simp add: persist_group_def Let_def split: prod.splits)
    then show ?case by (simp add: Cons)
  qed simp
  have rows: "w_events w2 = foldl (group_rows pf (ec_retry (p_cfg p)) now) (w_events w) ?gs" "w_biz w2 = w_biz w"
    using persist_fold_rows [of pf now w p1 ?gs] f cfg by simp_all
  have res: "(w', p') = (if ?gs = [] then (w, p1) else insert_nextSagaEvents (w2, p2))"
    using assms f unfolding persistEventStatus_def p1_def by (simp add: Let_def split: if_splits)
  have "p_nextSagaEvents p2 = p_nextSagaEvents p" using saga [of "(w, p1)" ?gs] f ns by simp
  then show "w_events w' = foldl (group_rows pf (ec_retry (p_cfg p)) now) (w_events w) ?gs @ (if m = [] then [] else p_nextSagaEvents p)"
    "w_biz w' = w_biz w"
    using res rows by (auto simp: insert_nextSagaEvents_def group_updates_Nil group_updates_def [of _ "[]"] split: if_splits)
qed

lemma persist_rows:
  assumes "persistEventStatus pf now mode (w, p) = Some (w', p')" "checked_map mode p = Some m"
  shows "\<exists>extra. w_events w' =
      foldl (group_rows pf (ec_retry (p_cfg p)) now) (w_events w) (map snd (group_updates (pf_dateStr pf) m)) @ extra
    \<and> (extra = [] \<or> extra = p_nextSagaEvents p)"
    and "w_biz w' = w_biz w"
  using persist_table [OF assms] by (auto split: if_splits)

text \<open>The row an entry of the checked map ends with.\<close>

lemma persist_row:
  assumes ps: "persistEventStatus pf now mode (w, p) = Some (w', p')" "checked_map mode p = Some m"
    and dk: "distinct (obj_keys (mode_map mode p))" and r: "row_of (w_events w) i = Some r"
  shows "obj_get m i = None \<Longrightarrow> row_of (w_events w') i = Some r"
    and "obj_get m i = Some d \<Longrightarrow> \<exists>j d'. (j, d') \<in> set m \<and> js_prop d' ''status'' = js_prop d ''status''
      \<and> group_key (pf_dateStr pf) d' = group_key (pf_dateStr pf) d
      \<and> row_of (w_events w') i = Some (set_columns now (prepare_update (pf_parseDate pf) (ec_retry (p_cfg p)) now d') r)"
proof -
  let ?rows = "foldl (group_rows pf (ec_retry (p_cfg p)) now) (w_events w) (map snd (group_updates (pf_dateStr pf) m))"
  obtain extra where w': "w_events w' = ?rows @ extra" using persist_rows(1) [OF ps] by blast
  note facts = checked_map_facts [OF ps(2) dk]
  show "row_of (w_events w') i = Some r" if "obj_get m i = None"
    using fold_group_updates_other [OF that] r by (simp add: w' row_of_append)
  assume d: "obj_get m i = Some d"
  have has: "\<forall>(j, e)\<in>set m. obj_has e ''status''"
    using facts(2) by (fastforce simp: status_allowed_def js_prop_def split: option.splits)
  have "(i, d) \<in> set m" using d by (rule map_of_SomeD)
  then have hd: "obj_has d ''status''" using has by auto
  from fold_group_updates_row [OF facts(1) d hd has] obtain j d' where j: "(j, d') \<in> set m"
    "group_key (pf_dateStr pf) d' = group_key (pf_dateStr pf) d"
    "row_of ?rows i = map_option (set_columns now (prepare_update (pf_parseDate pf) (ec_retry (p_cfg p)) now d')) (row_of (w_events w) i)"
    by blast
  have "js_prop d' ''status'' = js_prop d ''status''"
    using group_key_status [of d' d] facts(2) j(1,2) \<open>(i, d) \<in> set m\<close> by blast
  then show "\<exists>j d'. (j, d') \<in> set m \<and> js_prop d' ''status'' = js_prop d ''status''
      \<and> group_key (pf_dateStr pf) d' = group_key (pf_dateStr pf) d
      \<and> row_of (w_events w') i = Some (set_columns now (prepare_update (pf_parseDate pf) (ec_retry (p_cfg p)) now d') r)"
    using j r by (auto simp: w' row_of_append)
qed

subsection \<open>Properties of persisting\<close>


subsection \<open>Lemmas on claiming\<close>

lemma clusterEvents_fold:
  "foldl (cluster_step n ref) c rows =
     \<lparr>cl_exceededTries = cl_exceededTries c @ filter (\<lambda>r. ev_attempts r \<noteq> n + TRIES_FOR_EXCEEDED_EVENTS \<and> n \<le> ev_attempts r) rows,
      cl_openEvents = cl_openEvents c @ filter (\<lambda>r. ev_attempts r \<noteq> n + TRIES_FOR_EXCEEDED_EVENTS \<and> ev_attempts r < n \<and> \<not> isDelayedEvent ref r) rows,
      cl_exceededTriesExceeded = cl_exceededTriesExceeded c @ filter (\<lambda>r. ev_attempts r = n + TRIES_FOR_EXCEEDED_EVENTS) rows,
      cl_delayedEvents = cl_delayedEvents c @ filter (\<lambda>r. ev_attempts r \<noteq> n + TRIES_FOR_EXCEEDED_EVENTS \<and> ev_attempts r < n \<and> isDelayedEvent ref r) rows\<rparr>"
proof (induction rows arbitrary: c)
  case (Cons r rows)
  show ?case unfolding foldl_Cons Cons.IH by (auto simp: cluster_step_def)
qed simp

lemma clusterEvents_simps [simp]:
  "cl_exceededTries (clusterEvents n ref rows)
     = filter (\<lambda>r. ev_attempts r \<noteq> n + TRIES_FOR_EXCEEDED_EVENTS \<and> n \<le> ev_attempts r) rows"
  "cl_exceededTriesExceeded (clusterEvents n ref rows) = filter (\<lambda>r. ev_attempts r = n + TRIES_FOR_EXCEEDED_EVENTS) rows"
  "cl_openEvents (clusterEvents n ref rows)
     = filter (\<lambda>r. ev_attempts r < n \<and> \<not> isDelayedEvent ref r) rows"
  "cl_delayedEvents (clusterEvents n ref rows) = filter (\<lambda>r. ev_attempts r < n \<and> isDelayedEvent ref r) rows"
  by (auto simp: clusterEvents_def clusterEvents_fold TRIES_FOR_EXCEEDED_EVENTS_def intro!: filter_cong)

lemma handleDelayed_facts:
  "w_events (fst (handleDelayedEvents sk now rs s)) = w_events (fst s)
   \<and> w_biz (fst (handleDelayedEvents sk now rs s)) = w_biz (fst s)
   \<and> (\<exists>ids. snd (handleDelayedEvents sk now rs s)
        = (snd s)\<lparr>p_cfg := (p_cfg (snd s))\<lparr>ec_selectedDelayedEventIds := ids\<rparr>\<rparr>)"
  unfolding handleDelayedEvents_def
proof (induction rs arbitrary: s)
  case Nil
  show ?case by (auto intro!: exI [of _ "ec_selectedDelayedEventIds (p_cfg (snd s))"])
next
  case (Cons r rs)
  obtain w p where s: "s = (w, p)" by fastforce
  have "\<exists>ids. snd (handleDelayedEvent sk now s r) = p\<lparr>p_cfg := (p_cfg p)\<lparr>ec_selectedDelayedEventIds := ids\<rparr>\<rparr>"
  proof (cases sk)
    case True
    then show ?thesis
      by (auto simp: handleDelayedEvent_def s intro!: exI [of _ "ec_selectedDelayedEventIds (p_cfg p)"])
  qed (auto simp: handleDelayedEvent_def s)
  moreover have "w_events (fst (handleDelayedEvent sk now s r)) = w_events w"
    "w_biz (fst (handleDelayedEvent sk now s r)) = w_biz w"
    by (simp_all add: handleDelayedEvent_def s)
  ultimately show ?case using Cons [of "handleDelayedEvent sk now s r"] by (force simp: s)
qed

lemma claim_row_simps [simp]:
  "ev_ID (claim_row now r) = ev_ID r" "ev_ID (fail_row now r) = ev_ID r" "ev_ID (claim_entry now r) = ev_ID r"
  by (simp_all add: claim_row_def fail_row_def claim_entry_def)

abbreviation selected_rows :: "global_cfg \<Rightarrow> time \<Rightarrow> processor \<Rightarrow> event_table \<Rightarrow> event_row list" where
  "selected_rows gc now p rows \<equiv> select_ordered (selectable gc p now) (p_selectMaxChunkSize p) rows"

text \<open>Claiming in one equation each for the table and the entries.\<close>

definition claimed_table :: "global_cfg \<Rightarrow> time \<Rightarrow> processor \<Rightarrow> event_table \<Rightarrow> event_table" where
  "claimed_table gc now p rows =
     (let c = claim_clusters gc now p rows;
          failed = (if ec_isPeriodic (p_cfg p) then cl_exceededTries c else [])
      in update_where (id_in (map ev_ID (events_for_processing p c))) (claim_row now)
           (update_where (id_in (map ev_ID failed)) (fail_row now) rows))"

lemma update_where_none: "(\<And>r. r \<in> set rows \<Longrightarrow> \<not> P r) \<Longrightarrow> update_where P f rows = rows"
  by (simp add: update_where_def map_idI)

lemma id_in_Nil [simp]: "id_in [] r = False"
  by (simp add: id_in_def)

lemma claim_clusters_Nil:
  "selected_rows gc now p rows = [] \<Longrightarrow> events_for_processing p (claim_clusters gc now p rows) = []
     \<and> cl_openEvents (claim_clusters gc now p rows) = [] \<and> cl_exceededTries (claim_clusters gc now p rows) = []"
  by (simp add: claim_clusters_def events_for_processing_def)

lemma getQueueEntries_eq:
  assumes "getQueueEntriesAndSetToInProgress gc now (w, p) = ((w', p'), res)"
  shows "w_events w' = claimed_table gc now p (w_events w)"
    and "res = map (claim_entry now) (cl_openEvents (claim_clusters gc now p (w_events w)))"
    and "w_biz w' = w_biz w"
proof -
  let ?c = "claim_clusters gc now p (w_events w)"
  obtain w2 p2 where hd: "handleDelayedEvents False now (cl_delayedEvents ?c)
      (w, p\<lparr>p_selectedEventMap := arrayToFlatMap (map (claim_entry now) (events_for_processing p ?c)),
            p_eventsWithExceededTries :=
              (if \<not> ec_isPeriodic (p_cfg p) \<and> cl_exceededTries ?c \<noteq> [] then map (claim_entry now) (cl_exceededTries ?c)
               else p_eventsWithExceededTries p),
            p_exceededTriesExceeded :=
              (if cl_exceededTriesExceeded ?c \<noteq> [] then map (claim_entry now) (cl_exceededTriesExceeded ?c)
               else p_exceededTriesExceeded p)\<rparr>) = (w2, p2)" by fastforce
  have w2: "w_events w2 = w_events w" "w_biz w2 = w_biz w"
    using handleDelayed_facts [of False now "cl_delayedEvents ?c"] by (metis fst_conv hd)+
  have open_sub: "events_for_processing p ?c = [] \<Longrightarrow> cl_openEvents ?c = []"
    by (simp add: events_for_processing_def)
  show "w_events w' = claimed_table gc now p (w_events w)"
    "res = map (claim_entry now) (cl_openEvents (claim_clusters gc now p (w_events w)))" "w_biz w' = w_biz w"
    using assms claim_clusters_Nil [of gc p now "w_events w"] w2 open_sub
    by (auto simp: getQueueEntriesAndSetToInProgress_def claimed_table_def set_in_progress_def Let_def hd
        update_where_none split: if_splits)
qed

lemma claim_clusters_mem:
  "r \<in> set (events_for_processing p (claim_clusters gc now p rows)) \<Longrightarrow> r \<in> set rows \<and> selectable gc p now r"
  "r \<in> set (cl_exceededTries (claim_clusters gc now p rows)) \<Longrightarrow> r \<in> set rows \<and> selectable gc p now r"
  "r \<in> set (cl_openEvents (claim_clusters gc now p rows)) \<Longrightarrow> r \<in> set (events_for_processing p (claim_clusters gc now p rows))"
  by (auto simp: claim_clusters_def events_for_processing_def dest: select_orderedD split: if_splits)

lemma table_ok_inj: "table_ok rows \<Longrightarrow> r \<in> set rows \<Longrightarrow> r' \<in> set rows \<Longrightarrow> ev_ID r = ev_ID r' \<Longrightarrow> r = r'"
  by (metis option.inject row_of_member)

lemma row_claimed_table:
  assumes ok: "table_ok rows" and r: "r \<in> set rows"
  shows "row_of (claimed_table gc now p rows) (ev_ID r) = Some
    (if r \<in> set (events_for_processing p (claim_clusters gc now p rows)) then claim_row now
       (if ec_isPeriodic (p_cfg p) \<and> r \<in> set (cl_exceededTries (claim_clusters gc now p rows)) then fail_row now r else r)
     else if ec_isPeriodic (p_cfg p) \<and> r \<in> set (cl_exceededTries (claim_clusters gc now p rows)) then fail_row now r
     else r)"
proof -
  have mem: "ev_ID r \<in> ev_ID ` set xs \<longleftrightarrow> r \<in> set xs" if "\<And>x. x \<in> set xs \<Longrightarrow> x \<in> set rows" for xs
    using table_ok_inj [OF ok r] that by (metis image_iff)
  have m1: "ev_ID r \<in> ev_ID ` set (events_for_processing p (claim_clusters gc now p rows))
      \<longleftrightarrow> r \<in> set (events_for_processing p (claim_clusters gc now p rows))"
    by (rule mem) (blast dest: claim_clusters_mem(1))
  have m2: "ev_ID r \<in> ev_ID ` set (cl_exceededTries (claim_clusters gc now p rows))
      \<longleftrightarrow> r \<in> set (cl_exceededTries (claim_clusters gc now p rows))"
    by (rule mem) (blast dest: claim_clusters_mem(2))
  show ?thesis
    by (cases "ec_isPeriodic (p_cfg p)")
      (simp_all add: claimed_table_def Let_def row_of_update_ids row_of_member [OF ok r] m1 m2 update_where_none)
qed

lemma table_ok_claimed: "table_ok rows \<Longrightarrow> table_ok (claimed_table gc now p rows)"
  by (auto simp: claimed_table_def Let_def intro!: table_ok_update_where)

lemma cl_open_distinct: "table_ok rows \<Longrightarrow> distinct (map ev_ID (cl_openEvents (claim_clusters gc now p rows)))"
  by (simp add: claim_clusters_def distinct_map_filter distinct_select_ordered)

lemma cl_open_length:
  assumes "0 \<le> p_selectMaxChunkSize p"
  shows "int (length (cl_openEvents (claim_clusters gc now p rows))) \<le> p_selectMaxChunkSize p"
proof -
  have "length (cl_openEvents (claim_clusters gc now p rows)) \<le> length (selected_rows gc now p rows)"
    by (simp add: claim_clusters_def)
  then show ?thesis using length_select_ordered [OF assms, of "selectable gc p now" rows] by linarith
qed

lemma select_ordered_all:
  "int (length rows) \<le> n \<Longrightarrow> r \<in> set rows \<Longrightarrow> P r \<Longrightarrow> r \<in> set (select_ordered P n rows)"
proof -
  assume n: "int (length rows) \<le> n" and r: "r \<in> set rows" "P r"
  have "length (filter P rows) \<le> length rows" by simp
  then have "length (filter P rows) \<le> nat n" using n by linarith
  then have "length (sort_key (\<lambda>r. (ev_createdAt r, ev_ID r)) (filter P rows)) \<le> nat n" by simp
  then show ?thesis using r by (simp add: select_ordered_def)
qed

lemma not_delayed_now:
  assumes "0 \<le> now" "0 \<le> runInterval gc"
  shows "now \<le> refDateDelayed gc (refDateStartAfter gc now)"
proof -
  define q where "q = (10 * now + 12 * runInterval gc) div 10"
  have q: "10 * now + 12 * runInterval gc - 9 \<le> 10 * q" unfolding q_def by linarith
  then have n: "0 \<le> 10 * q - 12 * runInterval gc + 30000" using assms by linarith
  have "now \<le> (10 * q - 12 * runInterval gc + 30000) div 10" using q by linarith
  moreover have "refDateStartAfter gc now = q" using assms by (simp add: refDateStartAfter_def q_def)
  ultimately show ?thesis using n by (simp add: refDateDelayed_def EVENT_START_AFTER_HEADROOM_def)
qed

subsection \<open>Properties of claiming\<close>


text \<open>
  C6. Entries are not processed twice: what one run has claimed, no other run claims on the table
  that claim left, until the keep alive limit of the second run has passed since the claim.
\<close>

theorem no_double_claim:
  assumes "table_ok (w_events w)"
    and "getQueueEntriesAndSetToInProgress gc now (w, p) = ((w1, p1), res)"
    and "getQueueEntriesAndSetToInProgress gc2 now2 (w1, q) = ((w2, q2), res2)"
    and "now2 < now + ec_keepAliveMaxInProgressTime (p_cfg q) * 100"
  shows "set (map ev_ID res) \<inter> set (map ev_ID res2) = {}"
proof -
  note eq = getQueueEntries_eq [OF assms(2)] and eq2 = getQueueEntries_eq [OF assms(3)]
  have False if e: "e \<in> set res" "e' \<in> set res2" "ev_ID e = ev_ID e'" for e e'
  proof -
    obtain r where r: "e = claim_entry now r" "r \<in> set (cl_openEvents (claim_clusters gc now p (w_events w)))"
      using e(1) by (auto simp: eq)
    have rt: "r \<in> set (w_events w)" using claim_clusters_mem(1,3) r(2) by blast
    have "ev_attempts r < p_retryAttempts p" using r(2) by (simp add: claim_clusters_def)
    then have "r \<notin> set (cl_exceededTries (claim_clusters gc now p (w_events w)))" by (simp add: claim_clusters_def)
    then have row: "row_of (w_events w1) (ev_ID r) = Some (claim_row now r)"
      using row_claimed_table [OF assms(1) rt] claim_clusters_mem(3) [OF r(2)] by (simp add: eq)
    obtain r' where r': "e' = claim_entry now2 r'" "r' \<in> set (cl_openEvents (claim_clusters gc2 now2 q (w_events w1)))"
      using e(2) by (auto simp: eq2)
    then have sel: "r' \<in> set (w_events w1)" "selectable gc2 q now2 r'"
      using claim_clusters_mem(1,3) by blast+
    have "table_ok (w_events w1)" using table_ok_claimed [OF assms(1)] by (simp add: eq)
    then have "r' = claim_row now r" using row_of_member [OF _ sel(1)] row e(3) r(1) r'(1) by simp
    then show False using sel(2) assms(4)
      by (simp add: selectable_def status_selectable_def claim_row_def status_defs stuckBefore_def)
  qed
  then show ?thesis by auto
qed

text \<open>Due rows end in the open cluster.\<close>

lemma due_entry_claimed:
  assumes "getQueueEntriesAndSetToInProgress gc now (w, p) = ((w', p'), res)"
    and "int (length (w_events w)) \<le> p_selectMaxChunkSize p" "\<not> ec_isPeriodic (p_cfg p)"
    and "r \<in> set (w_events w)" "ev_type r = p_type p" "ev_subType r = p_subType p" "ev_namespace r = ec_namespace (p_cfg p)"
    and "0 \<le> now" "0 \<le> runInterval gc" "ev_startAfter r = None \<or> sql_le (ev_startAfter r) now"
    and "ev_ID r \<notin> set (ec_selectedDelayedEventIds (p_cfg p))" "ev_attempts r < p_retryAttempts p"
    and "ev_status r = Open \<and> ev_lastAttemptTimestamp r = None
      \<or> ev_status r \<in> {Open, Error} \<and> sql_le (ev_lastAttemptTimestamp r) (ec_startTime (p_cfg p))
      \<or> ev_status r = InProgress \<and> sql_le (ev_lastAttemptTimestamp r) (now - ec_keepAliveMaxInProgressTime (p_cfg p) * 100)"
  shows "claim_entry now r \<in> set res"
proof -
  have ref: "now \<le> refDateStartAfter gc now" using assms(8,9) by (simp add: refDateStartAfter_def)
  have del: "now \<le> refDateDelayed gc (refDateStartAfter gc now)"
    using not_delayed_now [OF assms(8,9)] .
  have "selectable gc p now r"
    using assms(5-7,10,11,13) ref assms(3)
    by (cases "ev_startAfter r"; cases "ev_lastAttemptTimestamp r")
      (auto simp: selectable_def status_selectable_def stuckBefore_def)
  then have "r \<in> set (selected_rows gc now p (w_events w))" using select_ordered_all [OF assms(2,4)] by blast
  moreover have "\<not> isDelayedEvent (refDateDelayed gc (refDateStartAfter gc now)) r"
    using del assms(10) by (cases "ev_startAfter r") (auto simp: isDelayedEvent_def)
  ultimately have "r \<in> set (cl_openEvents (claim_clusters gc now p (w_events w)))"
    using assms(12) by (simp add: claim_clusters_def)
  then show ?thesis by (simp add: getQueueEntries_eq(2) [OF assms(1)])
qed


text \<open>
  C9. Attempts are counted per outcome: an entry that is claimed and then persisted has one attempt
  more than before, unless the outcome is \<open>Open\<close>, which leaves the number of attempts as it was.
\<close>

theorem attempts_count_outcomes:
  assumes "table_ok (w_events w)"
    and "getQueueEntriesAndSetToInProgress gc now (w, p) = ((w1, p1), res)"
    and "r \<in> set (w_events w)" "claim_entry now r \<in> set res"
    and "persistEventStatus pf now2 mode (w1, p2) = Some (w2, p3)" "checked_map mode p2 = Some m"
    and "distinct (obj_keys (mode_map mode p2))" "obj_get m (ev_ID r) = Some d"
  shows "\<exists>r'. row_of (w_events w2) (ev_ID r) = Some r' \<and> JNum (ev_status r') = js_prop d ''status''
    \<and> ev_attempts r' = (if ev_status r' = Open then ev_attempts r else ev_attempts r + 1)"
proof -
  note eq = getQueueEntries_eq [OF assms(2)]
  let ?c = "claim_clusters gc now p (w_events w)"
  obtain r0 where r0: "claim_entry now r = claim_entry now r0" "r0 \<in> set (cl_openEvents ?c)"
    using assms(4) by (auto simp: eq)
  have "ev_ID r = ev_ID r0" by (metis r0(1) claim_row_simps(3))
  then have r: "r \<in> set (cl_openEvents ?c)"
    using table_ok_inj [OF assms(1,3)] claim_clusters_mem(1,3) r0(2) by metis
  then have "r \<notin> set (cl_exceededTries ?c)" by (simp add: claim_clusters_def)
  then have "row_of (w_events w1) (ev_ID r) = Some (claim_row now r)"
    using row_claimed_table [OF assms(1,3), of gc now p] claim_clusters_mem(3) [OF r] by (simp add: eq)
  from persist_row(2) [OF assms(5-7) this assms(8)] obtain j d' where j: "(j, d') \<in> set m"
    "js_prop d' ''status'' = js_prop d ''status''"
    "row_of (w_events w2) (ev_ID r) = Some (set_columns now2 (prepare_update (pf_parseDate pf) (ec_retry (p_cfg p2)) now2 d') (claim_row now r))"
    by blast
  note al = checked_map_facts(2) [OF assms(6,7) j(1)]
  then obtain n where n: "js_prop d' ''status'' = JNum n" by (auto simp: status_allowed_def)
  show ?thesis
    using j n written_status [OF n] written_attempts [OF conjunct2 [OF al] n] by (auto simp: claim_row_def)
qed

subsection \<open>Exceeded entries\<close>

lemma add_tuples_fresh:
  assumes "distinct (map ev_ID rs)" "\<forall>r\<in>set rs. ev_ID r \<notin> set (obj_keys m)"
  shows "add_tuples ds (map (\<lambda>r. report (ev_ID r) st) rs) m
    = (m @ map (\<lambda>r. (ev_ID r, JObj [(''status'', JNum st)])) rs, False)"
  using assms
proof (induction rs arbitrary: m)
  case (Cons r rs)
  have "ev_ID r \<notin> set (obj_keys m)" using Cons.prems(2) by simp
  then have "js_prop m (ev_ID r) = JUndef"
    by (metis js_prop_def map_of_eq_None_iff list.set_map option.simps(4))
  then have add: "add_status (ev_ID r) st JUndef m = m @ [(ev_ID r, JObj [(''status'', JNum st)])]"
    using \<open>ev_ID r \<notin> set (obj_keys m)\<close> by (simp add: add_status_new obj_set_fresh)
  have "\<forall>r'\<in>set rs. ev_ID r' \<notin> set (obj_keys (m @ [(ev_ID r, JObj [(''status'', JNum st)])]))"
    using Cons.prems by (auto simp: image_iff)
  from Cons.IH [OF _ this] show ?case using Cons.prems(1) by (simp add: add_status_eq add)
qed simp

lemma normalize_uniform:
  "normalizeStatusMap (map (\<lambda>r. (ev_ID r, JObj [(''status'', JNum st)])) rs)
     = Some (map (\<lambda>r. (ev_ID r, [(''status'', JNum st)])) rs)"
  by (induction rs) (simp_all add: pick_fields_def ALLOWED_FIELDS_FOR_UPDATE_def)

lemma map_of_uniform: "map_of (map (\<lambda>r. (f r, c)) rs) i = (if i \<in> f ` set rs then Some c else None)"
  by (induction rs) auto

text \<open>Persisting one status for a list of selected entries.\<close>

lemma persist_exceeded:
  assumes "distinct (map ev_ID rs)" "\<forall>r\<in>set rs. ev_ID r \<in> set (obj_keys (p_selectedEventMap p))"
    and st: "st \<in> {Open, Done, Error, Exceeded}"
  shows "\<exists>w' p'. persistEventQueueStatusForExceeded pf now rs st (w, p) = Some (w', p')
    \<and> w_biz w' = w_biz w
    \<and> (\<forall>i row. row_of (w_events w) i = Some row \<longrightarrow> row_of (w_events w') i =
         Some (if i \<in> ev_ID ` set rs
               then set_columns now (prepare_update (pf_parseDate pf) (ec_retry (p_cfg p)) now [(''status'', JNum st)]) row
               else row))"
proof -
  let ?g = "map (\<lambda>r. (ev_ID r, JObj [(''status'', JNum st)])) rs"
  let ?m = "map (\<lambda>r. (ev_ID r, [(''status'', JNum st)])) rs"
  have g: "setEventStatus_on (pf_dateStr pf) (map ev_ID rs) (JArr (map (\<lambda>r. report (ev_ID r) st) rs)) [] = ?g"
    using add_tuples_fresh [OF assms(1), of "[]" "pf_dateStr pf" st] by (simp add: setEventStatus_on_def)
  have sel: "filter (\<lambda>(i, d). i \<in> set (obj_keys (p_selectedEventMap p))) ?m = ?m"
    using assms(2) by (simp add: filter_id_conv)
  have al: "filter (\<lambda>(i, d). status_allowed d) ?m = ?m"
    using st by (simp add: filter_id_conv status_allowed_def image_iff)
  have cm: "checked_map (Given ?g) p = Some ?m"
    by (simp add: checked_map_def normalize_uniform ensureOnlySelectedQueueEntries_def sel
        ensureEveryStatusIsAllowed_def al del: set_map)
  obtain w' p' where ps: "persistEventStatus pf now (Given ?g) (w, p) = Some (w', p')"
    using cm by (fastforce simp: persistEventStatus_def Let_def)
  have dk: "distinct (obj_keys (mode_map (Given ?g) p))" using assms(1) by (simp add: comp_def)
  have "row_of (w_events w') i = Some (if i \<in> ev_ID ` set rs
      then set_columns now (prepare_update (pf_parseDate pf) (ec_retry (p_cfg p)) now [(''status'', JNum st)]) row
      else row)" if "row_of (w_events w) i = Some row" for i row
    using persist_row(1) [OF ps cm dk that] persist_row(2) [OF ps cm dk that, of "[(''status'', JNum st)]"]
    by (cases "i \<in> ev_ID ` set rs") (auto simp: map_of_uniform)
  then show ?thesis
    using ps g persist_rows(2) [OF ps cm]
    by (simp add: persistEventQueueStatusForExceeded_def setEventStatus_def)
qed

text \<open>
  Entries whose retries are exceeded: the hook is called with the entry and the business data.
  When it succeeds, what it did is committed together with the status \<open>Exceeded\<close>; when it throws, the
  business data stays as it was and the entry is set to \<open>Error\<close>, to be tried again after the retry
  delay.
\<close>

theorem exceeded_hook_outcome:
  assumes "ev_ID r \<in> set (obj_keys (p_selectedEventMap p))" "row_of (w_events w) (ev_ID r) = Some row"
  shows "\<exists>w' p' row'. handleExceededEvent pf hook now r (w, p) = Some (w', p')
    \<and> row_of (w_events w') (ev_ID r) = Some row' \<and> ev_attempts row' = ev_attempts row
    \<and> (case hook (modifyQueueEntry pf r) (w_biz w) of
         Inr b \<Rightarrow> w_biz w' = b \<and> ev_status row' = Exceeded
       | Inl err \<Rightarrow> w_biz w' = w_biz w \<and> ev_status row' = Error
           \<and> ev_startAfter row' = Some (now + retryFailedAfter (ec_retry (p_cfg p))))"
proof (cases "hook (modifyQueueEntry pf r) (w_biz w)")
  case (Inr b)
  obtain w' p' where w': "persistEventQueueStatusForExceeded pf now [r] Exceeded (w\<lparr>w_biz := b\<rparr>, p) = Some (w', p')"
    "w_biz w' = b" "row_of (w_events w') (ev_ID r) = Some (set_columns now
       (prepare_update (pf_parseDate pf) (ec_retry (p_cfg p)) now [(''status'', JNum Exceeded)]) row)"
    using persist_exceeded [of "[r]" p Exceeded pf now "w\<lparr>w_biz := b\<rparr>"] assms by auto
  then show ?thesis
    using written_row [of "[(''status'', JNum Exceeded)]" Exceeded]
    by (simp add: handleExceededEvent_def Inr status_defs)
next
  case (Inl err)
  obtain w' p' where w': "persistEventQueueStatusForExceeded pf now [r] Error (w, p) = Some (w', p')"
    "w_biz w' = w_biz w" "row_of (w_events w') (ev_ID r) = Some (set_columns now
       (prepare_update (pf_parseDate pf) (ec_retry (p_cfg p)) now [(''status'', JNum Error)]) row)"
    using persist_exceeded [of "[r]" p Error pf now w] assms by auto
  have sa: "obj_get (prepare_update (pf_parseDate pf) (ec_retry (p_cfg p)) now [(''status'', JNum Error)]) ''startAfter''
      = Some (JDate (now + retryFailedAfter (ec_retry (p_cfg p))))"
    by (subst prepare_update_startAfter) (simp_all add: has_status_iff)
  have "ev_startAfter (set_columns now (prepare_update (pf_parseDate pf) (ec_retry (p_cfg p)) now [(''status'', JNum Error)]) row)
      = Some (now + retryFailedAfter (ec_retry (p_cfg p)))" by (simp add: set_columns_def sa)
  then show ?thesis
    using w' written_status [of "[(''status'', JNum Error)]" Error] written_attempts [of "[(''status'', JNum Error)]" Error]
    by (simp add: handleExceededEvent_def Inl status_defs)
qed

text \<open>
  The hook is not tried forever: the entries that claiming put aside because they had the
  configured attempts plus three are set to \<open>Exceeded\<close> without calling the hook, and no other row
  changes.
\<close>

theorem exceeded_hook_is_given_up:
  assumes "distinct (map ev_ID (p_exceededTriesExceeded p))"
    and "\<forall>r\<in>set (p_exceededTriesExceeded p). ev_ID r \<in> set (obj_keys (p_selectedEventMap p))"
  shows "\<exists>w' p'. handleExceededTriesExceeded pf now (w, p) = Some (w', p') \<and> w_biz w' = w_biz w
    \<and> (\<forall>i row. row_of (w_events w) i = Some row \<longrightarrow>
         (\<exists>row'. row_of (w_events w') i = Some row' \<and>
            (if i \<in> ev_ID ` set (p_exceededTriesExceeded p)
             then ev_status row' = Exceeded \<and> ev_attempts row' = ev_attempts row else row' = row)))"
proof (cases "p_exceededTriesExceeded p = []")
  case True
  then show ?thesis by (simp add: handleExceededTriesExceeded_def)
next
  case False
  obtain w' p' where w': "persistEventQueueStatusForExceeded pf now (p_exceededTriesExceeded p) Exceeded (w, p) = Some (w', p')"
    "w_biz w' = w_biz w" and rows: "\<And>i row. row_of (w_events w) i = Some row \<Longrightarrow> row_of (w_events w') i =
         Some (if i \<in> ev_ID ` set (p_exceededTriesExceeded p)
               then set_columns now (prepare_update (pf_parseDate pf) (ec_retry (p_cfg p)) now [(''status'', JNum Exceeded)]) row
               else row)"
    using persist_exceeded [OF assms, of Exceeded pf now w] by auto
  show ?thesis
    using w' False rows written_status [of "[(''status'', JNum Exceeded)]" Exceeded]
      written_attempts [of "[(''status'', JNum Exceeded)]" Exceeded]
    by (simp add: handleExceededTriesExceeded_def status_defs)
qed

subsection \<open>Periodic events\<close>

text \<open>
  Every run of a periodic event plans its successor: exactly one open row of the same type is
  added.  For a cron event it starts at the date the cron expression reports plus the random
  offset; for an interval event one interval after the start of the current one plus the offset,
  or in five seconds when that is a whole interval or more in the past.  The next round follows
  immediately only for an interval event that is already due.
\<close>

theorem periodic_successor:
  assumes "scheduleNextPeriodEvent gc cronNext rnd uuid now r (w, p) = ((w', p'), again)"
    and "\<And>x. 0 \<le> rnd x" "\<And>expr. now < cronNext expr now" "0 < ec_interval (p_cfg p)" "0 < runInterval gc"
  shows "\<exists>row t. w_events w' = w_events w @ [row] \<and> ev_ID row = uuid \<and> ev_startAfter row = Some t
    \<and> ev_status row = Open \<and> ev_attempts row = 0 \<and> ev_type row = p_type p \<and> ev_subType row = p_subType p
    \<and> ev_namespace row = ec_namespace (p_cfg p)
    \<and> (case ec_cron (p_cfg p) of
         Some expr \<Rightarrow> t = cronNext expr now + calculateRandomOffset gc rnd (p_cfg p) \<and> \<not> again
       | None \<Rightarrow>
           let interval = ec_interval (p_cfg p) * 1000;
               planned = or_default (ev_startAfter r) 0 + interval + calculateRandomOffset gc rnd (p_cfg p)
           in t = (if planned \<le> now - interval then now + 5000 else planned)
              \<and> now - interval < t \<and> (again \<longleftrightarrow> 10 * interval < 15 * runInterval gc \<and> t \<le> now))"
proof -
  have off: "0 \<le> calculateRandomOffset gc rnd (p_cfg p)"
    using assms(2) by (simp add: calculateRandomOffset_def Let_def split: option.splits)
  define t where "t = shiftedStartAfter (p_cfg p) now (plannedStartAfter gc cronNext rnd (p_cfg p) now r)"
  define row where "row = new_row uuid now (p_type p) (p_subType p) (ec_namespace (p_cfg p)) (Some t)"
  have res: "(w', p') = (if 10 * intervalInMs (p_cfg p) < 15 * runInterval gc
      then handleDelayedEvents True now [row] (w\<lparr>w_events := w_events w @ [row]\<rparr>, p)
      else (w\<lparr>w_events := w_events w @ [row]\<rparr>, p))"
    and ag: "again \<longleftrightarrow> 10 * intervalInMs (p_cfg p) < 15 * runInterval gc \<and> t \<le> now"
    using assms(1) unfolding scheduleNextPeriodEvent_def Let_def prod.case t_def [symmetric] row_def [symmetric]
    by (simp_all add: calculateOffset_def split: if_splits)
  have ev: "w_events w' = w_events w @ [row]"
    using res handleDelayed_facts [of True now "[row]" "(w\<lparr>w_events := w_events w @ [row]\<rparr>, p)"]
    by (metis (no_types, lifting) fst_conv world.select_convs(1) world.surjective world.update_convs(1))
  have "case ec_cron (p_cfg p) of
         Some expr \<Rightarrow> t = cronNext expr now + calculateRandomOffset gc rnd (p_cfg p) \<and> \<not> again
       | None \<Rightarrow>
           let interval = ec_interval (p_cfg p) * 1000;
               planned = or_default (ev_startAfter r) 0 + interval + calculateRandomOffset gc rnd (p_cfg p)
           in t = (if planned \<le> now - interval then now + 5000 else planned)
              \<and> now - interval < t \<and> (again \<longleftrightarrow> 10 * interval < 15 * runInterval gc \<and> t \<le> now)"
  proof (cases "ec_cron (p_cfg p)")
    case (Some expr)
    then show ?thesis
      using assms(3) [of expr] off ag
      by (simp add: t_def shiftedStartAfter_def plannedStartAfter_def calculateOffset_def Let_def)
  next
    case None
    have i: "intervalInMs (p_cfg p) = ec_interval (p_cfg p) * 1000" "0 < ec_interval (p_cfg p) * 1000"
      using None assms(4) by (simp_all add: intervalInMs_def)
    have "t = (if plannedStartAfter gc cronNext rnd (p_cfg p) now r \<le> now - ec_interval (p_cfg p) * 1000
        then now + 5000 else plannedStartAfter gc cronNext rnd (p_cfg p) now r)"
      using i by (auto simp: t_def shiftedStartAfter_def calculateOffset_def Let_def)
    then show ?thesis
      using ag i by (simp add: None Let_def plannedStartAfter_def split: if_splits)
  qed
  then show ?thesis
    using ev by (intro exI [of _ row] exI [of _ t]) (simp add: row_def new_row_def)
qed

text \<open>
  When several entries of one periodic event are found, the first of them is always used and all
  others are set to \<open>Done\<close>, whatever their start dates: the comparison that is meant to keep the latest
  one reads a property that does not exist.
\<close>

theorem duplicates_keep_first:
  "handleDuplicatedPeriodicEventEntry (r # rs) w
     = (setPeriodicEventStatus (map ev_ID rs) Done JUndef w, Some r)"
proof -
  have "pick_duplicate r ob rs = (r, ob @ rs)" for ob
    by (induction rs arbitrary: ob) (simp_all add: queueEntry_val_def js_ge_def split: jsval.splits)
  then show ?thesis by (simp add: handleDuplicatedPeriodicEventEntry_def)
qed

subsection \<open>Witnesses\<close>

text \<open>One table with an open entry, a failed one, one whose retries are exceeded and one whose hook
  failed three times; all properties are applied to it.\<close>

definition demo_pf :: platform where
  "demo_pf = \<lparr>pf_dateStr = (\<lambda>t. []), pf_parseDate = (\<lambda>s. None), pf_parseJson = (\<lambda>s. None)\<rparr>"

definition demo_gc :: global_cfg where
  "demo_gc = \<lparr>runInterval = 1500000, randomOffsetPeriodicEvents = None\<rparr>"

definition demo_cfg :: event_cfg where
  "demo_cfg = \<lparr>ec_namespace = ''default'', ec_isPeriodic = False, ec_parallelEventProcessing = None,
     ec_multiInstanceProcessing = False, ec_retryAttempts = Some 3, ec_selectMaxChunkSize = None,
     ec_checkForNextChunk = True, ec_transactionMode = None, ec_keepAliveInterval = 60,
     ec_keepAliveMaxInProgressTime = 2100, ec_retry = \<lparr>retryFailedAfter = 300000, retryOpenAfter = 10000\<rparr>,
     ec_cron = None, ec_interval = 60, ec_randomOffset = None, ec_lastSuccessfulRunTimestamp = False,
     ec_selectedDelayedEventIds = [], ec_startTime = 1000000, ec_lockAcquiredTime = 1000000\<rparr>"

definition demo_row :: "string \<Rightarrow> int \<Rightarrow> int \<Rightarrow> event_row" where
  "demo_row i st n = (new_row i 5 ''T'' ''S'' ''default'' None)
     \<lparr>ev_status := st, ev_attempts := n, ev_lastAttemptTimestamp := (if n = 0 then None else Some 900000)\<rparr>"

definition demo_world :: "nat world" where
  "demo_world = \<lparr>w_events = [demo_row ''a'' Open 0, demo_row ''b'' Error 1, demo_row ''c'' Error 3, demo_row ''d'' Error 6],
     w_sched = new_EventScheduler, w_biz = 7\<rparr>"

definition demo_proc :: processor where
  "demo_proc = new_processor (Some ''t1'') ''T'' ''S'' demo_cfg"

definition demo_claim :: "(nat world \<times> processor) \<times> event_row list" where
  "demo_claim = getQueueEntriesAndSetToInProgress demo_gc 1000100 (demo_world, demo_proc)"

definition demo_persist :: "(nat world \<times> processor) option" where
  "demo_persist = persistEventStatus demo_pf 1000200 (Given [(''a'', JNum Open), (''b'', JNum Done)]) (fst demo_claim)"

lemma demo_table_ok: "table_ok (w_events demo_world)"
  by code_simp

lemma demo_claim_eq:
  "getQueueEntriesAndSetToInProgress demo_gc 1000100 (demo_world, demo_proc)
     = ((fst (fst demo_claim), snd (fst demo_claim)), snd demo_claim)"
  by (simp add: demo_claim_def)

lemma demo_claim_ids: "map ev_ID (snd demo_claim) = [''a'', ''b'']"
  by code_simp

lemma demo_persist_eq:
  "persistEventStatus demo_pf 1000200 (Given [(''a'', JNum Open), (''b'', JNum Done)])
     (fst (fst demo_claim), snd (fst demo_claim)) = Some (fst (the demo_persist), snd (the demo_persist))"
proof -
  have "demo_persist \<noteq> None" by code_simp
  then show ?thesis by (auto simp: demo_persist_def)
qed


theorem no_double_claim_witness:
  "set (map ev_ID (snd demo_claim)) \<inter>
     set (map ev_ID (snd (getQueueEntriesAndSetToInProgress demo_gc 1000150 (fst (fst demo_claim), demo_proc)))) = {}"
proof -
  have "1000150 < 1000100 + ec_keepAliveMaxInProgressTime (p_cfg demo_proc) * 100" by code_simp
  from no_double_claim [OF demo_table_ok demo_claim_eq _ this] show ?thesis
    by (metis prod.collapse)
qed



theorem attempts_count_outcomes_witness:
  "map_option ev_attempts (row_of (w_events (fst (the demo_persist))) ''a'') = Some 0"
proof -
  have m: "checked_map (Given [(''a'', JNum Open), (''b'', JNum Done)]) (snd (fst demo_claim))
      = Some [(''a'', [(''status'', JNum Open)]), (''b'', [(''status'', JNum Done)])]" by code_simp
  have "demo_row ''a'' Open 0 \<in> set (w_events demo_world)" "claim_entry 1000100 (demo_row ''a'' Open 0) \<in> set (snd demo_claim)"
    "ev_ID (demo_row ''a'' Open 0) = ''a''" "ev_attempts (demo_row ''a'' Open 0) = 0"
    by code_simp+
  then show ?thesis
    using attempts_count_outcomes [OF demo_table_ok demo_claim_eq _ _ demo_persist_eq m, of "demo_row ''a'' Open 0" "[(''status'', JNum Open)]"]
    by auto
qed

theorem exceeded_hook_outcome_witness:
  "map_option (\<lambda>s. (w_biz (fst s), map_option ev_status (row_of (w_events (fst s)) ''c'')))
     (handleExceededEvent demo_pf (\<lambda>r b. Inr (b + 1)) 1000300 (demo_row ''c'' Error 3) (fst demo_claim))
     = Some (8, Some Exceeded)"
proof -
  have h: "ev_ID (demo_row ''c'' Error 3) \<in> set (obj_keys (p_selectedEventMap (snd (fst demo_claim))))"
    "row_of (w_events (fst (fst demo_claim))) (ev_ID (demo_row ''c'' Error 3)) = Some (claim_row 1000100 (demo_row ''c'' Error 3))"
    "ev_ID (demo_row ''c'' Error 3) = ''c''" "w_biz (fst (fst demo_claim)) = 7"
    by code_simp+
  show ?thesis
    using exceeded_hook_outcome [OF h(1,2), of demo_pf "\<lambda>r b. Inr (b + 1)" 1000300] h(3,4) by auto
qed

theorem exceeded_hook_is_given_up_witness:
  "map_option (\<lambda>s. map_option ev_status (row_of (w_events (fst s)) ''d''))
     (handleExceededTriesExceeded demo_pf 1000300 (fst demo_claim)) = Some (Some Exceeded)"
proof -
  have h: "distinct (map ev_ID (p_exceededTriesExceeded (snd (fst demo_claim))))"
    "\<forall>r\<in>set (p_exceededTriesExceeded (snd (fst demo_claim))). ev_ID r \<in> set (obj_keys (p_selectedEventMap (snd (fst demo_claim))))"
    "''d'' \<in> ev_ID ` set (p_exceededTriesExceeded (snd (fst demo_claim)))"
    "row_of (w_events (fst (fst demo_claim))) ''d'' = Some (claim_row 1000100 (demo_row ''d'' Error 6))"
    by code_simp+
  show ?thesis
    using exceeded_hook_is_given_up [OF h(1,2), of demo_pf 1000300 "fst (fst demo_claim)"] h(3,4) by fastforce
qed

definition demo_successor :: "(nat world \<times> processor) \<times> bool" where
  "demo_successor = scheduleNextPeriodEvent demo_gc (\<lambda>e t. t + 1) (\<lambda>x. 0) ''n'' 1000000
     ((demo_row ''a'' Open 0)\<lparr>ev_startAfter := Some 500000\<rparr>) (demo_world, demo_proc)"

theorem periodic_successor_witness:
  "map ev_startAfter (drop 4 (w_events (fst (fst demo_successor)))) = [Some 1005000]"
proof -
  have h: "0 < ec_interval (p_cfg demo_proc)" "0 < runInterval demo_gc" "ec_cron (p_cfg demo_proc) = None"
    "ec_interval (p_cfg demo_proc) = 60" "calculateRandomOffset demo_gc (\<lambda>x. 0) (p_cfg demo_proc) = 0" "length (w_events demo_world) = 4"
    by code_simp+
  have "scheduleNextPeriodEvent demo_gc (\<lambda>e t. t + 1) (\<lambda>x. 0) ''n'' 1000000
     ((demo_row ''a'' Open 0)\<lparr>ev_startAfter := Some 500000\<rparr>) (demo_world, demo_proc)
     = ((fst (fst demo_successor), snd (fst demo_successor)), snd demo_successor)" by (simp add: demo_successor_def)
  from periodic_successor [OF this] h show ?thesis by (auto simp: Let_def)
qed

end
