(* ===== verification/SetIntervalDriftSafe.thy ===== *)
theory SetIntervalDriftSafe
  imports Prelude
begin

text \<open>
  \<open>src/shared/SetIntervalDriftSafe.js\<close>: the interval runner of the worker queue, the main runner and
  the keep alive.  Each \<open>run\<close> arms one timeout; when it fires, the runner arms the next one before
  it calls the function.  The state carries the private fields; \<open>calls\<close> counts the invocations of
  the function, \<open>armed\<close> is the due time of the armed timeout, if any.

  Proved: however late the timeouts fire, the timeout of the \<open>n\<close>-th cycle is due \<open>n\<close> intervals after the
  first \<open>run\<close>, so lateness never accumulates; after \<open>stop\<close> nothing fires any more.
\<close>

record interval_runner =
  interval :: int
  adjustedInterval :: int
  expectedCycleTime :: int
  shouldRun :: bool
  armed :: "time option"
  calls :: nat

definition new_SetIntervalDriftSafe :: "int \<Rightarrow> interval_runner" where
  "new_SetIntervalDriftSafe i =
     \<lparr>interval = i, adjustedInterval = i, expectedCycleTime = 0, shouldRun = True, armed = None, calls = 0\<rparr>"

definition run :: "time \<Rightarrow> interval_runner \<Rightarrow> interval_runner" where
  "run now r =
     (if \<not> shouldRun r then r
      else
        let r1 = (if expectedCycleTime r = 0 then r\<lparr>expectedCycleTime := now + interval r\<rparr>
                  else r\<lparr>adjustedInterval := interval r - (now - expectedCycleTime r),
                         expectedCycleTime := expectedCycleTime r + interval r\<rparr>)
        in r1\<lparr>armed := Some (timeout_due now (adjustedInterval r1))\<rparr>)"

definition start :: "time \<Rightarrow> interval_runner \<Rightarrow> interval_runner" where
  "start now r = run now (r\<lparr>shouldRun := True\<rparr>)"

text \<open>The timeout callback, executed at \<open>now\<close>.\<close>

definition fire :: "time \<Rightarrow> interval_runner \<Rightarrow> interval_runner" where
  "fire now r =
     (let r0 = r\<lparr>armed := None\<rparr> in
      if \<not> shouldRun r0 then r0
      else let r1 = run now r0 in r1\<lparr>calls := Suc (calls r1)\<rparr>)"

definition stop :: "interval_runner \<Rightarrow> interval_runner" where
  "stop r = r\<lparr>shouldRun := False, armed := None\<rparr>"

text \<open>Firing a sequence of timeouts at the given times.\<close>

fun fires :: "time list \<Rightarrow> interval_runner \<Rightarrow> interval_runner" where
  "fires [] r = r"
| "fires (t # ts) r = fires ts (fire t r)"

lemma fire_running:
  assumes "shouldRun r" "expectedCycleTime r \<noteq> 0"
  shows "expectedCycleTime (fire now r) = expectedCycleTime r + interval r"
    "armed (fire now r) = Some (timeout_due now (expectedCycleTime r + interval r - now))"
    "shouldRun (fire now r)" "interval (fire now r) = interval r" "calls (fire now r) = Suc (calls r)"
  using assms by (simp_all add: fire_def run_def Let_def diff_diff_eq2 add.commute)

lemma fires_running:
  assumes "shouldRun r" "0 < expectedCycleTime r" "0 < interval r"
  shows "expectedCycleTime (fires ts r) = expectedCycleTime r + int (length ts) * interval r
    \<and> calls (fires ts r) = calls r + length ts \<and> shouldRun (fires ts r) \<and> interval (fires ts r) = interval r"
  using assms
proof (induction ts arbitrary: r)
  case Nil
  then show ?case by simp
next
  case (Cons t ts)
  note f = fire_running [OF Cons.prems(1), of t]
  have "0 < expectedCycleTime (fire t r)" "0 < interval (fire t r)" "shouldRun (fire t r)"
    using f Cons.prems by simp_all
  from Cons.IH [OF this(3,1,2)] show ?case
    using f Cons.prems by (auto simp: algebra_simps)
qed

lemma fires_snoc: "fires (ts @ [t]) r = fire t (fires ts r)"
  by (induction ts arbitrary: r) simp_all

text \<open>
  The runner does not drift: started at time \<open>t0\<close>, after \<open>n\<close> timeouts fired at any times, the
  function has been called once per timeout; the timeout armed by the last one, at \<open>t\<close>, is set for
  \<open>t0 + (n + 1) * interval\<close>, unless that has already passed, when it is set for the next millisecond.
\<close>

theorem interval_runner_no_drift:
  fixes t0 i t :: int and ts :: "time list"
  assumes "0 < i" "0 < t0"
  defines "grid \<equiv> t0 + (int (length ts) + 2) * i"
  shows "calls (fires (ts @ [t]) (run t0 (new_SetIntervalDriftSafe i))) = length ts + 1
    \<and> armed (fires (ts @ [t]) (run t0 (new_SetIntervalDriftSafe i)))
        = Some (if t < grid \<and> grid - t \<le> 2147483647 then grid else t + 1)"
proof -
  define r where "r = run t0 (new_SetIntervalDriftSafe i)"
  have r: "shouldRun r" "expectedCycleTime r = t0 + i" "interval r = i" "calls r = 0"
    by (simp_all add: r_def run_def new_SetIntervalDriftSafe_def Let_def)
  have pos: "0 < expectedCycleTime r" "0 < interval r" using assms r by simp_all
  note fs = fires_running [OF r(1) pos, of ts]
  have nz: "expectedCycleTime (fires ts r) \<noteq> 0"
    using fs pos by (metis add_pos_nonneg less_irrefl mult_nonneg_nonneg of_nat_0_le_iff less_imp_le)
  have g: "expectedCycleTime (fires ts r) + interval (fires ts r) = grid"
    using fs r by (simp add: grid_def algebra_simps)
  show ?thesis
    unfolding r_def [symmetric] fires_snoc
    using fire_running(2,5) [of "fires ts r" t] fs nz g r by (simp add: timeout_due_def)
qed

theorem interval_runner_no_drift_witness:
  "armed (fires [1070, 1121] (run 1000 (new_SetIntervalDriftSafe 60))) = Some 1180"
  using interval_runner_no_drift [of 60 1000 "[1070]" 1121] by simp

text \<open>
  A stopped runner stays silent, and starting it again resumes the old grid: the timeout is set
  for one interval after the previously expected one, not one interval after the restart.
\<close>

theorem interval_runner_restart:
  assumes "shouldRun r" "expectedCycleTime r \<noteq> 0"
  shows "armed (stop r) = None \<and> run now (stop r) = stop r
    \<and> armed (start now (stop r)) = Some (timeout_due now (expectedCycleTime r + interval r - now))"
  using assms by (simp add: stop_def start_def run_def Let_def algebra_simps)

theorem interval_runner_restart_witness:
  "armed (start 1001 (stop (run 1000 (new_SetIntervalDriftSafe 60)))) = Some 1120"
  using interval_runner_restart [of "run 1000 (new_SetIntervalDriftSafe 60)" 1001]
  by (simp add: run_def new_SetIntervalDriftSafe_def timeout_due_def)

end
