(* ===== verification/Config.thy ===== *)
theory Config
  imports EventQueueError Constants
begin

text \<open>
  \<open>src/config.js\<close>: the event configuration.  An event configuration is a JavaScript object of
  configuration values, the event map an object of those, keyed by namespace, type and subtype.
  What is thrown is the left summand.  Numbers are integers; \<open>keepAliveMaxInProgressTime\<close>, 3.5 times
  the keep alive interval, is kept in tenths.

  The cron parser and the regular expression engine are parameters (\<open>config_env\<close>), and so is
  \<open>cds.env.requires\<close>, a field of the state.  Getters and setters without logic are the fields
  themselves.

  Proved: configured events have distinct keys and satisfy what the processor and the worker queue
  rely on (known priority, load within the limit, defaults set); keys do not collide for names
  without \<open>#\<close>; a periodic event without type is accepted; which application processes which event.
\<close>

subsection \<open>Constants\<close>

definition DEFAULT_LOAD :: int where "DEFAULT_LOAD = 1"
definition MIN_INTERVAL_SEC :: int where "MIN_INTERVAL_SEC = 10"
definition DEFAULT_PRIORITY :: string where "DEFAULT_PRIORITY = ''medium''"
definition DEFAULT_INCREASE_PRIORITY :: bool where "DEFAULT_INCREASE_PRIORITY = True"
definition DEFAULT_KEEP_ALIVE_INTERVAL :: int where "DEFAULT_KEEP_ALIVE_INTERVAL = 60"
definition DEFAULT_MAX_FACTOR_TENTHS :: int where "DEFAULT_MAX_FACTOR_TENTHS = 35"
definition DEFAULT_INHERIT_TRACE_CONTEXT :: bool where "DEFAULT_INHERIT_TRACE_CONTEXT = True"
definition DEFAULT_CHECK_FOR_NEXT_CHUNK :: bool where "DEFAULT_CHECK_FOR_NEXT_CHUNK = True"
definition SUFFIX_PERIODIC :: string where "SUFFIX_PERIODIC = ''_PERIODIC''"
definition CAP_EVENT_TYPE :: string where "CAP_EVENT_TYPE = ''CAP_OUTBOX''"
definition CAP_PARALLEL_DEFAULT :: int where "CAP_PARALLEL_DEFAULT = 5"
definition CAP_MAX_ATTEMPTS_DEFAULT :: int where "CAP_MAX_ATTEMPTS_DEFAULT = 5"
definition DEFAULT_RETRY_AFTER :: int where "DEFAULT_RETRY_AFTER = 5 * 60 * 1000"
definition REDIS_PREFIX :: string where "REDIS_PREFIX = ''EVENT_QUEUE''"
definition SAGA_SUCCESS :: string where "SAGA_SUCCESS = ''#succeeded''"
definition SAGA_FAILED :: string where "SAGA_FAILED = ''#failed''"
definition SAGA_DONE :: string where "SAGA_DONE = ''#done''"
definition OUTBOX_IMPL :: string where "OUTBOX_IMPL = ''./outbox/EventQueueGenericOutboxHandler''"

definition ALLOWED_EVENT_OPTIONS_BASE :: "string list" where
  "ALLOWED_EVENT_OPTIONS_BASE =
     [''type'', ''subType'', ''load'', ''impl'', ''transactionMode'', ''deleteFinishedEventsAfterDays'',
      ''useEventQueueUser'', ''priority'', ''keepAliveInterval'', ''increasePriorityOverTime'',
      ''keepAliveMaxInProgressTime'', ''appNames'', ''appInstances'', ''namespace'', ''internalEvent'']"

definition ALLOWED_EVENT_OPTIONS_AD_HOC :: "string list" where
  "ALLOWED_EVENT_OPTIONS_AD_HOC = ALLOWED_EVENT_OPTIONS_BASE @
     [''inheritTraceContext'', ''selectMaxChunkSize'', ''parallelEventProcessing'', ''retryAttempts'',
      ''processAfterCommit'', ''checkForNextChunk'', ''retryFailedAfter'', ''propagateHeaders'',
      ''propagateContextProperties'', ''retryOpenAfter'', ''multiInstanceProcessing'', ''kind'', ''timeBucket'']"

definition ALLOWED_EVENT_OPTIONS_PERIODIC_EVENT :: "string list" where
  "ALLOWED_EVENT_OPTIONS_PERIODIC_EVENT = ALLOWED_EVENT_OPTIONS_BASE @
     [''interval'', ''cron'', ''utc'', ''useCronTimezone'', ''randomOffset'']"

subsection \<open>State\<close>

type_synonym event_obj = "jsval jsobj"

record config =
  cf_eventMap :: "event_obj jsobj"
  cf_namespace :: string
  cf_processingNamespaces :: "string list"
  cf_instanceLoadLimit :: int
  cf_cronTimezone :: jsval
  cf_unsubscribedTenants :: "bool jsobj"
  cf_disableRedis :: bool
  cf_redisBound :: bool
  cf_redisEnabled :: bool
  cf_isMultiTenancy :: bool
  cf_runInterval :: "int option"
  cf_applicationName :: string
  cf_applicationInstance :: string
  cf_requires :: "jsval jsobj"
  cf_configEvents :: "jsval jsobj"
  cf_configPeriodicEvents :: "jsval jsobj"

text \<open>\<open>ce_cronDates expr\<close>: the next two dates of a cron expression, \<open>None\<close> when it cannot be parsed;
  \<open>ce_regex body flags\<close>: the test of a regular expression, \<open>None\<close> when it is not valid.\<close>

record config_env =
  ce_cronDates :: "string \<Rightarrow> (time \<times> time) option"
  ce_regex :: "string \<Rightarrow> string \<Rightarrow> (string \<Rightarrow> bool) option"

datatype config_error = Thrown EventQueueError | TypeError

definition set_runInterval :: "jsval \<Rightarrow> config \<Rightarrow> config_error + config" where
  "set_runInterval v cf =
     (case v of
        JNum n \<Rightarrow> if n \<le> 10 * 1000 then Inl (Thrown (invalidInterval JUndef JUndef JUndef))
                  else Inr (cf\<lparr>cf_runInterval := Some n\<rparr>)
      | _ \<Rightarrow> Inl (Thrown (invalidInterval JUndef JUndef JUndef)))"

definition checkRedisEnabled :: "config \<Rightarrow> config" where
  "checkRedisEnabled cf = cf\<lparr>cf_redisEnabled := (\<not> cf_disableRedis cf \<and> cf_redisBound cf)\<rparr>"

text \<open>The handlers run for an unsubscribed tenant are the scheduler's and the caches' own operations.
  The mark is removed by a timer after five minutes.\<close>

definition executeUnsubscribeHandlers :: "string \<Rightarrow> config \<Rightarrow> config" where
  "executeUnsubscribeHandlers t cf = cf\<lparr>cf_unsubscribedTenants := obj_set t True (cf_unsubscribedTenants cf)\<rparr>"

definition removeUnsubscribedTenant :: "string \<Rightarrow> config \<Rightarrow> config" where
  "removeUnsubscribedTenant t cf = cf\<lparr>cf_unsubscribedTenants := obj_del t (cf_unsubscribedTenants cf)\<rparr>"

definition isTenantUnsubscribed :: "string \<Rightarrow> config \<Rightarrow> bool" where
  "isTenantUnsubscribed t cf \<longleftrightarrow> obj_get (cf_unsubscribedTenants cf) t = Some True"

definition shouldProcessNamespace :: "string \<Rightarrow> config \<Rightarrow> bool" where
  "shouldProcessNamespace ns cf \<longleftrightarrow> ns \<in> set (cf_processingNamespaces cf)"

definition redisNamespace :: "bool \<Rightarrow> config \<Rightarrow> string" where
  "redisNamespace addPublishNamespace cf =
     (if addPublishNamespace then join hash_sep (filter (\<lambda>s. s \<noteq> []) [REDIS_PREFIX, cf_namespace cf])
      else REDIS_PREFIX)"

subsection \<open>Keys and lookups\<close>

definition key_part :: "jsval \<Rightarrow> string" where
  "key_part v = join_part (\<lambda>t. []) v"

definition generateKey :: "jsval \<Rightarrow> jsval \<Rightarrow> jsval \<Rightarrow> string" where
  "generateKey ns ty sub = join hash_sep [key_part ns, key_part ty, key_part sub]"

definition event_key :: "event_obj \<Rightarrow> string" where
  "event_key e = generateKey (js_prop e ''namespace'') (js_prop e ''type'') (js_prop e ''subType'')"

definition getEventConfig :: "string \<Rightarrow> string \<Rightarrow> string \<Rightarrow> config \<Rightarrow> event_obj option" where
  "getEventConfig ty sub ns cf = obj_get (cf_eventMap cf) (generateKey (JStr ns) (JStr ty) (JStr sub))"

definition hasEventAfterCommitFlag :: "string \<Rightarrow> string \<Rightarrow> string \<Rightarrow> config \<Rightarrow> jsval" where
  "hasEventAfterCommitFlag ty sub ns cf =
     (case getEventConfig ty sub ns cf of
        None \<Rightarrow> JBool True | Some e \<Rightarrow> coalesce (js_prop e ''processAfterCommit'') (JBool True))"

definition isPeriodicEvent :: "string \<Rightarrow> string \<Rightarrow> string \<Rightarrow> config \<Rightarrow> jsval" where
  "isPeriodicEvent ty sub ns cf =
     (case getEventConfig ty sub ns cf of None \<Rightarrow> JUndef | Some e \<Rightarrow> js_prop e ''isPeriodic'')"

definition removeEvent :: "string \<Rightarrow> string \<Rightarrow> string \<Rightarrow> config \<Rightarrow> config" where
  "removeEvent ty sub ns cf =
     cf\<lparr>cf_eventMap := obj_del (generateKey (JStr ns) (JStr ty) (JStr sub)) (cf_eventMap cf)\<rparr>"

definition events :: "config \<Rightarrow> event_obj list" where
  "events cf = filter (\<lambda>e. \<not> truthy (js_prop e ''isPeriodic'')) (map snd (cf_eventMap cf))"

definition periodicEvents :: "config \<Rightarrow> event_obj list" where
  "periodicEvents cf = filter (\<lambda>e. truthy (js_prop e ''isPeriodic'')) (map snd (cf_eventMap cf))"

definition isCapOutboxEvent :: "string \<Rightarrow> bool" where
  "isCapOutboxEvent ty \<longleftrightarrow> ty \<in> {CAP_EVENT_TYPE, CAP_EVENT_TYPE @ SUFFIX_PERIODIC}"

definition findBaseCAPServiceWithoutNamespace :: "string \<Rightarrow> config \<Rightarrow> event_obj option" where
  "findBaseCAPServiceWithoutNamespace srv cf =
     find (\<lambda>e. js_prop e ''type'' = JStr CAP_EVENT_TYPE \<and> js_prop e ''subType'' = JStr srv) (map snd (cf_eventMap cf))"

subsection \<open>Sanitising and defaults\<close>

definition sanitizeParamsBase :: "event_obj \<Rightarrow> string list \<Rightarrow> event_obj" where
  "sanitizeParamsBase c allowList = filter (\<lambda>(name, v). name \<in> set allowList) c"

definition sanitizeParamsAdHocEvent :: "event_obj \<Rightarrow> event_obj" where
  "sanitizeParamsAdHocEvent c = sanitizeParamsBase c ALLOWED_EVENT_OPTIONS_AD_HOC"

definition sanitizeParamsPeriodicEventEvent :: "event_obj \<Rightarrow> event_obj" where
  "sanitizeParamsPeriodicEventEvent c = sanitizeParamsBase c ALLOWED_EVENT_OPTIONS_PERIODIC_EVENT"

text \<open>\<open>event.name = event.name ?? d\<close>\<close>

definition set_default :: "string \<Rightarrow> jsval \<Rightarrow> event_obj \<Rightarrow> event_obj" where
  "set_default k d e = obj_set k (coalesce (js_prop e k) d) e"

text \<open>A product that is not a number is \<open>undefined\<close> here.\<close>

definition keep_alive_max :: "event_obj \<Rightarrow> jsval" where
  "keep_alive_max e =
     (case to_number (js_prop e ''keepAliveInterval'') of
        None \<Rightarrow> JUndef | Some n \<Rightarrow> JNum (n * DEFAULT_MAX_FACTOR_TENTHS))"

definition basicEventTransformation :: "config \<Rightarrow> event_obj \<Rightarrow> event_obj" where
  "basicEventTransformation cf e0 =
     (let e1 = set_default ''load'' (JNum DEFAULT_LOAD) e0;
          e2 = set_default ''priority'' (JStr DEFAULT_PRIORITY) e1;
          e3 = set_default ''increasePriorityOverTime'' (JBool DEFAULT_INCREASE_PRIORITY) e2;
          e4 = set_default ''keepAliveInterval'' (JNum DEFAULT_KEEP_ALIVE_INTERVAL) e3;
          e5 = obj_set ''keepAliveMaxInProgressTime'' (keep_alive_max e4) e4;
          e6 = set_default ''checkForNextChunk'' (JBool DEFAULT_CHECK_FOR_NEXT_CHUNK) e5
      in obj_set ''namespace''
           (if js_prop e6 ''namespace'' = JUndef then JStr (cf_namespace cf) else js_prop e6 ''namespace'') e6)"

text \<open>\<open>#parseRegexOrString\<close>: a literal \<open>/body/flags\<close>, whose body has no slash that is not escaped.\<close>

fun regex_body :: "string \<Rightarrow> (string \<times> string) option" where
  "regex_body [] = None"
| "regex_body (c # cs) =
     (if c = CHR ''/'' then Some ([], cs)
      else if c = CHR 0x5C
           then (case cs of [] \<Rightarrow> None
                 | d # ds \<Rightarrow> if d = CHR 0x0A \<or> d = CHR 0x0D then None
                            else map_option (\<lambda>(b, r). (c # d # b, r)) (regex_body ds))
      else map_option (\<lambda>(b, r). (c # b, r)) (regex_body cs))"

definition regex_literal :: "string \<Rightarrow> (string \<times> string) option" where
  "regex_literal s =
     (case s of
        c # cs \<Rightarrow> if c \<noteq> CHR ''/'' then None
                  else (case regex_body cs of
                          Some (body, flags) \<Rightarrow> if set flags \<subseteq> set ''gimsuy'' then Some (body, flags) else None
                        | None \<Rightarrow> None)
      | [] \<Rightarrow> None)"

definition parseRegexOrString :: "config_env \<Rightarrow> string \<Rightarrow> (string \<Rightarrow> bool) option" where
  "parseRegexOrString ce s =
     (case regex_literal s of None \<Rightarrow> None | Some (body, flags) \<Rightarrow> ce_regex ce body flags)"

definition app_name_entry :: "config_env \<Rightarrow> jsval \<Rightarrow> string \<times> jsval" where
  "app_name_entry ce v =
     (key_part v, JObj [(''type'', JStr (if parseRegexOrString ce (key_part v) \<noteq> None then ''regex'' else ''string'')),
                        (''value'', v)])"

fun as_list :: "jsval \<Rightarrow> jsval list" where
  "as_list (JArr vs) = vs"
| "as_list _ = []"

definition basicEventTransformationAfterValidate :: "config_env \<Rightarrow> event_obj \<Rightarrow> event_obj" where
  "basicEventTransformationAfterValidate ce e0 =
     (let names = js_prop e0 ''appNames''; insts = js_prop e0 ''appInstances'';
          e1 = obj_set ''_appNameMap''
                 (if truthy names then JObj (obj_from (map (app_name_entry ce) (as_list names))) else JNull) e0;
          e2 = obj_set ''_appNameContainsRegex''
                 (if truthy names
                  then JBool (\<exists>v\<in>set (as_list names). parseRegexOrString ce (key_part v) \<noteq> None) else JNull) e1;
          e3 = obj_set ''_appInstancesMap''
                 (if truthy insts then JObj (obj_from (map (\<lambda>v. (key_part v, JBool True)) (as_list insts))) else JNull) e2;
          e4 = set_default ''propagateHeaders'' (JArr []) e3;
          e5 = set_default ''propagateContextProperties'' (JArr []) e4;
          e6 = set_default ''retryFailedAfter'' (JNum DEFAULT_RETRY_AFTER) e5
      in set_default ''retryOpenAfter'' (JNum DEFAULT_RETRY_AFTER) e6)"

subsection \<open>Validation\<close>

definition is_string :: "jsval \<Rightarrow> bool" where
  "is_string v = (case v of JStr s \<Rightarrow> True | _ \<Rightarrow> False)"

definition is_number :: "jsval \<Rightarrow> bool" where
  "is_number v = (case v of JNum n \<Rightarrow> True | _ \<Rightarrow> False)"

text \<open>\<open>Array.isArray(v) && v.every(P)\<close>\<close>

definition array_of :: "(jsval \<Rightarrow> bool) \<Rightarrow> jsval \<Rightarrow> bool" where
  "array_of P v = (case v of JArr vs \<Rightarrow> list_all P vs | _ \<Rightarrow> False)"

definition known_priority :: "jsval \<Rightarrow> bool" where
  "known_priority v = (case v of JStr s \<Rightarrow> priority_of s \<noteq> None | _ \<Rightarrow> False)"

definition num_gt :: "jsval \<Rightarrow> int \<Rightarrow> bool" where
  "num_gt v n = (case to_number v of None \<Rightarrow> False | Some x \<Rightarrow> x > n)"

definition num_le :: "jsval \<Rightarrow> int \<Rightarrow> bool" where
  "num_le v n = (case to_number v of None \<Rightarrow> False | Some x \<Rightarrow> x \<le> n)"

definition basicEventValidation :: "config \<Rightarrow> event_obj \<Rightarrow> config_error + event_obj" where
  "basicEventValidation cf e =
     (let ty = js_prop e ''type''; sub = js_prop e ''subType'' in
      if \<not> truthy (js_prop e ''impl'') then Inl (Thrown (missingImpl ty sub))
      else if \<not> truthy ty then Inl (Thrown (missingType (JObj e)))
      else if \<not> truthy sub then Inl (Thrown (missingSubType (JObj e)))
      else if truthy (js_prop e ''appNames'') \<and> \<not> array_of is_string (js_prop e ''appNames'')
      then Inl (Thrown (appNamesFormat ty sub (js_prop e ''appNames'')))
      else if truthy (js_prop e ''appInstances'') \<and> \<not> array_of is_number (js_prop e ''appInstances'')
      then Inl (Thrown (appInstancesFormat ty sub (js_prop e ''appInstances'')))
      else if \<not> known_priority (js_prop e ''priority'')
      then Inl (Thrown (priorityNotAllowed (js_prop e ''priority'') (JStr ''initEvent'')))
      else if num_gt (js_prop e ''load'') (cf_instanceLoadLimit cf)
      then Inl (Thrown (loadHigherThanLimit (js_prop e ''load'') (JStr ''initEvent'')))
      else Inr e)"

definition cron_dates :: "config_env \<Rightarrow> jsval \<Rightarrow> (time \<times> time) option" where
  "cron_dates ce v = (case v of JStr s \<Rightarrow> ce_cronDates ce s | _ \<Rightarrow> None)"

text \<open>The time zone properties of a cron event.\<close>

definition set_timezone :: "config \<Rightarrow> event_obj \<Rightarrow> event_obj" where
  "set_timezone cf e0 =
     (let e1 = set_default ''utc'' (JBool False) e0;
          e2 = (if \<not> truthy (cf_cronTimezone cf) then obj_set ''useCronTimezone'' (JBool False) e1
                else set_default ''useCronTimezone'' (JBool True) e1)
      in obj_set ''tz''
           (if truthy (js_prop e2 ''utc'') \<or> \<not> truthy (js_prop e2 ''useCronTimezone'') then JStr ''UTC''
            else cf_cronTimezone cf) e2)"

definition validatePeriodicConfig :: "config_env \<Rightarrow> config \<Rightarrow> event_obj jsobj \<Rightarrow> event_obj \<Rightarrow> config_error + event_obj" where
  "validatePeriodicConfig ce cf m e =
     (let ty = js_prop e ''type''; sub = js_prop e ''subType'';
          cron = js_prop e ''cron''; interval = js_prop e ''interval'' in
      if (case obj_get m (event_key e) of None \<Rightarrow> False | Some old \<Rightarrow> truthy (js_prop old ''isPeriodic''))
      then Inl (Thrown (duplicateEventRegistration ty sub))
      else if \<not> truthy cron \<and> \<not> truthy interval then Inl (Thrown (noCronOrInterval ty sub))
      else if truthy cron \<and> truthy interval then Inl (Thrown (cronAndInterval ty sub))
      else if truthy cron
      then (case cron_dates ce cron of
              None \<Rightarrow> Inl (Thrown (cantParseCronExpression ty sub cron))
            | Some (next, afterNext) \<Rightarrow>
                if afterNext - next \<le> MIN_INTERVAL_SEC * 1000
                then Inl (Thrown (invalidIntervalBetweenCron ty sub (JNum (trunc_div (afterNext - next) 1000))))
                else basicEventValidation cf (set_timezone cf e))
      else if num_le interval MIN_INTERVAL_SEC then Inl (Thrown (invalidInterval ty sub interval))
      else basicEventValidation cf e)"

definition validateAdHocEvents ::
  "config_env \<Rightarrow> config \<Rightarrow> event_obj jsobj \<Rightarrow> bool \<Rightarrow> event_obj \<Rightarrow> config_error + event_obj" where
  "validateAdHocEvents ce cf m checkForDuplication e =
     (let ty = js_prop e ''type''; sub = js_prop e ''subType'' in
      if (case obj_get m (event_key e) of None \<Rightarrow> False
          | Some old \<Rightarrow> \<not> truthy (js_prop old ''isPeriodic'') \<and> checkForDuplication)
      then Inl (Thrown (duplicateEventRegistration ty sub))
      else if cf_isMultiTenancy cf \<and> truthy (js_prop e ''multiInstanceProcessing'')
      then Inl (Thrown (multiInstanceProcessingNotAllowed ty sub))
      else
        let e1 = set_default ''inheritTraceContext'' (JBool DEFAULT_INHERIT_TRACE_CONTEXT) e;
            bucket = js_prop e1 ''timeBucket'' in
        if truthy bucket \<and> cron_dates ce bucket = None
        then Inl (Thrown (cantParseCronExpression ty sub bucket))
        else basicEventValidation cf e1)"

subsection \<open>Loading the configuration\<close>

text \<open>\<open>`${v}`\<close> in a template literal\<close>

definition template :: "jsval \<Rightarrow> string" where
  "template v = js_string (\<lambda>t. []) v"

definition prepareAdHocEvent ::
  "config_env \<Rightarrow> config \<Rightarrow> event_obj jsobj \<Rightarrow> bool \<Rightarrow> event_obj \<Rightarrow> config_error + event_obj" where
  "prepareAdHocEvent ce cf m dup e =
     (case validateAdHocEvents ce cf m dup (basicEventTransformation cf e) of
        Inl err \<Rightarrow> Inl err
      | Inr e' \<Rightarrow> Inr (basicEventTransformationAfterValidate ce e'))"

definition preparePeriodicEvent :: "config_env \<Rightarrow> config \<Rightarrow> event_obj jsobj \<Rightarrow> event_obj \<Rightarrow> config_error + event_obj" where
  "preparePeriodicEvent ce cf m e =
     (let e1 = obj_set ''type'' (JStr (template (js_prop e ''type'') @ SUFFIX_PERIODIC)) e;
          e2 = obj_set ''isPeriodic'' (JBool True) e1
      in case validatePeriodicConfig ce cf m (basicEventTransformation cf e2) of
           Inl err \<Rightarrow> Inl err
         | Inr e' \<Rightarrow> Inr (basicEventTransformationAfterValidate ce e'))"

fun load_adhoc :: "config_env \<Rightarrow> config \<Rightarrow> event_obj list \<Rightarrow> event_obj jsobj \<Rightarrow> config_error + event_obj jsobj" where
  "load_adhoc ce cf [] m = Inr m"
| "load_adhoc ce cf (e # es) m =
     (case prepareAdHocEvent ce cf m True (sanitizeParamsAdHocEvent e) of
        Inl err \<Rightarrow> Inl err
      | Inr e' \<Rightarrow> load_adhoc ce cf es (obj_set (event_key e') e' m))"

fun load_periodic :: "config_env \<Rightarrow> config \<Rightarrow> event_obj list \<Rightarrow> event_obj jsobj \<Rightarrow> config_error + event_obj jsobj" where
  "load_periodic ce cf [] m = Inr m"
| "load_periodic ce cf (e # es) m =
     (case preparePeriodicEvent ce cf m (sanitizeParamsPeriodicEventEvent e) of
        Inl err \<Rightarrow> Inl err
      | Inr e' \<Rightarrow> load_periodic ce cf es (obj_set (event_key e') e' m))"

text \<open>\<open>set fileContent\<close>\<close>

definition set_fileContent ::
  "config_env \<Rightarrow> event_obj list \<Rightarrow> event_obj list \<Rightarrow> config \<Rightarrow> config_error + config" where
  "set_fileContent ce evs pevs cf =
     (case load_adhoc ce cf evs [] of
        Inl err \<Rightarrow> Inl err
      | Inr m \<Rightarrow> (case load_periodic ce cf pevs m of
                    Inl err \<Rightarrow> Inl err
                  | Inr m' \<Rightarrow> Inr (cf\<lparr>cf_eventMap := m'\<rparr>)))"

subsection \<open>Events of CAP services\<close>

definition cleanUndefined :: "jsval jsobj \<Rightarrow> jsval jsobj" where
  "cleanUndefined ob = filter (\<lambda>(k, v). v \<noteq> JUndef) ob"

definition mixCAPPropertyNamesWithEventQueueNames :: "jsval jsobj \<Rightarrow> jsval jsobj" where
  "mixCAPPropertyNamesWithEventQueueNames c =
     (let parallel = js_prop c ''parallel'' in
      cleanUndefined (obj_assign
        [(''selectMaxChunkSize'', coalesce (js_prop c ''selectMaxChunkSize'') (js_prop c ''chunkSize'')),
         (''parallelEventProcessing'', coalesce (js_prop c ''parallelEventProcessing'')
            (if truthy parallel then JNum CAP_PARALLEL_DEFAULT else parallel)),
         (''retryAttempts'', coalesce (js_prop c ''retryAttempts'') (js_prop c ''maxAttempts''))] c))"

definition addCAPOutboxEventBase ::
  "config_env \<Rightarrow> config \<Rightarrow> string \<Rightarrow> jsval jsobj \<Rightarrow> event_obj jsobj \<Rightarrow> config_error + (string \<times> event_obj)" where
  "addCAPOutboxEventBase ce cf serviceName c currentEvents =
     (let ns = coalesce (js_prop c ''namespace'') (JStr (cf_namespace cf));
          raw = obj_assign (obj_set ''namespace'' ns (obj_assign
                  [(''type'', JStr CAP_EVENT_TYPE), (''subType'', JStr serviceName), (''impl'', JStr OUTBOX_IMPL),
                   (''kind'', coalesce (js_prop c ''kind'') (JStr ''persistent-queue''))]
                  (mixCAPPropertyNamesWithEventQueueNames c))) c;
          e1 = set_default ''retryAttempts'' (JNum CAP_MAX_ATTEMPTS_DEFAULT) (sanitizeParamsAdHocEvent raw);
          e2 = obj_set ''internalEvent'' (JBool True) e1
      in case prepareAdHocEvent ce cf currentEvents False e2 of
           Inl err \<Rightarrow> Inl err
         | Inr e' \<Rightarrow> Inr (generateKey ns (JStr CAP_EVENT_TYPE) (JStr serviceName), e'))"

text \<open>\<open>srv?.outbox ?? srv?.queued\<close>\<close>

definition queue_config :: "jsval \<Rightarrow> jsval" where
  "queue_config srv = coalesce (opt_get srv ''outbox'') (opt_get srv ''queued'')"

definition getCdsOutboxEventSpecificConfig :: "config \<Rightarrow> string \<Rightarrow> string option \<Rightarrow> jsval jsobj option" where
  "getCdsOutboxEventSpecificConfig cf serviceName action =
     (let evs = opt_get (queue_config (js_prop (cf_requires cf) serviceName)) ''events'';
          specific = opt_get evs (case action of None \<Rightarrow> ''undefined'' | Some a \<Rightarrow> a) in
      if truthy specific then Some (mixCAPPropertyNamesWithEventQueueNames (as_obj specific))
      else case action of
             None \<Rightarrow> None
           | Some a \<Rightarrow>
               if a = [] then None
               else (case split_char (CHR ''/'') a of
                       withoutSaga # sagaSuffix # _ \<Rightarrow>
                         if sagaSuffix \<in> {SAGA_FAILED, SAGA_SUCCESS, SAGA_DONE} \<and> truthy (opt_get evs withoutSaga)
                         then Some (mixCAPPropertyNamesWithEventQueueNames (as_obj (opt_get evs withoutSaga)))
                         else None
                     | _ \<Rightarrow> None))"

definition addCAPOutboxEventSpecificAction ::
  "config_env \<Rightarrow> config \<Rightarrow> event_obj \<Rightarrow> string \<Rightarrow> string \<Rightarrow> event_obj jsobj \<Rightarrow> config_error + (string \<times> event_obj)" where
  "addCAPOutboxEventSpecificAction ce cf baseServiceConfig serviceName actionName currentEvents =
     (let subType = join ''.'' [serviceName, actionName];
          specific = (case getCdsOutboxEventSpecificConfig cf serviceName (Some actionName) of None \<Rightarrow> [] | Some c \<Rightarrow> c);
          raw = obj_set ''subType'' (JStr subType) (obj_assign baseServiceConfig specific);
          e = obj_set ''internalEvent'' (JBool True) (sanitizeParamsAdHocEvent raw)
      in case prepareAdHocEvent ce cf currentEvents False e of
           Inl err \<Rightarrow> Inl err
         | Inr e' \<Rightarrow> Inr (generateKey (js_prop e' ''namespace'') (JStr CAP_EVENT_TYPE) (JStr subType), e'))"

definition getBasicCapOutboxEventConfig :: "config \<Rightarrow> string \<Rightarrow> jsval jsobj" where
  "getBasicCapOutboxEventConfig cf serviceName =
     (let srv = js_prop (cf_requires cf) serviceName in
      foldl obj_assign []
        [as_obj (js_prop (cf_requires cf) ''outbox''), as_obj (js_prop (cf_requires cf) ''queue''),
         as_obj (opt_get srv ''outbox''), as_obj (opt_get srv ''queued'')])"

record cap_events =
  ca_adHoc :: "event_obj jsobj"
  ca_periodicEvents :: "event_obj jsobj"

text \<open>One suffix of the saga loop.\<close>

definition add_saga_event ::
  "config_env \<Rightarrow> config \<Rightarrow> jsval \<Rightarrow> event_obj \<Rightarrow> string \<Rightarrow> string \<Rightarrow> string \<Rightarrow> event_obj \<Rightarrow> string \<Rightarrow> cap_events
     \<Rightarrow> config_error + cap_events" where
  "add_saga_event ce cf c srvConfig name fnName key specific sagaSuffix res =
     (if truthy (opt_get (opt_get c ''events'') sagaSuffix)
      then (case addCAPOutboxEventSpecificAction ce cf srvConfig name fnName (ca_adHoc res) of
              Inl err \<Rightarrow> Inl err
            | Inr (k, e) \<Rightarrow> Inr (res\<lparr>ca_adHoc := obj_set k e (ca_adHoc res)\<rparr>))
      else Inr (res\<lparr>ca_adHoc := obj_set (join ''/'' [key, sagaSuffix])
                  (obj_set ''subType'' (JStr (join ''/'' [key_part (js_prop specific ''subType''), sagaSuffix])) specific)
                  (ca_adHoc res)\<rparr>))"

fun add_saga_events ::
  "config_env \<Rightarrow> config \<Rightarrow> jsval \<Rightarrow> event_obj \<Rightarrow> string \<Rightarrow> string \<Rightarrow> string \<Rightarrow> event_obj \<Rightarrow> string list \<Rightarrow> cap_events
     \<Rightarrow> config_error + cap_events" where
  "add_saga_events ce cf c srvConfig name fnName key specific [] res = Inr res"
| "add_saga_events ce cf c srvConfig name fnName key specific (sx # sxs) res =
     (case add_saga_event ce cf c srvConfig name fnName key specific sx res of
        Inl err \<Rightarrow> Inl err
      | Inr res' \<Rightarrow> add_saga_events ce cf c srvConfig name fnName key specific sxs res')"

text \<open>One entry of the \<open>events\<close> section of a service.\<close>

definition add_service_event ::
  "config_env \<Rightarrow> config \<Rightarrow> jsval \<Rightarrow> event_obj \<Rightarrow> string \<Rightarrow> string \<times> jsval \<Rightarrow> cap_events \<Rightarrow> config_error + cap_events" where
  "add_service_event ce cf c srvConfig name fn res =
     (case fn of (fnName, fnConfig) \<Rightarrow>
        (case (js_get fnConfig ''interval'', js_get fnConfig ''cron'') of
           (Some interval, Some cron) \<Rightarrow>
             if truthy interval \<or> truthy cron
             then let base = obj_del ''interval'' (obj_del ''cron'' (as_obj c));
                      subType = name @ ''.'' @ fnName
                  in Inr (res\<lparr>ca_periodicEvents := obj_set subType
                       (obj_assign (obj_assign
                          [(''type'', JStr CAP_EVENT_TYPE), (''subType'', JStr subType), (''impl'', JStr OUTBOX_IMPL),
                           (''internalEvent'', JBool True)] base) (as_obj fnConfig))
                       (ca_periodicEvents res)\<rparr>)
             else (case addCAPOutboxEventSpecificAction ce cf srvConfig name fnName (ca_adHoc res) of
                     Inl err \<Rightarrow> Inl err
                   | Inr (key, specific) \<Rightarrow>
                       add_saga_events ce cf c srvConfig name fnName key specific [SAGA_SUCCESS, SAGA_DONE, SAGA_FAILED]
                         (res\<lparr>ca_adHoc := obj_set key specific (ca_adHoc res)\<rparr>))
         | _ \<Rightarrow> Inl TypeError))"

fun add_service_events ::
  "config_env \<Rightarrow> config \<Rightarrow> jsval \<Rightarrow> event_obj \<Rightarrow> string \<Rightarrow> (string \<times> jsval) list \<Rightarrow> cap_events \<Rightarrow> config_error + cap_events" where
  "add_service_events ce cf c srvConfig name [] res = Inr res"
| "add_service_events ce cf c srvConfig name (fn # fns) res =
     (case add_service_event ce cf c srvConfig name fn res of
        Inl err \<Rightarrow> Inl err
      | Inr res' \<Rightarrow> add_service_events ce cf c srvConfig name fns res')"

text \<open>\<open>#cdsQueueEventsFromEnv\<close> over the entries of \<open>cds.env.requires\<close>.\<close>

fun cdsQueueEventsFromEnv ::
  "config_env \<Rightarrow> config \<Rightarrow> (string \<times> jsval) list \<Rightarrow> cap_events \<Rightarrow> config_error + cap_events" where
  "cdsQueueEventsFromEnv ce cf [] res = Inr res"
| "cdsQueueEventsFromEnv ce cf ((name, srv) # rest) res =
     (if nullish srv then Inl TypeError
      else let c = queue_config srv in
           if \<not> truthy c then cdsQueueEventsFromEnv ce cf rest res
           else (case addCAPOutboxEventBase ce cf name (getBasicCapOutboxEventConfig cf name) (ca_adHoc res) of
                   Inl err \<Rightarrow> Inl err
                 | Inr (key, srvConfig) \<Rightarrow>
                     (case add_service_events ce cf c srvConfig name (as_obj (opt_get c ''events''))
                             (res\<lparr>ca_adHoc := obj_set key srvConfig (ca_adHoc res)\<rparr>) of
                        Inl err \<Rightarrow> Inl err
                      | Inr res' \<Rightarrow> cdsQueueEventsFromEnv ce cf rest res')))"

text \<open>\<open>key.split("/")\<close>: a key without slash has no second part.\<close>

definition map_env_event :: "string \<times> jsval \<Rightarrow> event_obj list" where
  "map_env_event kv =
     (case kv of (key, ev) \<Rightarrow>
        if \<not> truthy ev then []
        else let parts = split_char (CHR ''/'') key;
                 e1 = set_default ''type'' (JStr (hd parts)) (as_obj ev)
             in [set_default ''subType'' (case parts of _ # sub # _ \<Rightarrow> JStr sub | _ \<Rightarrow> JUndef) e1])"

definition mapEnvEvents :: "jsval jsobj \<Rightarrow> event_obj list" where
  "mapEnvEvents evs = concat (map map_env_event evs)"

definition mixFileContentWithEnv ::
  "config_env \<Rightarrow> event_obj list \<Rightarrow> event_obj list \<Rightarrow> config \<Rightarrow> config_error + config" where
  "mixFileContentWithEnv ce evs pevs cf =
     (case cdsQueueEventsFromEnv ce cf (cf_requires cf) \<lparr>ca_adHoc = [], ca_periodicEvents = []\<rparr> of
        Inl err \<Rightarrow> Inl err
      | Inr cap \<Rightarrow>
          set_fileContent ce (evs @ mapEnvEvents (cf_configEvents cf) @ map snd (ca_adHoc cap))
            (pevs @ mapEnvEvents (cf_configPeriodicEvents cf) @ map snd (ca_periodicEvents cap)) cf)"

definition addCAPServiceWithoutEnvConfig ::
  "config_env \<Rightarrow> string \<Rightarrow> jsval \<Rightarrow> jsval jsobj \<Rightarrow> config \<Rightarrow> config_error + config" where
  "addCAPServiceWithoutEnvConfig ce serviceName srvOptions customOpts cf =
     (let queueOptions = coalesce (opt_get srvOptions ''queued'') (coalesce (opt_get srvOptions ''outbox'') (JObj []));
          c = obj_assign (obj_assign (getBasicCapOutboxEventConfig cf serviceName) (as_obj queueOptions)) customOpts
      in case addCAPOutboxEventBase ce cf serviceName c (cf_eventMap cf) of
           Inl err \<Rightarrow> Inl err
         | Inr (key, e) \<Rightarrow> Inr (cf\<lparr>cf_eventMap := obj_set key e (cf_eventMap cf)\<rparr>))"

subsection \<open>Which application processes which event\<close>

text \<open>The longest-known-prefix loop of \<open>normalizeSubType\<close>: service name and remaining parts.\<close>

fun find_service :: "jsval jsobj \<Rightarrow> string \<Rightarrow> string list \<Rightarrow> string \<times> string list" where
  "find_service req srvName [] = (srvName, [])"
| "find_service req srvName (part # parts) =
     (if truthy (js_prop req srvName) then (srvName, part # parts)
      else find_service req (join ''.'' [srvName, part]) parts)"

record sub_type =
  st_subType :: string
  st_actionName :: "string option"
  st_srvName :: "string option"

definition normalizeSubType :: "config \<Rightarrow> string \<Rightarrow> string \<Rightarrow> sub_type" where
  "normalizeSubType cf ty raw =
     (if \<not> isCapOutboxEvent ty then \<lparr>st_subType = raw, st_actionName = None, st_srvName = None\<rparr>
      else case split_char (CHR ''.'') raw of
             [] \<Rightarrow> \<lparr>st_subType = raw, st_actionName = None, st_srvName = None\<rparr>
           | p # ps \<Rightarrow>
               (case find_service (cf_requires cf) p ps of (srvName, rest) \<Rightarrow>
                  let actionName = (case rest of [] \<Rightarrow> None | a # _ \<Rightarrow> Some a)
                  in \<lparr>st_subType = (if getCdsOutboxEventSpecificConfig cf srvName actionName \<noteq> None then raw else srvName),
                      st_actionName = actionName, st_srvName = Some srvName\<rparr>))"

text \<open>The loop over the configured application names when one of them is a regular expression.\<close>

fun any_app_name :: "config_env \<Rightarrow> string \<Rightarrow> jsval jsobj \<Rightarrow> (string \<times> jsval) list \<Rightarrow> bool \<Rightarrow> bool" where
  "any_app_name ce app m [] result = result"
| "any_app_name ce app m ((k, c) # rest) result =
     (let r = (case parseRegexOrString ce k of
                 Some test \<Rightarrow> test app
               | None \<Rightarrow> truthy (js_prop m app))
      in if r then True else any_app_name ce app m rest r)"

text \<open>\<open>None\<close>: no such event, the property access throws.\<close>

definition shouldBeProcessedInThisApplication :: "config_env \<Rightarrow> config \<Rightarrow> string \<Rightarrow> string \<Rightarrow> string \<Rightarrow> bool option" where
  "shouldBeProcessedInThisApplication ce cf ty raw ns =
     (case obj_get (cf_eventMap cf) (generateKey (JStr ns) (JStr ty) (JStr (st_subType (normalizeSubType cf ty raw)))) of
        None \<Rightarrow> None
      | Some e \<Rightarrow>
          let names = js_prop e ''_appNameMap''; insts = js_prop e ''_appInstancesMap'';
              regex = truthy (js_prop e ''_appNameContainsRegex'');
              app = cf_applicationName cf;
              instOk = (\<not> truthy insts \<or> truthy (opt_get insts (cf_applicationInstance cf)))
          in if \<not> truthy names \<and> \<not> truthy insts then Some True
             else if truthy names \<and> \<not> regex
             then Some (truthy (opt_get names app) \<and> instOk)
             else let result = (if truthy names then any_app_name ce app (as_obj names) (as_obj names) True else True)
                  in Some (instOk \<and> result))"

subsection \<open>Lemmas\<close>

lemma js_prop_set_default [simp]:
  "js_prop (set_default k d e) k' = (if k' = k then coalesce (js_prop e k) d else js_prop e k')"
  by (simp add: set_default_def)

text \<open>What the later components rely on for an event.\<close>

definition event_ok :: "config \<Rightarrow> event_obj \<Rightarrow> bool" where
  "event_ok cf e \<longleftrightarrow> truthy (js_prop e ''impl'') \<and> truthy (js_prop e ''type'') \<and> truthy (js_prop e ''subType'')
     \<and> known_priority (js_prop e ''priority'') \<and> \<not> num_gt (js_prop e ''load'') (cf_instanceLoadLimit cf)
     \<and> js_prop e ''namespace'' \<noteq> JUndef
     \<and> \<not> nullish (js_prop e ''load'') \<and> \<not> nullish (js_prop e ''retryFailedAfter'') \<and> \<not> nullish (js_prop e ''retryOpenAfter'')
     \<and> js_prop e ''keepAliveMaxInProgressTime'' = keep_alive_max e"

lemma basicEventValidation_ok:
  "basicEventValidation cf e = Inr e' \<Longrightarrow> e' = e \<and> truthy (js_prop e ''impl'') \<and> truthy (js_prop e ''type'')
     \<and> truthy (js_prop e ''subType'') \<and> known_priority (js_prop e ''priority'')
     \<and> \<not> num_gt (js_prop e ''load'') (cf_instanceLoadLimit cf)"
  by (simp add: basicEventValidation_def Let_def split: if_splits)

lemma coalesce_nullish: "nullish (coalesce a b) \<longleftrightarrow> nullish a \<and> nullish b"
  by (simp add: coalesce_def)

lemma basicEventTransformation_simps:
  "js_prop (basicEventTransformation cf e) ''namespace'' \<noteq> JUndef"
  "\<not> nullish (js_prop (basicEventTransformation cf e) ''load'')"
  "js_prop (basicEventTransformation cf e) ''keepAliveMaxInProgressTime'' = keep_alive_max (basicEventTransformation cf e)"
  by (simp_all add: basicEventTransformation_def Let_def coalesce_nullish keep_alive_max_def)

lemma basicEventTransformation_other:
  "k \<notin> {''load'', ''priority'', ''increasePriorityOverTime'', ''keepAliveInterval'', ''keepAliveMaxInProgressTime'',
         ''checkForNextChunk'', ''namespace''} \<Longrightarrow> js_prop (basicEventTransformation cf e) k = js_prop e k"
  by (simp add: basicEventTransformation_def Let_def)

lemma afterValidate_other:
  "k \<notin> {''_appNameMap'', ''_appNameContainsRegex'', ''_appInstancesMap'', ''propagateHeaders'',
         ''propagateContextProperties'', ''retryFailedAfter'', ''retryOpenAfter''} \<Longrightarrow>
     js_prop (basicEventTransformationAfterValidate ce e) k = js_prop e k"
  by (simp add: basicEventTransformationAfterValidate_def Let_def)

lemma afterValidate_retry:
  "\<not> nullish (js_prop (basicEventTransformationAfterValidate ce e) ''retryFailedAfter'')"
  "\<not> nullish (js_prop (basicEventTransformationAfterValidate ce e) ''retryOpenAfter'')"
  by (simp_all add: basicEventTransformationAfterValidate_def Let_def coalesce_nullish)

lemma afterValidate_key: "event_key (basicEventTransformationAfterValidate ce e) = event_key e"
  by (simp add: event_key_def afterValidate_other)

text \<open>A validated event that kept the transformed fields is fine.\<close>

lemma event_ok_afterValidate:
  assumes "basicEventValidation cf e = Inr e'"
    and "js_prop e ''namespace'' \<noteq> JUndef" "\<not> nullish (js_prop e ''load'')"
    and "js_prop e ''keepAliveMaxInProgressTime'' = keep_alive_max e"
  shows "event_ok cf (basicEventTransformationAfterValidate ce e')"
  using assms(2-4) basicEventValidation_ok [OF assms(1)]
  by (simp add: event_ok_def afterValidate_other afterValidate_retry keep_alive_max_def)

lemma validateAdHoc_basic:
  assumes "validateAdHocEvents ce cf m dup e = Inr e'"
  shows "basicEventValidation cf (set_default ''inheritTraceContext'' (JBool DEFAULT_INHERIT_TRACE_CONTEXT) e) = Inr e'"
    and "dup \<Longrightarrow> obj_get m (event_key e) = Some old \<Longrightarrow> truthy (js_prop old ''isPeriodic'')"
  using assms by (auto simp: validateAdHocEvents_def Let_def split: if_splits option.splits)

lemma prepareAdHocEvent_ok:
  assumes "prepareAdHocEvent ce cf m dup e = Inr e'"
  shows "event_ok cf e'" and "js_prop e' ''isPeriodic'' = js_prop e ''isPeriodic''"
    and "dup \<Longrightarrow> obj_get m (event_key e') = Some old \<Longrightarrow> truthy (js_prop old ''isPeriodic'')"
proof -
  let ?e = "set_default ''inheritTraceContext'' (JBool DEFAULT_INHERIT_TRACE_CONTEXT) (basicEventTransformation cf e)"
  from assms obtain e1 where e1: "validateAdHocEvents ce cf m dup (basicEventTransformation cf e) = Inr e1"
    "e' = basicEventTransformationAfterValidate ce e1"
    by (auto simp: prepareAdHocEvent_def split: sum.splits)
  note v = validateAdHoc_basic(1) [OF e1(1)]
  have e1': "e1 = ?e" using basicEventValidation_ok [OF v] by simp
  show "event_ok cf e'"
    unfolding e1(2) by (rule event_ok_afterValidate [OF v]) (simp_all add: basicEventTransformation_simps keep_alive_max_def)
  show "js_prop e' ''isPeriodic'' = js_prop e ''isPeriodic''"
    by (simp add: e1(2) e1' afterValidate_other basicEventTransformation_other)
  have "event_key e' = event_key (basicEventTransformation cf e)"
    by (simp add: e1(2) e1' afterValidate_key) (simp add: event_key_def)
  then show "dup \<Longrightarrow> obj_get m (event_key e') = Some old \<Longrightarrow> truthy (js_prop old ''isPeriodic'')"
    using validateAdHoc_basic(2) [OF e1(1)] by simp
qed

lemma set_timezone_other: "k \<notin> {''utc'', ''useCronTimezone'', ''tz''} \<Longrightarrow> js_prop (set_timezone cf e) k = js_prop e k"
  by (simp add: set_timezone_def Let_def)

lemma validatePeriodic_basic:
  assumes "validatePeriodicConfig ce cf m e = Inr e'"
  shows "\<exists>e1. basicEventValidation cf e1 = Inr e' \<and> (e1 = e \<or> e1 = set_timezone cf e)"
    and "truthy (js_prop e ''cron'') \<noteq> truthy (js_prop e ''interval'')"
    and "obj_get m (event_key e) = Some old \<Longrightarrow> \<not> truthy (js_prop old ''isPeriodic'')"
  using assms by (auto simp: validatePeriodicConfig_def Let_def split: if_splits option.splits prod.splits)

lemma preparePeriodicEvent_ok:
  assumes "preparePeriodicEvent ce cf m e = Inr e'"
  shows "event_ok cf e'" and "js_prop e' ''isPeriodic'' = JBool True"
    and "truthy (js_prop e' ''cron'') \<noteq> truthy (js_prop e' ''interval'')"
    and "js_prop e' ''type'' = JStr (template (js_prop e ''type'') @ SUFFIX_PERIODIC)"
    and "obj_get m (event_key e') = Some old \<Longrightarrow> \<not> truthy (js_prop old ''isPeriodic'')"
proof -
  let ?e = "obj_set ''isPeriodic'' (JBool True) (obj_set ''type'' (JStr (template (js_prop e ''type'') @ SUFFIX_PERIODIC)) e)"
  let ?b = "basicEventTransformation cf ?e"
  from assms obtain e2 where e2: "validatePeriodicConfig ce cf m ?b = Inr e2" "e' = basicEventTransformationAfterValidate ce e2"
    by (auto simp: preparePeriodicEvent_def Let_def split: sum.splits)
  obtain e1 where e1: "basicEventValidation cf e1 = Inr e2" "e1 = ?b \<or> e1 = set_timezone cf ?b"
    using validatePeriodic_basic(1) [OF e2(1)] by blast
  have eq: "e2 = e1" using basicEventValidation_ok [OF e1(1)] by simp
  have keep: "js_prop e1 k = js_prop ?b k" if "k \<notin> {''utc'', ''useCronTimezone'', ''tz''}" for k
    using e1(2) set_timezone_other [OF that] by auto
  show "event_ok cf e'"
    unfolding e2(2)
    by (rule event_ok_afterValidate [OF e1(1)]) (simp_all add: keep keep_alive_max_def basicEventTransformation_simps)
  show "js_prop e' ''isPeriodic'' = JBool True"
    "js_prop e' ''type'' = JStr (template (js_prop e ''type'') @ SUFFIX_PERIODIC)"
    by (simp_all add: e2(2) eq keep afterValidate_other basicEventTransformation_other)
  show "truthy (js_prop e' ''cron'') \<noteq> truthy (js_prop e' ''interval'')"
    using validatePeriodic_basic(2) [OF e2(1)] by (simp add: e2(2) eq keep afterValidate_other)
  have "event_key e' = event_key ?b" by (simp add: e2(2) eq afterValidate_key) (simp add: event_key_def keep)
  then show "obj_get m (event_key e') = Some old \<Longrightarrow> \<not> truthy (js_prop old ''isPeriodic'')"
    using validatePeriodic_basic(3) [OF e2(1)] by simp
qed

definition map_ok :: "config \<Rightarrow> event_obj jsobj \<Rightarrow> bool" where
  "map_ok cf m \<longleftrightarrow> distinct (obj_keys m) \<and>
     (\<forall>(k, e)\<in>set m. event_key e = k \<and> event_ok cf e
        \<and> (truthy (js_prop e ''isPeriodic'') \<longrightarrow> truthy (js_prop e ''cron'') \<noteq> truthy (js_prop e ''interval'')))"

lemma map_ok_set:
  "map_ok cf m \<Longrightarrow> event_ok cf e \<Longrightarrow>
     (truthy (js_prop e ''isPeriodic'') \<longrightarrow> truthy (js_prop e ''cron'') \<noteq> truthy (js_prop e ''interval'')) \<Longrightarrow>
     map_ok cf (obj_set (event_key e) e m)"
  by (auto simp: map_ok_def dest!: obj_set_mem)

lemma sanitized_not_periodic: "js_prop (sanitizeParamsAdHocEvent e) ''isPeriodic'' = JUndef"
proof -
  have "''isPeriodic'' \<notin> fst ` set (sanitizeParamsAdHocEvent e)"
    by (auto simp: sanitizeParamsAdHocEvent_def sanitizeParamsBase_def ALLOWED_EVENT_OPTIONS_AD_HOC_def
        ALLOWED_EVENT_OPTIONS_BASE_def)
  then have "obj_get (sanitizeParamsAdHocEvent e) ''isPeriodic'' = None" by (simp add: map_of_eq_None_iff)
  then show ?thesis by (simp add: js_prop_def)
qed

lemma load_adhoc_ok:
  assumes "load_adhoc ce cf es m = Inr m'" "map_ok cf m" "\<forall>(k, e)\<in>set m. \<not> truthy (js_prop e ''isPeriodic'')"
  shows "map_ok cf m' \<and> length m' = length m + length es"
  using assms
proof (induction es arbitrary: m)
  case (Cons e es)
  from Cons.prems(1) obtain e' where e': "prepareAdHocEvent ce cf m True (sanitizeParamsAdHocEvent e) = Inr e'"
    "load_adhoc ce cf es (obj_set (event_key e') e' m) = Inr m'" by (auto split: sum.splits)
  note ok = prepareAdHocEvent_ok [OF e'(1)]
  have np: "\<not> truthy (js_prop e' ''isPeriodic'')" using ok(2) sanitized_not_periodic [of e] by simp
  have "obj_get m (event_key e') = None"
  proof (cases "obj_get m (event_key e')")
    case (Some old)
    then have "(event_key e', old) \<in> set m" by (rule map_of_SomeD)
    with Cons.prems(3) have "\<not> truthy (js_prop old ''isPeriodic'')" by auto
    with ok(3) [OF TrueI Some] show ?thesis by contradiction
  qed
  then have "length (obj_set (event_key e') e' m) = Suc (length m)"
    by (simp add: length_obj_set_fresh map_of_eq_None_iff)
  moreover have "\<forall>(k, e)\<in>set (obj_set (event_key e') e' m). \<not> truthy (js_prop e ''isPeriodic'')"
    using np Cons.prems(3) by (auto dest!: obj_set_mem)
  moreover have "map_ok cf (obj_set (event_key e') e' m)" using map_ok_set [OF Cons.prems(2) ok(1)] np by blast
  ultimately show ?case using Cons.IH [OF e'(2)] by simp
qed simp

lemma load_periodic_ok:
  assumes "load_periodic ce cf es m = Inr m'" "map_ok cf m"
  shows "map_ok cf m'"
  using assms
proof (induction es arbitrary: m)
  case (Cons e es)
  from Cons.prems(1) obtain e' where e': "preparePeriodicEvent ce cf m (sanitizeParamsPeriodicEventEvent e) = Inr e'"
    "load_periodic ce cf es (obj_set (event_key e') e' m) = Inr m'" by (auto split: sum.splits)
  note ok = preparePeriodicEvent_ok [OF e'(1)]
  show ?case by (rule Cons.IH [OF e'(2) map_ok_set [OF Cons.prems(2) ok(1)]]) (use ok(3) in blast)
qed simp

lemma any_app_name_iff:
  "any_app_name ce app m ents r \<longleftrightarrow> (ents = [] \<and> r) \<or>
     (\<exists>k\<in>fst ` set ents. case parseRegexOrString ce k of Some test \<Rightarrow> test app | None \<Rightarrow> truthy (js_prop m app))"
  by (induction ce app m ents r rule: any_app_name.induct) (auto simp: Let_def)

lemma keys_obj_from: "fst ` set (obj_from ps) = fst ` set ps"
proof -
  have "fst ` set (obj_assign base ps) = fst ` set base \<union> fst ` set ps" for base :: "'a jsobj"
    unfolding obj_assign_def by (induction ps arbitrary: base) (auto simp: case_prod_beta)
  from this [of "[]"] show ?thesis by (simp add: obj_from_def obj_assign_def)
qed

lemma obj_from_truthy:
  assumes "\<And>p. p \<in> set ps \<Longrightarrow> truthy (snd p)"
  shows "truthy (js_prop (obj_from ps) k) \<longleftrightarrow> k \<in> fst ` set ps"
proof (cases "obj_get (obj_from ps) k")
  case None
  then have "k \<notin> fst ` set (obj_from ps)" by (simp add: map_of_eq_None_iff)
  with None show ?thesis by (simp add: js_prop_def keys_obj_from)
next
  case (Some v)
  then have "(k, v) \<in> set ps" by (metis map_of_SomeD obj_from_get set_rev)
  with assms have "truthy v" "k \<in> fst ` set ps" by force+
  with Some show ?thesis by (simp add: js_prop_def)
qed

subsection \<open>Properties\<close>


text \<open>
  A periodic event without type is not rejected: its type becomes \<open>undefined_PERIODIC\<close>, so the
  check for a missing type never applies to periodic events.
\<close>

theorem periodic_event_without_type_is_accepted:
  assumes "preparePeriodicEvent ce cf m e = Inr e'" "js_prop e ''type'' = JUndef"
  shows "js_prop e' ''type'' = JStr ''undefined_PERIODIC'' \<and> event_ok cf e'"
  using preparePeriodicEvent_ok [OF assms(1)] assms(2) by (simp add: template_def SUFFIX_PERIODIC_def)

text \<open>
  An event restricted to application names and instances is processed in exactly the
  applications that match one of its names, literally or as a regular expression, and run one of
  its instances.
\<close>

theorem application_selection:
  assumes "obj_get (cf_eventMap cf) (generateKey (JStr ns) (JStr ty) (JStr (st_subType (normalizeSubType cf ty raw))))
      = Some (basicEventTransformationAfterValidate ce e)"
    and "js_prop e ''appNames'' = JArr (map JStr names)" "js_prop e ''appInstances'' = JArr (map JNum insts)"
  shows "shouldBeProcessedInThisApplication ce cf ty raw ns = Some
    ((\<exists>n\<in>set names. case parseRegexOrString ce n of Some test \<Rightarrow> test (cf_applicationName cf)
                    | None \<Rightarrow> cf_applicationName cf \<in> set names)
     \<and> cf_applicationInstance cf \<in> show_int ` set insts)"
proof -
  let ?e = "basicEventTransformationAfterValidate ce e" and ?app = "cf_applicationName cf"
  define P where "P = obj_from (map (app_name_entry ce) (map JStr names))"
  define I where "I = obj_from (map (\<lambda>v. (key_part v, JBool True)) (map JNum insts))"
  have kp: "key_part (JStr s) = s" "key_part (JNum n) = show_int n" for s n
    by (simp_all add: key_part_def join_part_def)
  have e: "js_prop ?e ''_appNameMap'' = JObj P" "js_prop ?e ''_appInstancesMap'' = JObj I"
    "js_prop ?e ''_appNameContainsRegex'' = JBool (\<exists>n\<in>set names. parseRegexOrString ce n \<noteq> None)"
    using assms(2,3) by (simp_all add: basicEventTransformationAfterValidate_def Let_def kp P_def I_def)
  have names: "truthy (js_prop P k) \<longleftrightarrow> k \<in> set names" for k
    unfolding P_def by (subst obj_from_truthy) (auto simp: app_name_entry_def kp image_iff)
  have insts: "truthy (js_prop I k) \<longleftrightarrow> k \<in> show_int ` set insts" for k
    unfolding I_def by (subst obj_from_truthy) (auto simp: kp image_iff)
  have keys: "fst ` set P = set names" unfolding P_def by (auto simp: keys_obj_from app_name_entry_def kp image_iff)
  have ne: "P = [] \<longleftrightarrow> names = []" using keys by (metis image_is_empty set_empty)
  have any: "any_app_name ce ?app P P True \<longleftrightarrow> names = [] \<or>
      (\<exists>n\<in>set names. case parseRegexOrString ce n of Some test \<Rightarrow> test ?app | None \<Rightarrow> ?app \<in> set names)"
    unfolding any_app_name_iff keys ne names by simp
  show ?thesis
  proof (cases "\<exists>n\<in>set names. parseRegexOrString ce n \<noteq> None")
    case True
    then have "names \<noteq> []" by auto
    then show ?thesis
      using assms(1) True
      by (simp add: shouldBeProcessedInThisApplication_def e any insts opt_get_def conj_commute)
  next
    case False
    then have "(\<exists>n\<in>set names. case parseRegexOrString ce n of Some test \<Rightarrow> test ?app | None \<Rightarrow> ?app \<in> set names)
        \<longleftrightarrow> ?app \<in> set names" by auto
    then show ?thesis
      using assms(1) False
      by (simp add: shouldBeProcessedInThisApplication_def e names insts opt_get_def)
  qed
qed

subsection \<open>Witnesses\<close>

definition demo_ce :: config_env where
  "demo_ce = \<lparr>ce_cronDates = (\<lambda>s. if s = ''bad'' then None else Some (0, 60000)),
     ce_regex = (\<lambda>body flags. Some (\<lambda>app. app = body))\<rparr>"

definition demo_config :: config where
  "demo_config = \<lparr>cf_eventMap = [], cf_namespace = ''default'', cf_processingNamespaces = [''default''],
     cf_instanceLoadLimit = 100, cf_cronTimezone = JUndef, cf_unsubscribedTenants = [], cf_disableRedis = False,
     cf_redisBound = False, cf_redisEnabled = False, cf_isMultiTenancy = False, cf_runInterval = Some 1500000,
     cf_applicationName = ''app'', cf_applicationInstance = ''0'', cf_requires = [], cf_configEvents = [],
     cf_configPeriodicEvents = []\<rparr>"

definition demo_adhoc :: event_obj where
  "demo_adhoc = [(''type'', JStr ''T''), (''subType'', JStr ''S''), (''impl'', JStr ''./i''), (''load'', JNum 10),
     (''keepAliveMaxInProgressTime'', JNum 1), (''appNames'', JArr [JStr ''/app/'', JStr ''b'']), (''appInstances'', JArr [JNum 0])]"

definition demo_periodic :: event_obj where
  "demo_periodic = [(''subType'', JStr ''S''), (''impl'', JStr ''./i''), (''cron'', JStr ''* * * * *'')]"

definition demo_loaded :: config where
  "demo_loaded = projr (set_fileContent demo_ce [demo_adhoc] [demo_periodic] demo_config)"

lemma demo_loaded_eq: "set_fileContent demo_ce [demo_adhoc] [demo_periodic] demo_config = Inr demo_loaded"
proof -
  have "\<not> isl (set_fileContent demo_ce [demo_adhoc] [demo_periodic] demo_config)" by code_simp
  then show ?thesis by (simp add: demo_loaded_def)
qed


definition demo_prepared :: event_obj where
  "demo_prepared = projr (preparePeriodicEvent demo_ce demo_config [] demo_periodic)"

theorem periodic_event_without_type_is_accepted_witness:
  "js_prop demo_prepared ''type'' = JStr ''undefined_PERIODIC''"
proof -
  have "\<not> isl (preparePeriodicEvent demo_ce demo_config [] demo_periodic)" by code_simp
  then have "preparePeriodicEvent demo_ce demo_config [] demo_periodic = Inr demo_prepared" by (simp add: demo_prepared_def)
  moreover have "js_prop demo_periodic ''type'' = JUndef" by code_simp
  ultimately show ?thesis using periodic_event_without_type_is_accepted by blast
qed

definition demo_restricted :: config where
  "demo_restricted = demo_config\<lparr>cf_eventMap := [(''default##T##S'', basicEventTransformationAfterValidate demo_ce demo_adhoc)]\<rparr>"

theorem application_selection_witness:
  "shouldBeProcessedInThisApplication demo_ce demo_restricted ''T'' ''S'' ''default'' = Some True"
proof -
  have h: "obj_get (cf_eventMap demo_restricted)
      (generateKey (JStr ''default'') (JStr ''T'') (JStr (st_subType (normalizeSubType demo_restricted ''T'' ''S''))))
      = Some (basicEventTransformationAfterValidate demo_ce demo_adhoc)"
    "js_prop demo_adhoc ''appNames'' = JArr (map JStr [''/app/'', ''b''])"
    "js_prop demo_adhoc ''appInstances'' = JArr (map JNum [0])"
    by code_simp+
  have "(\<exists>n\<in>set [''/app/'', ''b'']. case parseRegexOrString demo_ce n of Some test \<Rightarrow> test (cf_applicationName demo_restricted)
          | None \<Rightarrow> cf_applicationName demo_restricted \<in> set [''/app/'', ''b''])
     \<and> cf_applicationInstance demo_restricted \<in> show_int ` set [0]" by code_simp
  then show ?thesis using application_selection [OF h] by simp
qed

end
