(* ===== verification/DistributedLock.thy ===== *)
theory DistributedLock
  imports Config EventScheduler
begin

text \<open>
  \<open>src/shared/distributedLock.js\<close>: locks with expiry, in the table \<open>sap.eventqueue.Lock\<close> or in Redis.
  The state holds the lock table, the Redis store and the module's \<open>existingLocks\<close>.  Redis is a
  parameter, the record \<open>redis\<close> of the client commands the module uses; \<open>redis_laws\<close> states what their
  documentation promises.  Times are milliseconds; all expiry times are whole, so \<open>Math.round\<close> is
  the identity.

  The contract \<open>lock_service\<close> states what a lock promises and derives mutual exclusion and the refinement
  of the abstract specification \<open>spec_acquire\<close>, \<open>spec_release\<close>; it is interpreted on the table and shown
  for every Redis that keeps its laws.
\<close>

subsection \<open>State\<close>

record lock_row =
  lk_code :: string
  lk_value :: string
  lk_createdAt :: time

datatype set_mode = Always | NX | XX

record 'r redis =
  rd_set :: "time \<Rightarrow> string \<Rightarrow> string \<Rightarrow> int \<Rightarrow> set_mode \<Rightarrow> 'r \<Rightarrow> 'r \<times> bool"
  rd_get :: "time \<Rightarrow> string \<Rightarrow> 'r \<Rightarrow> string option"
  rd_del :: "time \<Rightarrow> string \<Rightarrow> 'r \<Rightarrow> 'r \<times> nat"

record 'r locks =
  lo_table :: "lock_row list"
  lo_redis :: 'r
  existingLocks :: "tenant jsobj"

text \<open>What Redis documents: \<open>SET\<close> with \<open>NX\<close> (\<open>XX\<close>) succeeds iff the key has no (a) value, a successful \<open>SET\<close>
  with \<open>PX\<close> stores the value until the expiry, a failed one changes nothing, \<open>DEL\<close> removes, and no command
  touches another key.\<close>

definition redis_laws :: "'r redis \<Rightarrow> bool" where
  "redis_laws rd \<longleftrightarrow>
     (\<forall>now k v px mode s. snd (rd_set rd now k v px mode s) \<longleftrightarrow>
        (case mode of Always \<Rightarrow> True | NX \<Rightarrow> rd_get rd now k s = None | XX \<Rightarrow> rd_get rd now k s \<noteq> None))
   \<and> (\<forall>now k v px mode s t. snd (rd_set rd now k v px mode s) \<longrightarrow> now \<le> t \<longrightarrow>
        rd_get rd t k (fst (rd_set rd now k v px mode s)) = (if t < now + px then Some v else None))
   \<and> (\<forall>now k v px mode s t k'. (\<not> snd (rd_set rd now k v px mode s) \<or> k' \<noteq> k) \<longrightarrow>
        rd_get rd t k' (fst (rd_set rd now k v px mode s)) = rd_get rd t k' s)
   \<and> (\<forall>now k s t k'. rd_get rd t k' (fst (rd_del rd now k s)) = (if k' = k then None else rd_get rd t k' s))
   \<and> (\<forall>now k s. snd (rd_del rd now k s) = (if rd_get rd now k s = None then 0 else 1))"

subsection \<open>Keys\<close>

definition lock_key :: "config \<Rightarrow> tenant \<Rightarrow> bool \<Rightarrow> string \<Rightarrow> bool \<Rightarrow> string" where
  "lock_key cf t tenantScoped key skipNamespace =
     join hash_sep ([redisNamespace (\<not> skipNamespace) cf] @ (if tenantScoped then [tenant_part t] else []) @ [key])"

subsection \<open>The lock table\<close>

definition lock_row_of :: "lock_row list \<Rightarrow> string \<Rightarrow> lock_row option" where
  "lock_row_of rows k = find (\<lambda>r. lk_code r = k) rows"

definition getLockValueDb :: "string \<Rightarrow> lock_row list \<Rightarrow> string option" where
  "getLockValueDb k rows = map_option lk_value (lock_row_of rows k)"

definition releaseLockDb :: "string \<Rightarrow> lock_row list \<Rightarrow> lock_row list" where
  "releaseLockDb k rows = filter (\<lambda>r. lk_code r \<noteq> k) rows"

text \<open>The \<open>INSERT\<close> fails exactly when the unique code exists.\<close>

definition acquireLockDB ::
  "time \<Rightarrow> string \<Rightarrow> int \<Rightarrow> string \<Rightarrow> bool \<Rightarrow> lock_row list \<Rightarrow> lock_row list \<times> bool" where
  "acquireLockDB now k expiryTime val overrideValue rows =
     (case lock_row_of rows k of
        None \<Rightarrow> (rows @ [\<lparr>lk_code = k, lk_value = val, lk_createdAt = now\<rparr>], True)
      | Some r \<Rightarrow>
          if overrideValue \<or> lk_createdAt r + expiryTime \<le> now
          then (map (\<lambda>r'. if lk_code r' = k then r'\<lparr>lk_createdAt := now, lk_value := val\<rparr> else r') rows, True)
          else (rows, False))"

subsection \<open>Locks in Redis\<close>

definition acquireLockRedis ::
  "'r redis \<Rightarrow> time \<Rightarrow> string \<Rightarrow> int \<Rightarrow> string \<Rightarrow> bool \<Rightarrow> 'r \<Rightarrow> 'r \<times> bool" where
  "acquireLockRedis rd now k expiryTime val overrideValue s =
     rd_set rd now k val expiryTime (if overrideValue then Always else NX) s"

definition renewLockRedis :: "'r redis \<Rightarrow> time \<Rightarrow> string \<Rightarrow> int \<Rightarrow> 'r \<Rightarrow> 'r \<times> bool" where
  "renewLockRedis rd now k expiryTime s =
     (case rd_set rd now k ''true'' expiryTime XX s of
        (s1, True) \<Rightarrow> (s1, True)
      | (s1, False) \<Rightarrow>
          (case rd_get rd now k s1 of
             Some v \<Rightarrow> if v = [] then rd_set rd now k ''true'' expiryTime Always s1 else (s1, False)
           | None \<Rightarrow> rd_set rd now k ''true'' expiryTime Always s1))"

definition releaseLockRedis :: "'r redis \<Rightarrow> time \<Rightarrow> string \<Rightarrow> 'r \<Rightarrow> 'r \<times> bool" where
  "releaseLockRedis rd now k s = (case rd_del rd now k s of (s', n) \<Rightarrow> (s', n = 1))"

subsection \<open>The operations of the module\<close>

definition track :: "bool \<Rightarrow> bool \<Rightarrow> string \<Rightarrow> tenant \<Rightarrow> 'r locks \<Rightarrow> 'r locks" where
  "track ok keep k t s = (if ok \<and> keep then s\<lparr>existingLocks := obj_set k t (existingLocks s)\<rparr> else s)"

definition acquire_full ::
  "'r redis \<Rightarrow> config \<Rightarrow> time \<Rightarrow> tenant \<Rightarrow> string \<Rightarrow> int \<Rightarrow> string option \<Rightarrow> bool \<Rightarrow> bool \<Rightarrow> 'r locks \<Rightarrow> 'r locks \<times> bool" where
  "acquire_full rd cf now t k expiryTime val overrideValue keep s =
     (if cf_redisEnabled cf
      then (case acquireLockRedis rd now k expiryTime (case val of Some v \<Rightarrow> v | None \<Rightarrow> show_int now) overrideValue (lo_redis s) of
              (r, ok) \<Rightarrow> (track ok keep k t (s\<lparr>lo_redis := r\<rparr>), ok))
      else (case acquireLockDB now k expiryTime (case val of Some v \<Rightarrow> v | None \<Rightarrow> ''true'') overrideValue (lo_table s) of
              (rows, ok) \<Rightarrow> (track ok keep k t (s\<lparr>lo_table := rows\<rparr>), ok)))"

definition acquireLock ::
  "'r redis \<Rightarrow> config \<Rightarrow> time \<Rightarrow> tenant \<Rightarrow> string \<Rightarrow> bool \<Rightarrow> int \<Rightarrow> bool \<Rightarrow> bool \<Rightarrow> 'r locks \<Rightarrow> 'r locks \<times> bool" where
  "acquireLock rd cf now t key tenantScoped expiryTime keepTrackOfLock skipNamespace s =
     acquire_full rd cf now t (lock_key cf t tenantScoped key skipNamespace) expiryTime None False keepTrackOfLock s"

definition renewLock ::
  "'r redis \<Rightarrow> config \<Rightarrow> time \<Rightarrow> tenant \<Rightarrow> string \<Rightarrow> bool \<Rightarrow> int \<Rightarrow> 'r locks \<Rightarrow> 'r locks \<times> bool" where
  "renewLock rd cf now t key tenantScoped expiryTime s =
     (let k = lock_key cf t tenantScoped key False in
      if cf_redisEnabled cf
      then (case renewLockRedis rd now k expiryTime (lo_redis s) of (r, ok) \<Rightarrow> (s\<lparr>lo_redis := r\<rparr>, ok))
      else (case acquireLockDB now k expiryTime ''true'' True (lo_table s) of (rows, ok) \<Rightarrow> (s\<lparr>lo_table := rows\<rparr>, ok)))"

text \<open>Without Redis the lock is not tracked (the option is not passed on).\<close>

definition setValueWithExpire ::
  "'r redis \<Rightarrow> config \<Rightarrow> time \<Rightarrow> tenant \<Rightarrow> string \<Rightarrow> string \<Rightarrow> bool \<Rightarrow> int \<Rightarrow> bool \<Rightarrow> bool \<Rightarrow> 'r locks \<Rightarrow> 'r locks \<times> bool" where
  "setValueWithExpire rd cf now t key val tenantScoped expiryTime overrideValue keepTrackOfLock s =
     acquire_full rd cf now t (lock_key cf t tenantScoped key False) expiryTime (Some val) overrideValue
       (keepTrackOfLock \<and> cf_redisEnabled cf) s"

definition release_full :: "'r redis \<Rightarrow> config \<Rightarrow> time \<Rightarrow> string \<Rightarrow> 'r locks \<Rightarrow> 'r locks \<times> bool" where
  "release_full rd cf now k s =
     (if cf_redisEnabled cf
      then (case releaseLockRedis rd now k (lo_redis s) of
              (r, ok) \<Rightarrow> (s\<lparr>lo_redis := r, existingLocks := obj_del k (existingLocks s)\<rparr>, ok))
      else (s\<lparr>lo_table := releaseLockDb k (lo_table s), existingLocks := obj_del k (existingLocks s)\<rparr>, True))"

definition releaseLock ::
  "'r redis \<Rightarrow> config \<Rightarrow> time \<Rightarrow> tenant \<Rightarrow> string \<Rightarrow> bool \<Rightarrow> bool \<Rightarrow> 'r locks \<Rightarrow> 'r locks \<times> bool" where
  "releaseLock rd cf now t key tenantScoped skipNamespace s =
     release_full rd cf now (lock_key cf t tenantScoped key skipNamespace) s"

definition getValue :: "'r redis \<Rightarrow> config \<Rightarrow> time \<Rightarrow> tenant \<Rightarrow> string \<Rightarrow> bool \<Rightarrow> 'r locks \<Rightarrow> string option" where
  "getValue rd cf now t key tenantScoped s =
     (let k = lock_key cf t tenantScoped key False in
      if cf_redisEnabled cf then rd_get rd now k (lo_redis s) else getLockValueDb k (lo_table s))"

definition checkLockExists :: "'r redis \<Rightarrow> config \<Rightarrow> time \<Rightarrow> tenant \<Rightarrow> string \<Rightarrow> bool \<Rightarrow> 'r locks \<Rightarrow> bool" where
  "checkLockExists rd cf now t key tenantScoped s =
     (case getValue rd cf now t key tenantScoped s of None \<Rightarrow> False | Some v \<Rightarrow> v \<noteq> [])"

text \<open>\<open>shutdownHandler\<close> releases every tracked lock.\<close>

definition shutdownHandler :: "'r redis \<Rightarrow> config \<Rightarrow> time \<Rightarrow> 'r locks \<Rightarrow> 'r locks" where
  "shutdownHandler rd cf now s = foldl (\<lambda>s' k. fst (release_full rd cf now k s')) s (obj_keys (existingLocks s))"

text \<open>\<open>getAllLocksRedis\<close> over the scanned keys with their remaining time and value.\<close>

record lock_info =
  li_namespace :: string
  li_tenant :: string
  li_type :: string
  li_subType :: string
  li_ttl :: int
  li_createdAt :: string

definition lock_info_of :: "string \<times> int \<times> string \<Rightarrow> lock_info list" where
  "lock_info_of entry =
     (case entry of (key, ttl, val) \<Rightarrow>
        (case split_hash key of
           _ # ns # t # ty # sub # _ \<Rightarrow>
             if sub = [] then []
             else [\<lparr>li_namespace = ns, li_tenant = t, li_type = ty, li_subType = sub, li_ttl = ttl, li_createdAt = val\<rparr>]
         | _ \<Rightarrow> []))"

definition getAllLocksRedis :: "(string \<times> int \<times> string) list \<Rightarrow> lock_info list" where
  "getAllLocksRedis scanned = concat (map lock_info_of scanned)"

subsection \<open>The contract of a lock\<close>

text \<open>A sequence of lock operations of any number of processes, with the result of each.\<close>

datatype 'k lock_op = Acquire time 'k int | Release time 'k

fun run_locks ::
  "(time \<Rightarrow> 'k \<Rightarrow> int \<Rightarrow> 's \<Rightarrow> 's \<times> bool) \<Rightarrow> (time \<Rightarrow> 'k \<Rightarrow> 's \<Rightarrow> 's) \<Rightarrow> 'k lock_op list \<Rightarrow> 's \<Rightarrow> 's \<times> ('k lock_op \<times> bool) list" where
  "run_locks acq rel [] s = (s, [])"
| "run_locks acq rel (Acquire t k ttl # ops) s =
     (case acq t k ttl s of (s1, ok) \<Rightarrow>
        case run_locks acq rel ops s1 of (s2, rs) \<Rightarrow> (s2, (Acquire t k ttl, ok) # rs))"
| "run_locks acq rel (Release t k # ops) s =
     (case run_locks acq rel ops (rel t k s) of (s2, rs) \<Rightarrow> (s2, (Release t k, True) # rs))"

lemma run_locks_snoc:
  "snd (run_locks acq rel (ops @ [Acquire t k ttl]) s)
     = snd (run_locks acq rel ops s) @ [(Acquire t k ttl, snd (acq t k ttl (fst (run_locks acq rel ops s))))]"
proof (induction ops arbitrary: s)
  case (Cons op ops)
  then show ?case by (cases op) (simp_all add: split_beta)
qed (simp add: split_beta)

text \<open>Operations that happen while a lock on \<open>k\<close> taken at \<open>t0\<close> for \<open>ttl\<close> is running, none of them a
  release of \<open>k\<close>.\<close>

fun during :: "time \<Rightarrow> 'k \<Rightarrow> int \<Rightarrow> 'k lock_op \<Rightarrow> bool" where
  "during t0 k ttl (Acquire t k' ttl') \<longleftrightarrow> (k' = k \<longrightarrow> t0 \<le> t \<and> t < t0 + ttl \<and> ttl' = ttl)"
| "during t0 k ttl (Release t k') \<longleftrightarrow> k' \<noteq> k"

text \<open>The abstract specification: the time at which each running lock ends.\<close>

definition running :: "time \<Rightarrow> 'k \<Rightarrow> ('k \<rightharpoonup> time) \<Rightarrow> bool" where
  "running t k sp = (case sp k of None \<Rightarrow> False | Some e \<Rightarrow> t < e)"

definition spec_acquire :: "time \<Rightarrow> 'k \<Rightarrow> int \<Rightarrow> ('k \<rightharpoonup> time) \<Rightarrow> ('k \<rightharpoonup> time) \<times> bool" where
  "spec_acquire now k ttl sp = (if running now k sp then (sp, False) else (sp(k \<mapsto> now + ttl), True))"

definition spec_release :: "time \<Rightarrow> 'k \<Rightarrow> ('k \<rightharpoonup> time) \<Rightarrow> ('k \<rightharpoonup> time)" where
  "spec_release now k sp = sp(k := None)"

fun op_time :: "'k lock_op \<Rightarrow> time" where
  "op_time (Acquire t k ttl) = t"
| "op_time (Release t k) = t"

text \<open>Every user of a lock asks with the same expiry.\<close>

fun agreed :: "('k \<Rightarrow> int) \<Rightarrow> 'k lock_op \<Rightarrow> bool" where
  "agreed expiry (Acquire t k ttl) \<longleftrightarrow> ttl = expiry k"
| "agreed expiry (Release t k) \<longleftrightarrow> True"

text \<open>\<open>held t ttl k s\<close>: at time \<open>t\<close> the lock is held for somebody who asks with expiry \<open>ttl\<close>.\<close>

locale lock_service =
  fixes acquire :: "time \<Rightarrow> 'k \<Rightarrow> int \<Rightarrow> 's \<Rightarrow> 's \<times> bool" and release :: "time \<Rightarrow> 'k \<Rightarrow> 's \<Rightarrow> 's"
    and held :: "time \<Rightarrow> int \<Rightarrow> 'k \<Rightarrow> 's \<Rightarrow> bool"
  assumes acquire_iff: "snd (acquire now k ttl s) \<longleftrightarrow> \<not> held now ttl k s"
    and acquire_held: "snd (acquire now k ttl s) \<Longrightarrow> now \<le> t \<Longrightarrow>
      held t ttl k (fst (acquire now k ttl s)) \<longleftrightarrow> t < now + ttl"
    and acquire_keeps: "\<not> snd (acquire now k ttl s) \<or> k' \<noteq> k \<Longrightarrow>
      held t ttl' k' (fst (acquire now k ttl s)) = held t ttl' k' s"
    and release_same: "\<not> held t ttl k (release now k s)"
    and release_keeps: "k' \<noteq> k \<Longrightarrow> held t ttl k' (release now k s) = held t ttl k' s"
begin

lemma nobody_else:
  assumes "\<And>t. t0 \<le> t \<Longrightarrow> t < t0 + ttl \<Longrightarrow> held t ttl k s" "list_all (during t0 k ttl) ops"
    and "(Acquire t k ttl', ok) \<in> set (snd (run_locks acquire release ops s))"
  shows "\<not> ok"
  using assms
proof (induction ops arbitrary: s)
  case (Cons op ops)
  show ?case
  proof (cases op)
    case (Acquire t1 k1 ttl1)
    obtain s1 ok1 where a: "acquire t1 k1 ttl1 s = (s1, ok1)" by fastforce
    have no: "\<not> ok1 \<or> k1 \<noteq> k"
      using acquire_iff [of t1 k1 ttl1 s] a Cons.prems(1,2) Acquire by auto
    have "held t ttl k s1 = held t ttl k s" for t
      using acquire_keeps [of t1 k1 ttl1 s k] a no by auto
    then have IH: "(Acquire t k ttl', ok) \<in> set (snd (run_locks acquire release ops s1)) \<Longrightarrow> \<not> ok"
      using Cons.IH [of s1] Cons.prems(1,2) by simp
    then show ?thesis
      using Cons.prems(3) no by (auto simp: Acquire a split: prod.splits)
  next
    case (Release t1 k1)
    then have "k1 \<noteq> k" using Cons.prems(2) by simp
    then have "held t ttl k (release t1 k1 s) = held t ttl k s" for t
      using release_keeps [of k k1] by metis
    then show ?thesis
      using Cons.IH [of "release t1 k1 s"] Cons.prems by (auto simp: Release split: prod.splits)
  qed
qed simp

lemma mutual_exclusion:
  assumes "snd (acquire t0 k ttl s)" "list_all (during t0 k ttl) ops"
    and "(Acquire t k ttl', ok) \<in> set (snd (run_locks acquire release ops (fst (acquire t0 k ttl s))))"
  shows "\<not> ok"
  using nobody_else [OF _ assms(2,3)] acquire_held [OF assms(1)] by blast

text \<open>The simulation: from a time on the same locks are held.\<close>

lemma refines_spec:
  assumes "\<And>t k. t0 \<le> t \<Longrightarrow> held t (expiry k) k s = running t k sp"
    and "sorted (t0 # map op_time ops)" "list_all (agreed expiry) ops"
  shows "snd (run_locks acquire release ops s) = snd (run_locks spec_acquire spec_release ops sp)"
  using assms
proof (induction ops arbitrary: t0 s sp)
  case (Cons op ops)
  have time: "t0 \<le> op_time op" and rest: "sorted (op_time op # map op_time ops)" "list_all (agreed expiry) ops"
    using Cons.prems(2,3) by auto
  show ?case
  proof (cases op)
    case (Acquire t1 k1 ttl1)
    obtain s1 ok1 where a: "acquire t1 k1 ttl1 s = (s1, ok1)" by fastforce
    obtain sp1 ok2 where b: "spec_acquire t1 k1 ttl1 sp = (sp1, ok2)" by fastforce
    have ttl: "ttl1 = expiry k1" and t1: "t0 \<le> t1" using Cons.prems(3) time by (simp_all add: Acquire)
    have ok: "ok2 = ok1"
      using acquire_iff [of t1 k1 ttl1 s] Cons.prems(1) [OF t1, of k1] a b ttl by (auto simp: spec_acquire_def split: if_splits)
    have "held t (expiry k) k s1 = running t k sp1" if "t1 \<le> t" for t k
    proof (cases "ok1 \<and> k = k1")
      case True
      then show ?thesis using acquire_held [of t1 k1 ttl1 s t] that a b ok ttl
        by (auto simp: spec_acquire_def running_def split: if_splits)
    next
      case False
      then have "running t k sp1 = running t k sp" using b ok by (auto simp: spec_acquire_def running_def split: if_splits)
      then show ?thesis using acquire_keeps [of t1 k1 ttl1 s k t] False a Cons.prems(1) [of t k] that t1 by auto
    qed
    from Cons.IH [OF this] rest show ?thesis by (simp add: Acquire a b ok split_beta)
  next
    case (Release t1 k1)
    have "held t (expiry k) k (release t1 k1 s) = running t k (spec_release t1 k1 sp)" if "t1 \<le> t" for t k
      using release_same [of t "expiry k1" k1 t1 s] release_keeps [of k k1 t "expiry k" t1 s] Cons.prems(1) [of t k] that time
      by (cases "k = k1") (auto simp: spec_release_def running_def Release)
    from Cons.IH [OF this] rest show ?thesis by (simp add: Release split_beta)
  qed
qed simp

lemma held_after_releases:
  "held t ttl k (foldl (\<lambda>s' k'. release now k' s') s ks) \<longleftrightarrow> k \<notin> set ks \<and> held t ttl k s"
proof (induction ks arbitrary: s)
  case (Cons k' ks)
  then show ?case using release_same [of t ttl k' now s] release_keeps [of k k' t ttl now s] by (cases "k = k'") simp_all
qed simp

lemma free_after_release: "snd (acquire t k ttl (release now k s))"
  by (simp add: acquire_iff release_same)

lemma free_after_expiry: "snd (acquire t0 k ttl s) \<Longrightarrow> 0 \<le> ttl \<Longrightarrow> t0 + ttl \<le> t \<Longrightarrow> snd (acquire t k ttl (fst (acquire t0 k ttl s)))"
  using acquire_held [of t0 k ttl s t] by (simp add: acquire_iff)

end

definition heldDb :: "time \<Rightarrow> int \<Rightarrow> string \<Rightarrow> lock_row list \<Rightarrow> bool" where
  "heldDb t ttl k rows = (case lock_row_of rows k of None \<Rightarrow> False | Some r \<Rightarrow> t < lk_createdAt r + ttl)"

lemma lock_row_of_append:
  "lock_row_of (rows @ [r]) k = (case lock_row_of rows k of None \<Rightarrow> if lk_code r = k then Some r else None | Some x \<Rightarrow> Some x)"
  by (induction rows) (auto simp: lock_row_of_def)

lemma lock_row_of_map:
  "(\<And>r. lk_code (f r) = lk_code r) \<Longrightarrow> lock_row_of (map f rows) k = map_option f (lock_row_of rows k)"
  by (induction rows) (auto simp: lock_row_of_def)

lemma lock_row_of_filter:
  "lock_row_of (filter (\<lambda>r. lk_code r \<noteq> k) rows) k' = (if k' = k then None else lock_row_of rows k')"
  by (induction rows) (auto simp: lock_row_of_def)

lemma lock_row_of_code: "lock_row_of rows k = Some r \<Longrightarrow> lk_code r = k"
  by (auto simp: lock_row_of_def find_Some_iff)

lemma acquireLockDB_simps:
  "snd (acquireLockDB now k ttl v False rows) \<longleftrightarrow> \<not> heldDb now ttl k rows"
  "snd (acquireLockDB now k ttl v ov rows) \<Longrightarrow>
     map_option lk_createdAt (lock_row_of (fst (acquireLockDB now k ttl v ov rows)) k) = Some now"
  "\<not> snd (acquireLockDB now k ttl v ov rows) \<or> k' \<noteq> k \<Longrightarrow>
     lock_row_of (fst (acquireLockDB now k ttl v ov rows)) k' = lock_row_of rows k'"
proof -
  show "snd (acquireLockDB now k ttl v False rows) \<longleftrightarrow> \<not> heldDb now ttl k rows"
    by (auto simp: acquireLockDB_def heldDb_def split: option.splits)
  show "snd (acquireLockDB now k ttl v ov rows) \<Longrightarrow>
     map_option lk_createdAt (lock_row_of (fst (acquireLockDB now k ttl v ov rows)) k) = Some now"
    by (cases "lock_row_of rows k")
      (auto simp: acquireLockDB_def lock_row_of_append lock_row_of_map lock_row_of_code split: if_splits)
  assume "\<not> snd (acquireLockDB now k ttl v ov rows) \<or> k' \<noteq> k"
  then show "lock_row_of (fst (acquireLockDB now k ttl v ov rows)) k' = lock_row_of rows k'"
    by (cases "lock_row_of rows k"; cases "lock_row_of rows k'")
      (auto simp: acquireLockDB_def lock_row_of_append lock_row_of_map lock_row_of_code split: if_splits)
qed

interpretation db: lock_service "\<lambda>now k ttl. acquireLockDB now k ttl v False" "\<lambda>now. releaseLockDb" heldDb for v
proof (unfold_locales, goal_cases)
  case (1 now k ttl s)
  show ?case by (rule acquireLockDB_simps(1))
next
  case (2 now k ttl s t)
  from acquireLockDB_simps(2) [OF 2(1)] show ?case by (auto simp: heldDb_def)
next
  case (3 now k ttl s k' t ttl')
  from acquireLockDB_simps(3) [OF 3] show ?case by (simp add: heldDb_def)
next
  case (4 t ttl k now s)
  show ?case by (simp add: heldDb_def releaseLockDb_def lock_row_of_filter)
next
  case (5 k' k t ttl now s)
  then show ?case by (simp add: heldDb_def releaseLockDb_def lock_row_of_filter)
qed

text \<open>The module on top of either store.\<close>

definition held_full :: "'r redis \<Rightarrow> config \<Rightarrow> time \<Rightarrow> int \<Rightarrow> string \<Rightarrow> 'r locks \<Rightarrow> bool" where
  "held_full rd cf t ttl k s =
     (if cf_redisEnabled cf then rd_get rd t k (lo_redis s) \<noteq> None else heldDb t ttl k (lo_table s))"

lemma track_simps [simp]: "lo_table (track ok keep k t s) = lo_table s" "lo_redis (track ok keep k t s) = lo_redis s"
  by (simp_all add: track_def)

lemma acquire_full_redis:
  "cf_redisEnabled cf \<Longrightarrow> lo_redis (fst (acquire_full rd cf now tn k ttl val ov keep s))
     = fst (rd_set rd now k (case val of Some v \<Rightarrow> v | None \<Rightarrow> show_int now) ttl (if ov then Always else NX) (lo_redis s))"
  "cf_redisEnabled cf \<Longrightarrow> snd (acquire_full rd cf now tn k ttl val ov keep s)
     = snd (rd_set rd now k (case val of Some v \<Rightarrow> v | None \<Rightarrow> show_int now) ttl (if ov then Always else NX) (lo_redis s))"
  "cf_redisEnabled cf \<Longrightarrow> lo_redis (fst (release_full rd cf now k s)) = fst (rd_del rd now k (lo_redis s))"
  by (simp_all add: acquire_full_def acquireLockRedis_def release_full_def releaseLockRedis_def split_beta)

lemma acquire_full_db:
  "\<not> cf_redisEnabled cf \<Longrightarrow> lo_table (fst (acquire_full rd cf now tn k ttl val ov keep s))
     = fst (acquireLockDB now k ttl (case val of Some v \<Rightarrow> v | None \<Rightarrow> ''true'') ov (lo_table s))"
  "\<not> cf_redisEnabled cf \<Longrightarrow> snd (acquire_full rd cf now tn k ttl val ov keep s)
     = snd (acquireLockDB now k ttl (case val of Some v \<Rightarrow> v | None \<Rightarrow> ''true'') ov (lo_table s))"
  "\<not> cf_redisEnabled cf \<Longrightarrow> lo_table (fst (release_full rd cf now k s)) = releaseLockDb k (lo_table s)"
  by (simp_all add: acquire_full_def release_full_def split_beta)

lemma redis_lawsD:
  assumes "redis_laws rd"
  shows "snd (rd_set rd now k v px NX s) \<longleftrightarrow> rd_get rd now k s = None"
    and "snd (rd_set rd now k v px mode s) \<Longrightarrow> now \<le> t \<Longrightarrow>
      rd_get rd t k (fst (rd_set rd now k v px mode s)) = (if t < now + px then Some v else None)"
    and "\<not> snd (rd_set rd now k v px mode s) \<or> k' \<noteq> k \<Longrightarrow>
      rd_get rd t k' (fst (rd_set rd now k v px mode s)) = rd_get rd t k' s"
    and "rd_get rd t k' (fst (rd_del rd now k s)) = (if k' = k then None else rd_get rd t k' s)"
proof -
  note laws = assms [unfolded redis_laws_def]
  show "snd (rd_set rd now k v px NX s) \<longleftrightarrow> rd_get rd now k s = None"
    using laws [THEN conjunct1, rule_format, of now k v px NX s] by simp
  show "snd (rd_set rd now k v px mode s) \<Longrightarrow> now \<le> t \<Longrightarrow>
      rd_get rd t k (fst (rd_set rd now k v px mode s)) = (if t < now + px then Some v else None)"
    using laws [THEN conjunct2, THEN conjunct1, rule_format, of now k v px mode s t] by blast
  show "\<not> snd (rd_set rd now k v px mode s) \<or> k' \<noteq> k \<Longrightarrow>
      rd_get rd t k' (fst (rd_set rd now k v px mode s)) = rd_get rd t k' s"
    using laws [THEN conjunct2, THEN conjunct2, THEN conjunct1, rule_format, of now k v px mode s k' t] by blast
  show "rd_get rd t k' (fst (rd_del rd now k s)) = (if k' = k then None else rd_get rd t k' s)"
    using laws [THEN conjunct2, THEN conjunct2, THEN conjunct2, THEN conjunct1, rule_format, of t k' now k s] by blast
qed

lemma full_lock_service:
  assumes "cf_redisEnabled cf \<longrightarrow> redis_laws rd"
  shows "lock_service (\<lambda>now k ttl. acquire_full rd cf now tn k ttl None False keep)
    (\<lambda>now k s. fst (release_full rd cf now k s)) (held_full rd cf)"
proof (cases "cf_redisEnabled cf")
  case True
  with assms have laws: "redis_laws rd" by simp
  show ?thesis
    by unfold_locales
      (simp_all add: True held_full_def acquire_full_redis redis_lawsD(1,4) [OF laws] redis_lawsD(2,3) [OF laws])
next
  case False
  show ?thesis
    by unfold_locales
      (simp_all add: False held_full_def acquire_full_db db.acquire_iff db.acquire_held db.acquire_keeps
        db.release_same db.release_keeps)
qed

text \<open>A lock that is running cannot be acquired, whatever happens to other locks in between.\<close>

lemma acquire_blocked:
  assumes "cf_redisEnabled cf \<longrightarrow> redis_laws rd" "acquire_full rd cf t0 tn k ttl None False keep ls = (ls0, True)"
    and "list_all (during t0 k ttl) ops" "t0 \<le> t" "t < t0 + ttl"
  shows "\<not> snd (acquire_full rd cf t tn k ttl None False keep (fst (run_locks
    (\<lambda>now k ttl. acquire_full rd cf now tn k ttl None False keep) (\<lambda>now k s. fst (release_full rd cf now k s)) ops ls0)))"
proof -
  let ?acq = "\<lambda>now k ttl. acquire_full rd cf now tn k ttl None False keep"
    and ?rel = "\<lambda>now k s. fst (release_full rd cf now k s)"
  let ?ls1 = "fst (run_locks ?acq ?rel ops ls0)"
  note lock = full_lock_service [OF assms(1), of tn keep]
  have "(Acquire t k ttl, snd (?acq t k ttl ?ls1)) \<in> set (snd (run_locks ?acq ?rel (ops @ [Acquire t k ttl]) ls0))"
    using run_locks_snoc [of ?acq ?rel ops t k ttl ls0] by simp
  moreover have "list_all (during t0 k ttl) (ops @ [Acquire t k ttl])" using assms(3-5) by simp
  ultimately show ?thesis
    using lock_service.mutual_exclusion [OF lock, of t0 k ttl ls "ops @ [Acquire t k ttl]" t ttl] assms(2) by simp
qed

subsection \<open>Properties\<close>

text \<open>
  C19. Mutual exclusion: while a lock acquired at \<open>t0\<close> for \<open>ttl\<close> milliseconds is running and has not been
  released, no attempt of any process to acquire the same lock with the same expiry succeeds,
  whatever other locks are acquired and released in between; this holds for the lock table and for
  every Redis that keeps its documented laws.
\<close>

theorem lock_mutual_exclusion:
  assumes "cf_redisEnabled cf \<longrightarrow> redis_laws rd"
    and "snd (acquire_full rd cf t0 tn k ttl None False keep s)" "list_all (during t0 k ttl) ops"
    and "(Acquire t k ttl, ok) \<in> set (snd (run_locks (\<lambda>now k ttl. acquire_full rd cf now tn k ttl None False keep)
        (\<lambda>now k s. fst (release_full rd cf now k s)) ops (fst (acquire_full rd cf t0 tn k ttl None False keep s))))"
  shows "\<not> ok"
  using lock_service.mutual_exclusion [OF full_lock_service [OF assms(1)] assms(2-4)] .

text \<open>
  A lock never blocks for good: after its expiry, or after any release of its key, the next
  attempt to acquire it succeeds.  A release is not tied to the process that acquired the lock.
\<close>

theorem lock_is_available_again:
  assumes "cf_redisEnabled cf \<longrightarrow> redis_laws rd"
    and "snd (acquire_full rd cf t0 tn k ttl None False keep s)" "0 \<le> ttl" "t0 + ttl \<le> t"
  shows "snd (acquire_full rd cf t tn k ttl None False keep (fst (acquire_full rd cf t0 tn k ttl None False keep s)))
    \<and> snd (acquire_full rd cf t tn k ttl None False keep (fst (release_full rd cf t' k s')))"
  using lock_service.free_after_expiry [OF full_lock_service [OF assms(1)] assms(2-4)]
    lock_service.free_after_release [OF full_lock_service [OF assms(1)]] by blast

text \<open>
  The listing of the Redis locks mixes up tenant and namespace: the lock of a processing run, whose
  key starts with the bare prefix and the tenant, is reported with the tenant as namespace and
  the namespace as tenant.
\<close>

theorem lock_listing_swaps_tenant_and_namespace:
  assumes "CHR ''#'' \<notin> set t" "CHR ''#'' \<notin> set ns" "CHR ''#'' \<notin> set ty" "CHR ''#'' \<notin> set sub" "sub \<noteq> []"
  shows "getAllLocksRedis [(lock_key cf (Some t) True (join hash_sep [ns, ty, sub]) True, ttl, val)]
    = [\<lparr>li_namespace = t, li_tenant = ns, li_type = ty, li_subType = sub, li_ttl = ttl, li_createdAt = val\<rparr>]"
proof -
  have k: "lock_key cf (Some t) True (join hash_sep [ns, ty, sub]) True = join hash_sep [REDIS_PREFIX, t, ns, ty, sub]"
    using join_nested [of "[ns, ty, sub]" hash_sep "[REDIS_PREFIX, t]"]
    by (simp add: lock_key_def redisNamespace_def tenant_part_def)
  have "split_hash (join hash_sep [REDIS_PREFIX, t, ns, ty, sub]) = [REDIS_PREFIX, t, ns, ty, sub]"
    by (rule split_hash_join) (use assms in \<open>simp_all add: REDIS_PREFIX_def\<close>)
  then show ?thesis using assms(5) by (simp add: getAllLocksRedis_def lock_info_of_def k del: join.simps)
qed

text \<open>
  C23. The lock module implements its abstract specification, a map from each key to the time its lock
  ends: whatever sequence of acquisitions and releases the processes issue, with one expiry per key,
  every operation returns what the specification returns, on the lock table and on every Redis that
  keeps its laws.  In particular the two stores cannot be told apart.
\<close>

theorem locks_refine_specification:
  assumes "cf_redisEnabled cf \<longrightarrow> redis_laws rd"
    and "\<forall>t k. t0 \<le> t \<longrightarrow> \<not> held_full rd cf t (expiry k) k s"
    and "sorted (t0 # map op_time ops)" "list_all (agreed expiry) ops"
  shows "snd (run_locks (\<lambda>now k ttl. acquire_full rd cf now tn k ttl None False keep)
        (\<lambda>now k s. fst (release_full rd cf now k s)) ops s)
    = snd (run_locks spec_acquire spec_release ops Map.empty)"
  using lock_service.refines_spec [OF full_lock_service [OF assms(1)] _ assms(3,4), of s Map.empty tn keep] assms(2)
  by (simp add: running_def)

text \<open>
  At shutdown an instance gives up exactly the locks it keeps track of: none of them is held any more, every
  other lock is held as long as it was before.
\<close>

lemma shutdown_releases_tracked:
  assumes "cf_redisEnabled cf \<longrightarrow> redis_laws rd"
  shows "held_full rd cf t ttl k (shutdownHandler rd cf now s) \<longleftrightarrow> k \<notin> set (obj_keys (existingLocks s)) \<and> held_full rd cf t ttl k s"
  unfolding shutdownHandler_def by (rule lock_service.held_after_releases [OF full_lock_service [OF assms]])

subsection \<open>Witnesses\<close>

text \<open>A Redis that stores values with their expiry.\<close>

type_synonym redis_store = "(string \<times> time) jsobj"

definition store_get :: "time \<Rightarrow> string \<Rightarrow> redis_store \<Rightarrow> string option" where
  "store_get now k s = (case obj_get s k of None \<Rightarrow> None | Some (v, e) \<Rightarrow> if now < e then Some v else None)"

definition demo_redis :: "redis_store redis" where
  "demo_redis = \<lparr>
     rd_set = (\<lambda>now k v px mode s.
       if (case mode of Always \<Rightarrow> True | NX \<Rightarrow> store_get now k s = None | XX \<Rightarrow> store_get now k s \<noteq> None)
       then (obj_set k (v, now + px) s, True) else (s, False)),
     rd_get = store_get,
     rd_del = (\<lambda>now k s. (obj_del k s, if store_get now k s = None then 0 else 1))\<rparr>"

lemma demo_redis_laws: "redis_laws demo_redis"
  by (auto simp: redis_laws_def demo_redis_def store_get_def split: set_mode.splits option.splits)

definition demo_redis_cfg :: config where
  "demo_redis_cfg = demo_config\<lparr>cf_redisEnabled := True\<rparr>"

definition demo_locks :: "redis_store locks" where
  "demo_locks = \<lparr>lo_table = [], lo_redis = [], existingLocks = []\<rparr>"

theorem lock_mutual_exclusion_witness:
  "snd (run_locks (\<lambda>now k ttl. acquire_full demo_redis demo_redis_cfg now None k ttl None False True)
      (\<lambda>now k s. fst (release_full demo_redis demo_redis_cfg now k s)) [Release 5 ''b'', Acquire 90 ''a'' 100]
      (fst (acquire_full demo_redis demo_redis_cfg 0 None ''a'' 100 None False True demo_locks)))
    = [(Release 5 ''b'', True), (Acquire 90 ''a'' 100, False)]"
proof -
  have h: "snd (acquire_full demo_redis demo_redis_cfg 0 None ''a'' 100 None False True demo_locks)"
    "list_all (during 0 ''a'' 100) [Release 5 ''b'', Acquire 90 ''a'' 100]" by code_simp+
  from lock_mutual_exclusion [OF _ h] demo_redis_laws show ?thesis
    by (auto split: prod.splits)
qed

theorem lock_is_available_again_witness:
  "snd (acquire_full demo_redis demo_config 100 None ''a'' 100 None False True
     (fst (acquire_full demo_redis demo_config 0 None ''a'' 100 None False True demo_locks)))"
proof -
  have "snd (acquire_full demo_redis demo_config 0 None ''a'' 100 None False True demo_locks)" by code_simp
  then show ?thesis using lock_is_available_again [of demo_config demo_redis 0 None "''a''" 100 True demo_locks 100] demo_redis_laws
    by simp
qed

theorem lock_listing_swaps_tenant_and_namespace_witness:
  "map li_tenant (getAllLocksRedis [(lock_key demo_config (Some ''t1'') True (join hash_sep [''default'', ''T'', ''S'']) True, 60, ''1'')])
    = [''default'']"
  using lock_listing_swaps_tenant_and_namespace [of "''t1''" "''default''" "''T''" "''S''" demo_config 60 "''1''"] by simp

abbreviation demo_lock_ops :: "string lock_op list" where
  "demo_lock_ops \<equiv> [Acquire 1 ''a'' 9, Acquire 5 ''a'' 9, Acquire 10 ''a'' 9, Release 12 ''a'', Acquire 13 ''a'' 9]"

theorem locks_refine_specification_witness:
  "map snd (snd (run_locks (\<lambda>now k ttl. acquire_full demo_redis demo_redis_cfg now None k ttl None False True)
      (\<lambda>now k s. fst (release_full demo_redis demo_redis_cfg now k s)) demo_lock_ops demo_locks))
    = [True, False, True, True, True]"
proof -
  have "\<forall>t k. 0 \<le> t \<longrightarrow> \<not> held_full demo_redis demo_redis_cfg t 9 k demo_locks"
    by (simp add: held_full_def demo_redis_def demo_locks_def demo_redis_cfg_def store_get_def)
  moreover have "sorted (0 # map op_time demo_lock_ops)" "list_all (agreed (\<lambda>k. 9)) demo_lock_ops" by simp_all
  moreover have "map snd (snd (run_locks spec_acquire spec_release demo_lock_ops Map.empty)) = [True, False, True, True, True]"
    by (simp add: spec_acquire_def spec_release_def running_def)
  ultimately show ?thesis
    using locks_refine_specification [of demo_redis_cfg demo_redis 0 "\<lambda>k. 9" demo_locks demo_lock_ops None True] demo_redis_laws
    by simp
qed

end
