(* ===== verification/KeepAlive.thy ===== *)
theory KeepAlive
  imports ProcessorBase DistributedLock SetIntervalDriftSafe
begin

text \<open>
  The keep alive and the lock calls of \<open>src/EventQueueProcessorBase.js\<close>.  While a chunk is processed, a
  tick every keep alive interval renews the processing lock and refreshes the time stamp of the
  entries that are not finished, unless another process has changed them in the meantime.

  Proved: a tick protects the unfinished entries from being claimed by another run for another
  keep alive limit and detects entries that were changed elsewhere; the renewal of the lock uses
  another key than its acquisition, so it never extends the processing lock.
\<close>

subsection \<open>The processing lock\<close>

definition keepAliveMaxMs :: "processor \<Rightarrow> int" where
  "keepAliveMaxMs p = ec_keepAliveMaxInProgressTime (p_cfg p) * 100"

definition acquireDistributedLock ::
  "'r redis \<Rightarrow> config \<Rightarrow> time \<Rightarrow> processor \<times> 'r locks \<Rightarrow> (processor \<times> 'r locks) \<times> bool" where
  "acquireDistributedLock rd cf now s =
     (case s of (p, ls) \<Rightarrow>
        if ec_multiInstanceProcessing (p_cfg p) then ((p, ls), True)
        else (case acquireLock rd cf now (p_tenant p) (join hash_sep [ec_namespace (p_cfg p), p_type p, p_subType p])
                     True (keepAliveMaxMs p) True True ls of
                (ls', ok) \<Rightarrow> ((if ok then p\<lparr>p_lockAcquired := True\<rparr> else p, ls'), ok)))"

definition renewDistributedLock ::
  "'r redis \<Rightarrow> config \<Rightarrow> time \<Rightarrow> processor \<times> 'r locks \<Rightarrow> (processor \<times> 'r locks) \<times> bool" where
  "renewDistributedLock rd cf now s =
     (case s of (p, ls) \<Rightarrow>
        if ec_multiInstanceProcessing (p_cfg p) then ((p, ls), True)
        else (case renewLock rd cf now (p_tenant p) (join hash_sep [p_type p, p_subType p]) True (keepAliveMaxMs p) ls of
                (ls', ok) \<Rightarrow>
                  ((if ok then p\<lparr>p_cfg := (p_cfg p)\<lparr>ec_lockAcquiredTime := now\<rparr>\<rparr> else p, ls'), ok)))"

definition handleReleaseLock ::
  "'r redis \<Rightarrow> config \<Rightarrow> time \<Rightarrow> processor \<Rightarrow> 'r locks \<Rightarrow> 'r locks" where
  "handleReleaseLock rd cf now p ls =
     (if \<not> p_lockAcquired p then ls
      else fst (releaseLock rd cf now (p_tenant p) (join hash_sep [ec_namespace (p_cfg p), p_type p, p_subType p]) True True ls))"

subsection \<open>The keep alive tick\<close>

definition isOutdatedAndKeepAlive :: "processor \<Rightarrow> bool" where
  "isOutdatedAndKeepAlive p \<longleftrightarrow> p_keepAliveViolated p"

definition etag_matches :: "time jsobj \<Rightarrow> event_row \<Rightarrow> bool" where
  "etag_matches etags r =
     (case (obj_get etags (ev_ID r), ev_lastAttemptTimestamp r) of (Some a, Some b) \<Rightarrow> a = b | _ \<Rightarrow> False)"

definition mark_outdated :: "event_row list \<Rightarrow> processor \<Rightarrow> processor" where
  "mark_outdated rs p =
     p\<lparr>p_queueEntriesMap := foldl (\<lambda>m r. obj_del (ev_ID r) m) (p_queueEntriesMap p) rs,
       p_outdatedEventMap := foldl (\<lambda>m r. obj_set (ev_ID r) True m) (p_outdatedEventMap p) rs\<rparr>"

text \<open>The callback of the keep alive runner.  The table is changed only by its \<open>UPDATE\<close>.\<close>

definition keepAlive_rows :: "processor \<Rightarrow> event_table \<Rightarrow> event_row list" where
  "keepAlive_rows p rows =
     filter (\<lambda>r. ev_ID r \<in> set (map (\<lambda>(k, e). ev_ID e) (p_notCommitedStatusMap p)) \<and> ev_status r = InProgress) rows"

definition touch_row :: "time \<Rightarrow> event_row \<Rightarrow> event_row" where
  "touch_row now r = r\<lparr>ev_lastAttemptTimestamp := Some now\<rparr>"

definition refreshEntries :: "time \<Rightarrow> 'b world \<times> processor \<Rightarrow> 'b world \<times> processor" where
  "refreshEntries now s =
     (case s of (w, p) \<Rightarrow>
        let evs = keepAlive_rows p (w_events w);
            valid = filter (etag_matches (p_etagMap p)) evs;
            outdated = filter (\<lambda>r. \<not> etag_matches (p_etagMap p) r) evs;
            p1 = p\<lparr>p_etagMap := foldl (\<lambda>m r. obj_set (ev_ID r) now m) (p_etagMap p) valid,
                   p_keepAliveViolated := (p_keepAliveViolated p \<or> outdated \<noteq> [])\<rparr>;
            p2 = (if outdated = [] then p1 else mark_outdated outdated p1);
            w1 = (if valid = [] then w
                  else w\<lparr>w_events := update_where (id_in (map ev_ID valid)) (touch_row now) (w_events w)\<rparr>)
        in (w1, p2))"

definition keepAliveTick ::
  "'r redis \<Rightarrow> config \<Rightarrow> time \<Rightarrow> ('b world \<times> processor) \<times> 'r locks \<Rightarrow> ('b world \<times> processor) \<times> 'r locks" where
  "keepAliveTick rd cf now s =
     (case s of ((w, p), ls) \<Rightarrow>
        if p_notCommitedStatusMap p = [] then s
        else (case renewDistributedLock rd cf now (p, ls) of
                ((p1, ls1), ok) \<Rightarrow>
                  if p_keepAliveViolated p1 then ((w, p1), ls1)
                  else (refreshEntries now (w, p1), ls1)))"

text \<open>\<open>continuesKeepAlive\<close>: renew when the lock is older than an interval, then start the runner.\<close>

definition continuesKeepAlive ::
  "'r redis \<Rightarrow> config \<Rightarrow> time \<Rightarrow> interval_runner \<Rightarrow> processor \<times> 'r locks \<Rightarrow> interval_runner \<times> processor \<times> 'r locks" where
  "continuesKeepAlive rd cf now runner s =
     (let s1 = (if now - ec_lockAcquiredTime (p_cfg (fst s)) \<ge> ec_keepAliveInterval (p_cfg (fst s)) * 1000
                then fst (renewDistributedLock rd cf now s) else s)
      in (SetIntervalDriftSafe.start now runner, s1))"

subsection \<open>Lemmas\<close>

lemma touch_row_simps [simp]: "ev_ID (touch_row now r) = ev_ID r" "ev_status (touch_row now r) = ev_status r"
  by (simp_all add: touch_row_def)

lemma renew_processor:
  assumes "renewDistributedLock rd cf now (p, ls) = ((p1, ls1), ok)"
  shows "\<exists>t. p1 = p\<lparr>p_cfg := (p_cfg p)\<lparr>ec_lockAcquiredTime := t\<rparr>\<rparr>"
proof -
  have "p1 = p \<or> p1 = p\<lparr>p_cfg := (p_cfg p)\<lparr>ec_lockAcquiredTime := now\<rparr>\<rparr>"
    using assms by (auto simp: renewDistributedLock_def split: if_splits prod.splits)
  moreover have "p = p\<lparr>p_cfg := (p_cfg p)\<lparr>ec_lockAcquiredTime := ec_lockAcquiredTime (p_cfg p)\<rparr>\<rparr>" by simp
  ultimately show ?thesis by metis
qed

lemma foldl_obj_set_get:
  "obj_get (foldl (\<lambda>m r. obj_set (f r) v m) base rs) k = (if k \<in> f ` set rs then Some v else obj_get base k)"
  by (induction rs arbitrary: base) auto

lemma refresh_row:
  assumes "table_ok (w_events w)" "r \<in> set (w_events w)" "refreshEntries now (w, p) = (w', p')"
  shows "row_of (w_events w') (ev_ID r) = Some
    (if r \<in> set (filter (etag_matches (p_etagMap p)) (keepAlive_rows p (w_events w))) then touch_row now r else r)"
proof -
  define v where "v = filter (etag_matches (p_etagMap p)) (keepAlive_rows p (w_events w))"
  have ev: "w_events w' = (if v = [] then w_events w else update_where (id_in (map ev_ID v)) (touch_row now) (w_events w))"
    using assms(3) by (auto simp: refreshEntries_def Let_def v_def)
  have sub: "x \<in> set v \<Longrightarrow> x \<in> set (w_events w)" for x by (simp add: v_def keepAlive_rows_def)
  have "ev_ID r \<in> ev_ID ` set v \<longleftrightarrow> r \<in> set v"
    using table_ok_inj [OF assms(1,2)] sub by blast
  then show ?thesis
    using row_of_member [OF assms(1,2)] unfolding ev v_def [symmetric]
    by (cases "v = []") (simp_all add: row_of_update_ids)
qed

lemma tick_refresh:
  assumes "keepAliveTick rd cf now ((w, p), ls) = ((w', p'), ls')" "p_notCommitedStatusMap p \<noteq> []" "\<not> p_keepAliveViolated p"
  shows "\<exists>p1. refreshEntries now (w, p1) = (w', p') \<and> p_etagMap p1 = p_etagMap p
    \<and> p_notCommitedStatusMap p1 = p_notCommitedStatusMap p \<and> p_keepAliveViolated p1 = p_keepAliveViolated p"
proof -
  obtain p1 ls1 ok where r: "renewDistributedLock rd cf now (p, ls) = ((p1, ls1), ok)" by (metis surj_pair)
  obtain t where "p1 = p\<lparr>p_cfg := (p_cfg p)\<lparr>ec_lockAcquiredTime := t\<rparr>\<rparr>" using renew_processor [OF r] by blast
  with assms r show ?thesis by (auto simp: keepAliveTick_def intro!: exI [of _ p1])
qed

subsection \<open>Properties\<close>

text \<open>
  C32. A keep alive tick protects the work in progress: every entry of the run that is not finished
  and that nobody changed since the last tick gets the current time, so no other run can claim it
  before the keep alive limit has passed since the tick; entries that somebody else changed are
  left alone, recorded as outdated, and end the further processing of the run.
\<close>

theorem keep_alive_protects_entries:
  assumes "table_ok (w_events w)" "r \<in> set (w_events w)" "ev_status r = InProgress"
    and "ev_ID r \<in> set (map (\<lambda>(k, e). ev_ID e) (p_notCommitedStatusMap p))" "\<not> p_keepAliveViolated p"
    and "keepAliveTick rd cf now ((w, p), ls) = ((w', p'), ls')"
  shows "if etag_matches (p_etagMap p) r
    then row_of (w_events w') (ev_ID r) = Some (touch_row now r) \<and> obj_get (p_etagMap p') (ev_ID r) = Some now
      \<and> (\<forall>gc q now2. now2 < now + keepAliveMaxMs q \<longrightarrow> \<not> selectable gc q now2 (touch_row now r))
    else row_of (w_events w') (ev_ID r) = Some r \<and> isOutdatedAndKeepAlive p' \<and> obj_has (p_outdatedEventMap p') (ev_ID r)"
proof -
  have ne: "p_notCommitedStatusMap p \<noteq> []" using assms(4) by auto
  obtain p1 where p1: "refreshEntries now (w, p1) = (w', p')" "p_etagMap p1 = p_etagMap p"
    "p_notCommitedStatusMap p1 = p_notCommitedStatusMap p" using tick_refresh [OF assms(6) ne assms(5)] by blast
  have mem: "r \<in> set (keepAlive_rows p1 (w_events w))" using assms(2-4) p1(3) by (simp add: keepAlive_rows_def)
  note row = refresh_row [OF assms(1,2) p1(1)]
  show ?thesis
  proof (cases "etag_matches (p_etagMap p) r")
    case True
    then have "ev_ID r \<in> ev_ID ` set (filter (etag_matches (p_etagMap p)) (keepAlive_rows p1 (w_events w)))" using mem by simp
    moreover have "p_etagMap p' = foldl (\<lambda>m r. obj_set (ev_ID r) now m) (p_etagMap p)
        (filter (etag_matches (p_etagMap p)) (keepAlive_rows p1 (w_events w)))"
      using p1(1,2) by (auto simp: refreshEntries_def Let_def mark_outdated_def split: if_splits)
    ultimately have "obj_get (p_etagMap p') (ev_ID r) = Some now" by (simp only: foldl_obj_set_get if_True)
    moreover have "\<not> selectable gc q now2 (touch_row now r)" if "now2 < now + keepAliveMaxMs q" for gc q now2
      using that assms(3)
      by (simp add: selectable_def status_selectable_def stuckBefore_def touch_row_def keepAliveMaxMs_def status_defs)
    ultimately show ?thesis using True row mem p1(2) by simp
  next
    case False
    let ?o = "filter (\<lambda>r. \<not> etag_matches (p_etagMap p) r) (keepAlive_rows p1 (w_events w))"
    have o: "r \<in> set ?o" using mem False by simp
    have "?o \<noteq> []" using o by (metis empty_iff empty_set)
    then have "isOutdatedAndKeepAlive p'" "p_outdatedEventMap p' = foldl (\<lambda>m r. obj_set (ev_ID r) True m) (p_outdatedEventMap p1) ?o"
      using p1(1,2) by (auto simp: refreshEntries_def Let_def mark_outdated_def isOutdatedAndKeepAlive_def)
    moreover have "obj_get (p_outdatedEventMap p') (ev_ID r) = Some True"
      unfolding calculation(2) foldl_obj_set_get using o by (simp add: image_iff) blast
    ultimately show ?thesis using False row p1(2) by simp
  qed
qed

text \<open>The keys of the processing lock and of its renewal.\<close>

abbreviation processing_key :: "config \<Rightarrow> processor \<Rightarrow> string" where
  "processing_key cf p \<equiv>
     lock_key cf (p_tenant p) True (join hash_sep [ec_namespace (p_cfg p), p_type p, p_subType p]) True"

abbreviation renewal_key :: "config \<Rightarrow> processor \<Rightarrow> string" where
  "renewal_key cf p \<equiv> lock_key cf (p_tenant p) True (join hash_sep [p_type p, p_subType p]) False"

definition plain_name :: "string \<Rightarrow> bool" where
  "plain_name s \<longleftrightarrow> CHR ''#'' \<notin> set s"

lemma processing_key_eq:
  "processing_key cf p = join hash_sep [REDIS_PREFIX, tenant_part (p_tenant p), ec_namespace (p_cfg p), p_type p, p_subType p]"
  using join_nested [of "[ec_namespace (p_cfg p), p_type p, p_subType p]" hash_sep "[REDIS_PREFIX, tenant_part (p_tenant p)]"]
  by (simp add: lock_key_def redisNamespace_def)

lemma renewal_key_eq:
  "renewal_key cf p = join hash_sep ([REDIS_PREFIX] @ (if cf_namespace cf = [] then [] else [cf_namespace cf])
     @ [tenant_part (p_tenant p), p_type p, p_subType p])"
  by (simp add: lock_key_def redisNamespace_def REDIS_PREFIX_def)

lemma keys_differ:
  assumes "list_all plain_name [tenant_part (p_tenant p), ec_namespace (p_cfg p), p_type p, p_subType p, cf_namespace cf]"
    and "tenant_part (p_tenant p) \<noteq> ec_namespace (p_cfg p)"
  shows "processing_key cf p \<noteq> renewal_key cf p"
proof
  assume eq: "processing_key cf p = renewal_key cf p"
  have "CHR ''#'' \<notin> set REDIS_PREFIX" by (simp add: REDIS_PREFIX_def)
  then have "[REDIS_PREFIX, tenant_part (p_tenant p), ec_namespace (p_cfg p), p_type p, p_subType p]
      = [REDIS_PREFIX] @ (if cf_namespace cf = [] then [] else [cf_namespace cf])
          @ [tenant_part (p_tenant p), p_type p, p_subType p]"
    using assms(1) eq unfolding processing_key_eq renewal_key_eq
    by (intro join_inj) (auto simp: plain_name_def)
  then show False using assms(2) by (simp split: if_splits)
qed

text \<open>Renewing one key does not touch the lock on another.\<close>

lemma renewLock_other:
  assumes "cf_redisEnabled cf \<longrightarrow> redis_laws rd" "k \<noteq> lock_key cf t tenantScoped key False"
  shows "held_full rd cf t' ttl k (fst (renewLock rd cf now t key tenantScoped ttl' ls)) = held_full rd cf t' ttl k ls"
proof (cases "cf_redisEnabled cf")
  case True
  with assms have laws: "redis_laws rd" by simp
  let ?k = "lock_key cf t tenantScoped key False"
  have "rd_get rd t' k (fst (renewLockRedis rd now ?k ttl' r)) = rd_get rd t' k r" for r
    using redis_lawsD(3) [OF laws, of now ?k "''true''" ttl' _ _ k t'] assms(2)
    by (auto simp: renewLockRedis_def split: prod.splits option.splits bool.splits) (metis fst_conv)+
  then show ?thesis using True by (simp add: held_full_def renewLock_def Let_def split_beta)
next
  case False
  then show ?thesis
    using acquireLockDB_simps(3) [of now "lock_key cf t tenantScoped key False" ttl' "''true''" True "lo_table ls" k] assms(2)
    by (simp add: held_full_def renewLock_def Let_def split_beta heldDb_def)
qed

text \<open>
  The renewal does not extend the processing lock: it is written under another key (the tenant
  and the namespace differ in their position, and the namespace is that of the process).  Whatever
  was renewed, another process with the same type acquires the processing lock as soon as the
  expiry of the first acquisition has passed.
\<close>

theorem renewal_does_not_extend_lock:
  assumes "cf_redisEnabled cf \<longrightarrow> redis_laws rd" "\<not> ec_multiInstanceProcessing (p_cfg p)"
    and "list_all plain_name [tenant_part (p_tenant p), ec_namespace (p_cfg p), p_type p, p_subType p, cf_namespace cf]"
    and "tenant_part (p_tenant p) \<noteq> ec_namespace (p_cfg p)" "0 \<le> keepAliveMaxMs p"
    and "acquireDistributedLock rd cf t0 (p, ls) = ((p1, ls1), True)"
    and "renewDistributedLock rd cf t1 (p1, ls1) = ((p2, ls2), ok)" "t0 + keepAliveMaxMs p \<le> t"
  shows "snd (acquireDistributedLock rd cf t (p, ls2))"
proof -
  have ls: "lock_service (\<lambda>now k ttl. acquire_full rd cf now (p_tenant p) k ttl None False True)
    (\<lambda>now k s. fst (release_full rd cf now k s)) (held_full rd cf)" by (rule full_lock_service [OF assms(1)])
  let ?k = "processing_key cf p" and ?ttl = "keepAliveMaxMs p"
  have acq: "snd (acquire_full rd cf t0 (p_tenant p) ?k ?ttl None False True ls)"
    "ls1 = fst (acquire_full rd cf t0 (p_tenant p) ?k ?ttl None False True ls)"
    and p1: "p1 = p\<lparr>p_lockAcquired := True\<rparr>"
    using assms(2,6) by (auto simp: acquireDistributedLock_def acquireLock_def split: prod.splits if_splits)
  have "?k \<noteq> renewal_key cf p1" using keys_differ [OF assms(3,4)] by (simp add: p1)
  moreover have "ls2 = fst (renewLock rd cf t1 (p_tenant p1) (join hash_sep [p_type p1, p_subType p1]) True (keepAliveMaxMs p1) ls1)"
    using assms(2,7) by (auto simp: renewDistributedLock_def p1 split: prod.splits if_splits)
  ultimately have "held_full rd cf t ?ttl ?k ls2 = held_full rd cf t ?ttl ?k ls1"
    using renewLock_other [OF assms(1)] by simp
  moreover have "\<not> held_full rd cf t ?ttl ?k ls1"
    using lock_service.acquire_held [OF ls acq(1), of t] assms(5,8) by (simp add: acq(2))
  ultimately show ?thesis
    using lock_service.acquire_iff [OF ls, of t ?k ?ttl ls2] assms(2)
    by (simp add: acquireDistributedLock_def acquireLock_def split_beta)
qed

subsection \<open>Witnesses\<close>

definition demo_tick :: "(nat world \<times> processor) \<times> redis_store locks" where
  "demo_tick = keepAliveTick demo_redis demo_config 1100000 (fst demo_claim, demo_locks)"

theorem keep_alive_protects_entries_witness:
  "map_option ev_lastAttemptTimestamp (row_of (w_events (fst (fst demo_tick))) ''a'') = Some (Some 1100000)"
proof -
  let ?r = "claim_row 1000100 (demo_row ''a'' Open 0)"
  have h: "table_ok (w_events (fst (fst demo_claim)))" "?r \<in> set (w_events (fst (fst demo_claim)))"
    "ev_status ?r = InProgress"
    "ev_ID ?r \<in> set (map (\<lambda>(k, e). ev_ID e) (p_notCommitedStatusMap (snd (fst demo_claim))))"
    "\<not> p_keepAliveViolated (snd (fst demo_claim))" "etag_matches (p_etagMap (snd (fst demo_claim))) ?r" "ev_ID ?r = ''a''"
    by code_simp+
  have eq: "keepAliveTick demo_redis demo_config 1100000 ((fst (fst demo_claim), snd (fst demo_claim)), demo_locks)
      = ((fst (fst demo_tick), snd (fst demo_tick)), snd demo_tick)" by (simp add: demo_tick_def)
  from keep_alive_protects_entries [OF h(1-5) eq] h(6,7) show ?thesis by (simp add: touch_row_def)
qed

definition demo_acquired :: "(processor \<times> redis_store locks) \<times> bool" where
  "demo_acquired = acquireDistributedLock demo_redis demo_redis_cfg 0 (demo_proc, demo_locks)"

definition demo_renewed :: "(processor \<times> redis_store locks) \<times> bool" where
  "demo_renewed = renewDistributedLock demo_redis demo_redis_cfg 200000 (fst demo_acquired)"

theorem renewal_does_not_extend_lock_witness:
  "snd demo_renewed \<and> snd (acquireDistributedLock demo_redis demo_redis_cfg 210000 (demo_proc, snd (fst demo_renewed)))"
proof -
  have h: "\<not> ec_multiInstanceProcessing (p_cfg demo_proc)"
    "list_all plain_name [tenant_part (p_tenant demo_proc), ec_namespace (p_cfg demo_proc), p_type demo_proc,
       p_subType demo_proc, cf_namespace demo_redis_cfg]"
    "tenant_part (p_tenant demo_proc) \<noteq> ec_namespace (p_cfg demo_proc)" "0 \<le> keepAliveMaxMs demo_proc"
    "snd demo_acquired" "0 + keepAliveMaxMs demo_proc \<le> 210000" "snd demo_renewed"
    by code_simp+
  have "acquireDistributedLock demo_redis demo_redis_cfg 0 (demo_proc, demo_locks)
      = ((fst (fst demo_acquired), snd (fst demo_acquired)), True)"
    using h(5) by (metis demo_acquired_def prod.collapse)
  moreover have "renewDistributedLock demo_redis demo_redis_cfg 200000 (fst (fst demo_acquired), snd (fst demo_acquired))
      = ((fst (fst demo_renewed), snd (fst demo_renewed)), snd demo_renewed)" by (simp add: demo_renewed_def)
  ultimately show ?thesis
    using renewal_does_not_extend_lock [of demo_redis_cfg demo_redis demo_proc 0 demo_locks, OF _ h(1-4)] demo_redis_laws h(6,7) by blast
qed

end
