(* ===== verification/ProcessEventQueue.thy ===== *)
theory ProcessEventQueue
  imports KeepAlive
begin

text \<open>
  \<open>src/processEventQueue.js\<close>: one processing run for a tenant and an event type, from the lock to the
  loop over chunks; the phases of an iteration; transactions per event or per chunk; periodic
  events.

  A handler (the class an application registers) is the record \<open>handler\<close>: what its methods return or
  throw, and what they do to the business data.  A database transaction is explicit: business data
  that a rolled back transaction changed is dropped.  Clusters of a chunk are processed one after
  another; with parallel processing they interleave, each in its own transaction (\<open>limiter\<close>).  The
  commit of a cluster's transaction can fail; that of a transaction shared by a chunk is taken to succeed.
  Every phase reads the clock once; the keep alive ticks between the phases are not
  repeated here.

  Proved: the loop ends as soon as the run interval has passed; every claimed entry of a run ends in a
  final or retriable state, never in progress; business changes and \<open>Done\<close> are committed together;
  a run releases its lock; one failing cluster resets entries of the chunk that are already done.
\<close>

subsection \<open>Handlers\<close>

text \<open>\<open>h_cluster\<close> yields the calls of \<open>addEntryToProcessingMap\<close> it makes and what it threw; \<open>h_process\<close> yields the business data, whether the handler asked for a rollback, the saga events it
  set, and its return value or what it threw.\<close>

record 'b handler =
  h_check :: "event_row \<Rightarrow> jsval + jsval"
  h_cluster :: "(event_row \<times> jsval) jsobj \<Rightarrow> (string \<times> event_row \<times> jsval) list \<times> jsval option"
  h_before :: "processor \<Rightarrow> 'b \<Rightarrow> jsval + 'b"
  h_process :: "string \<Rightarrow> event_row list \<Rightarrow> jsval \<Rightarrow> 'b \<Rightarrow> 'b \<times> bool \<times> event_row list \<times> (jsval + jsval)"
  h_hook :: "event_row \<Rightarrow> 'b \<Rightarrow> jsval + 'b"
  h_periodic :: "event_row \<Rightarrow> 'b \<Rightarrow> 'b \<times> bool \<times> (jsval + unit)"
  h_commitFails :: "string \<Rightarrow> 'b \<Rightarrow> bool"

subsection \<open>Preprocessing\<close>

definition preprocess_entry :: "platform \<Rightarrow> 'b handler \<Rightarrow> processor \<Rightarrow> event_row \<Rightarrow> processor" where
  "preprocess_entry pf h p r0 =
     (let r = modifyQueueEntry pf r0 in
      case h_check h r of
        Inl err \<Rightarrow> fst (handleErrorDuringProcessing err [r] p)
      | Inr payload \<Rightarrow>
          if payload = JNull then setStatusToDone r p
          else if payload = JUndef then handleInvalidPayloadReturned r p
          else addEventWithPayloadForProcessing r payload p)"

definition preprocess :: "platform \<Rightarrow> 'b handler \<Rightarrow> event_row list \<Rightarrow> processor \<Rightarrow> processor" where
  "preprocess pf h rs p = foldl (preprocess_entry pf h) p rs"

subsection \<open>Processing clusters\<close>

definition note_flags :: "string \<Rightarrow> bool \<Rightarrow> event_row list \<Rightarrow> processor \<Rightarrow> processor" where
  "note_flags key rb saga p =
     (let p1 = (if rb then setShouldRollbackTransaction key p else p)
      in if saga = [] then p1 else p1\<lparr>p_nextSagaEvents := saga\<rparr>)"

text \<open>\<open>_processEvent\<close>: business data in the transaction, the processor, the status map.\<close>

definition processEvent ::
  "platform \<Rightarrow> 'b handler \<Rightarrow> string \<Rightarrow> event_row list \<Rightarrow> jsval \<Rightarrow> 'b \<times> processor \<Rightarrow> 'b \<times> processor \<times> status_map" where
  "processEvent pf h key rs payload s =
     (case s of (b, p) \<Rightarrow>
        if isOutdatedAndKeepAlive p then (b, p, [])
        else (case h_process h key rs payload b of
                (b', rb, saga, res) \<Rightarrow>
                  let p1 = note_flags key rb saga p in
                  (case res of
                     Inr tuple \<Rightarrow> (case setEventStatus pf rs tuple False p1 of (p2, m) \<Rightarrow> (b', p2, m))
                   | Inl err \<Rightarrow> (case handleErrorDuringProcessing err rs p1 of (p2, m) \<Rightarrow> (b', p2, m)))))"

text \<open>One cluster in a transaction of its own; the flag tells that the transaction threw.  The
  status is persisted in the same transaction, or in a new one after a rollback.\<close>

definition processIsolated ::
  "platform \<Rightarrow> 'b handler \<Rightarrow> time \<Rightarrow> string \<times> event_row list \<times> jsval \<Rightarrow> 'b world \<times> processor
     \<Rightarrow> ('b world \<times> processor) \<times> bool" where
  "processIsolated pf h now c s =
     (case (c, s) of ((key, rs, payload), (w, p)) \<Rightarrow>
        case processEvent pf h key rs payload (w_biz w, p) of
          (b', p1, m) \<Rightarrow>
            (case statusMapContainsError m of
               None \<Rightarrow> ((w, p1), True)
             | Some hasError \<Rightarrow>
                 if hasError \<or> shouldRollbackTransaction key p1
                 then (case persistEventStatus pf now (Given m) (w, p1) of
                         None \<Rightarrow> ((w, p1), True)
                       | Some s' \<Rightarrow> (s', False))
                 else (case persistEventStatus pf now (Given m) (w\<lparr>w_biz := b'\<rparr>, p1) of
                         None \<Rightarrow> ((w, p1), True)
                       | Some (w', p') \<Rightarrow>
                           if h_commitFails h key b' then ((w\<lparr>w_sched := w_sched w'\<rparr>, p'), True)
                           else ((w', p'), False))))"

fun processAllIsolated ::
  "platform \<Rightarrow> 'b handler \<Rightarrow> time \<Rightarrow> (string \<times> event_row list \<times> jsval) list \<Rightarrow> 'b world \<times> processor
     \<Rightarrow> ('b world \<times> processor) \<times> bool" where
  "processAllIsolated pf h now [] s = (s, False)"
| "processAllIsolated pf h now (c # cs) s =
     (case processIsolated pf h now c s of (s1, e1) \<Rightarrow>
        case processAllIsolated pf h now cs s1 of (s2, e2) \<Rightarrow> (s2, e1 \<or> e2))"

fun processAllShared ::
  "platform \<Rightarrow> 'b handler \<Rightarrow> (string \<times> event_row list \<times> jsval) list \<Rightarrow> 'b \<times> processor \<Rightarrow> 'b \<times> processor" where
  "processAllShared pf h [] s = s"
| "processAllShared pf h ((key, rs, payload) # cs) s =
     (case processEvent pf h key rs payload s of (b', p1, m) \<Rightarrow> processAllShared pf h cs (b', p1))"

text \<open>\<open>processEventMap\<close>: the business data of the surrounding transaction and the state.  \<open>Inl\<close>: the
  preparation of the handler threw.\<close>

definition processEventMap ::
  "platform \<Rightarrow> 'b handler \<Rightarrow> time \<Rightarrow> 'b world \<times> processor \<Rightarrow> jsval + ('b \<times> 'b world \<times> processor)" where
  "processEventMap pf h now s =
     (case s of (w, p) \<Rightarrow>
        case h_before h p (w_biz w) of
          Inl err \<Rightarrow> Inl err
        | Inr b0 \<Rightarrow>
            if commitOnEventLevel p
            then (case processAllIsolated pf h now (p_eventProcessingMap p) (w, p) of
                    ((w', p'), failed) \<Rightarrow> Inr (b0, w', if failed then handleErrorTx p' else p'))
            else (case processAllShared pf h (p_eventProcessingMap p) (b0, p) of
                    (b', p') \<Rightarrow> Inr (b', w, p')))"

definition cluster_entries :: "'b handler \<Rightarrow> processor \<Rightarrow> processor \<times> jsval option" where
  "cluster_entries h p =
     (case h_cluster h (p_queueEntriesWithPayloadMap p) of
        (adds, err) \<Rightarrow> (foldl (\<lambda>p' (key, r, payload). addEntryToProcessingMap key r payload p') p adds, err))"

text \<open>The processing transaction.\<close>

definition processChunk :: "platform \<Rightarrow> 'b handler \<Rightarrow> time \<Rightarrow> 'b world \<times> processor \<Rightarrow> 'b world \<times> processor" where
  "processChunk pf h now s =
     (case s of (w, p) \<Rightarrow>
        if p_queueEntriesWithPayloadMap p = [] then (w, p)
        else
          let (b, w1, p1) =
                (case cluster_entries h p of
                   (pc, Some err) \<Rightarrow> (w_biz w, w, handleErrorDuringClustering pc)
                 | (pc, None) \<Rightarrow>
                     (case processEventMap pf h now (w, pc) of
                        Inl err \<Rightarrow> (w_biz w, w, handleErrorDuringClustering pc)
                      | Inr r \<Rightarrow> r))
          in if p_transactionMode p1 \<noteq> alwaysCommit
                \<or> list_ex (\<lambda>(key, c). shouldRollbackTransaction key p1) (p_eventProcessingMap p1)
             then (w1, p1) else (w1\<lparr>w_biz := b\<rparr>, p1))"

subsection \<open>One iteration and the loop\<close>

text \<open>The clock of an iteration: at the claim, while persisting, at the end.\<close>

type_synonym clock = "time \<times> time \<times> time"

text \<open>One iteration; the flag tells that it threw.\<close>

definition iteration ::
  "global_cfg \<Rightarrow> platform \<Rightarrow> 'b handler \<Rightarrow> clock \<Rightarrow> 'b world \<times> processor \<Rightarrow> ('b world \<times> processor) \<times> bool" where
  "iteration gc pf h ts s =
     (case ts of (t1, t2, t3) \<Rightarrow>
        case getQueueEntriesAndSetToInProgress gc t1 s of
          ((w1, p1), rs) \<Rightarrow>
            let s1 = (w1, preprocess pf h rs p1) in
            (case handleExceededEvents pf (h_hook h) t2 s1 of
               None \<Rightarrow> (s1, True)
             | Some s2 \<Rightarrow>
                 let s3 = processChunk pf h t2 s2 in
                 (case persistEventStatus pf t2 OwnMap s3 of None \<Rightarrow> (s3, True) | Some s4 \<Rightarrow> (s4, False))))"

definition reevaluateShouldContinue :: "global_cfg \<Rightarrow> time \<Rightarrow> 'b world \<times> processor \<Rightarrow> 'b world \<times> bool" where
  "reevaluateShouldContinue gc now s =
     (case s of (w, p) \<Rightarrow>
        if \<not> p_selectNextChunk p then (w, False)
        else if p_emptyChunkSelected p then (w, False)
        else if ec_startTime (p_cfg p) + runInterval gc > now then (w, True)
        else (logTimeExceededAndPublishContinue now p w, False))"

text \<open>The \<open>while\<close> loop; \<open>None\<close>: out of fuel; the flag: ended by an exception.  Every iteration makes a new
  instance; only the configuration object is shared.\<close>

fun processing_loop ::
  "global_cfg \<Rightarrow> platform \<Rightarrow> 'b handler \<Rightarrow> tenant \<Rightarrow> string \<Rightarrow> string \<Rightarrow> (nat \<Rightarrow> clock) \<Rightarrow> nat \<Rightarrow> nat
     \<Rightarrow> 'b world \<times> event_cfg \<Rightarrow> ('b world \<times> bool) option" where
  "processing_loop gc pf h t ty sub clk 0 n s = None"
| "processing_loop gc pf h t ty sub clk (Suc fuel) n s =
     (case iteration gc pf h (clk n) (fst s, new_processor t ty sub (snd s)) of
        ((w1, p1), True) \<Rightarrow> Some (w1, True)
      | ((w1, p1), False) \<Rightarrow>
          (case reevaluateShouldContinue gc (snd (snd (clk n))) (w1, p1) of
             (w2, True) \<Rightarrow> processing_loop gc pf h t ty sub clk fuel (Suc n) (w2, p_cfg p1)
           | (w2, False) \<Rightarrow> Some (w2, False)))"

subsection \<open>Periodic events\<close>

text \<open>What surrounds a periodic round: the cron parser, random offsets and fresh ids.\<close>

record periodic_env =
  pe_cronNext :: "string \<Rightarrow> time \<Rightarrow> time"
  pe_random :: "int \<Rightarrow> int"
  pe_uuid :: "nat \<Rightarrow> string"

text \<open>First transaction of a round: the entry to use and whether another round follows.  The entry of
  the previous round stays when nothing is selected.\<close>

definition periodic_prepare ::
  "global_cfg \<Rightarrow> periodic_env \<Rightarrow> nat \<Rightarrow> time \<Rightarrow> event_row option \<Rightarrow> 'b world \<times> processor
     \<Rightarrow> ('b world \<times> processor) \<times> event_row option \<times> bool" where
  "periodic_prepare gc pe n now prev s =
     (case getQueueEntriesAndSetToInProgress gc now s of
        (s1, []) \<Rightarrow> (s1, prev, False)
      | (s1, r # rest) \<Rightarrow>
          let (w2, use) = (if rest = [] then (fst s1, Some r) else handleDuplicatedPeriodicEventEntry (r # rest) (fst s1));
              e = (case use of Some u \<Rightarrow> u | None \<Rightarrow> r);
              (s3, again) = scheduleNextPeriodEvent gc (pe_cronNext pe) (pe_random pe) (pe_uuid pe n) now e (w2, snd s1)
          in (s3, Some e, again))"

definition periodic_process :: "'b handler \<Rightarrow> event_row \<Rightarrow> 'b world \<times> processor \<Rightarrow> 'b world \<times> processor" where
  "periodic_process h r s =
     (case s of (w, p) \<Rightarrow>
        case h_periodic h r (w_biz w) of
          (b', rb, res) \<Rightarrow>
            let p1 = (if rb then setShouldRollbackTransaction (ev_ID r) p else p) in
            (case res of
               Inl err \<Rightarrow> (setPeriodicEventStatus [ev_ID r] Error err w, p1)
             | Inr _ \<Rightarrow>
                 let w1 = (if p_transactionMode p1 = alwaysRollback \<or> shouldRollbackTransaction (ev_ID r) p1
                           then w else w\<lparr>w_biz := b'\<rparr>)
                 in (setPeriodicEventStatus [ev_ID r] Done JUndef w1, p1)))"

fun processPeriodicEvent ::
  "global_cfg \<Rightarrow> periodic_env \<Rightarrow> 'b handler \<Rightarrow> (nat \<Rightarrow> time) \<Rightarrow> nat \<Rightarrow> nat \<Rightarrow> event_row option \<Rightarrow> 'b world \<times> processor
     \<Rightarrow> ('b world \<times> processor) option" where
  "processPeriodicEvent gc pe h clk 0 n prev s = None"
| "processPeriodicEvent gc pe h clk (Suc fuel) n prev s =
     (case periodic_prepare gc pe n (clk n) prev s of
        (s1, None, again) \<Rightarrow> Some s1
      | (s1, Some r, again) \<Rightarrow>
          let s2 = periodic_process h r s1
          in if again then processPeriodicEvent gc pe h clk fuel (Suc n) (Some r) s2 else Some s2)"

subsection \<open>The run\<close>

text \<open>The processor's view of a configured event; numbers are expected where the code calculates.\<close>

definition num_opt :: "jsval \<Rightarrow> int option" where
  "num_opt v = (case v of JNum n \<Rightarrow> Some n | _ \<Rightarrow> None)"

definition str_opt :: "jsval \<Rightarrow> string option" where
  "str_opt v = (case v of JStr s \<Rightarrow> (if s = [] then None else Some s) | _ \<Rightarrow> None)"

definition event_cfg_of :: "event_obj \<Rightarrow> event_cfg" where
  "event_cfg_of e =
     \<lparr>ec_namespace = key_part (js_prop e ''namespace''), ec_isPeriodic = truthy (js_prop e ''isPeriodic''),
      ec_parallelEventProcessing = num_opt (js_prop e ''parallelEventProcessing''),
      ec_multiInstanceProcessing = truthy (js_prop e ''multiInstanceProcessing''),
      ec_retryAttempts = num_opt (js_prop e ''retryAttempts''),
      ec_selectMaxChunkSize = num_opt (js_prop e ''selectMaxChunkSize''),
      ec_checkForNextChunk = truthy (js_prop e ''checkForNextChunk''),
      ec_transactionMode = str_opt (js_prop e ''transactionMode''),
      ec_keepAliveInterval = or_default (num_opt (js_prop e ''keepAliveInterval'')) 0,
      ec_keepAliveMaxInProgressTime = or_default (num_opt (js_prop e ''keepAliveMaxInProgressTime'')) 0,
      ec_retry = \<lparr>retryFailedAfter = or_default (num_opt (js_prop e ''retryFailedAfter'')) 0,
                  retryOpenAfter = or_default (num_opt (js_prop e ''retryOpenAfter'')) 0\<rparr>,
      ec_cron = str_opt (js_prop e ''cron''), ec_interval = or_default (num_opt (js_prop e ''interval'')) 0,
      ec_randomOffset = num_opt (js_prop e ''randomOffset''),
      ec_lastSuccessfulRunTimestamp = truthy (js_prop e ''lastSuccessfulRunTimestamp''),
      ec_selectedDelayedEventIds = [], ec_startTime = 0, ec_lockAcquiredTime = 0\<rparr>"

text \<open>\<open>type.replace("_PERIODIC", "")\<close>\<close>

fun strip_periodic :: "string \<Rightarrow> string" where
  "strip_periodic [] = []"
| "strip_periodic (c # cs) =
     (if take (length SUFFIX_PERIODIC) (c # cs) = SUFFIX_PERIODIC then drop (length SUFFIX_PERIODIC) (c # cs)
      else c # strip_periodic cs)"

text \<open>\<open>_checkEventIsBlocked\<close>; the callback of the application may throw; \<open>None\<close> is a \<open>TypeError\<close>.\<close>

definition checkEventIsBlocked ::
  "config_env \<Rightarrow> config \<Rightarrow> (string \<Rightarrow> string \<Rightarrow> bool \<Rightarrow> tenant \<Rightarrow> jsval + jsval) option \<Rightarrow> processor \<Rightarrow> bool option" where
  "checkEventIsBlocked ce cf cb p =
     (let byCb = (case cb of
                    None \<Rightarrow> False
                  | Some f \<Rightarrow>
                      (case f (strip_periodic (p_type p)) (p_subType p) (ec_isPeriodic (p_cfg p)) (p_tenant p) of
                         Inl err \<Rightarrow> True | Inr v \<Rightarrow> truthy v));
          blocked = (byCb \<or> isTenantUnsubscribed (tenant_prop (p_tenant p)) cf)
      in if blocked then Some True
         else map_option Not (shouldBeProcessedInThisApplication ce cf (p_type p) (p_subType p) (ec_namespace (p_cfg p))))"

text \<open>What a run gets from its surroundings: \<open>ru_require\<close> loads the implementation of an event.\<close>

record ('b, 'r) run_env =
  ru_gc :: global_cfg
  ru_pf :: platform
  ru_pe :: periodic_env
  ru_ce :: config_env
  ru_rd :: "'r redis"
  ru_require :: "event_obj \<Rightarrow> 'b handler option"
  ru_isEventBlockedCb :: "(string \<Rightarrow> string \<Rightarrow> bool \<Rightarrow> tenant \<Rightarrow> jsval + jsval) option"
  ru_start :: time
  ru_clock :: "nat \<Rightarrow> clock"
  ru_end :: time

definition run_locked ::
  "('b, 'r) run_env \<Rightarrow> nat \<Rightarrow> 'b handler \<Rightarrow> processor \<Rightarrow> 'b world \<Rightarrow> 'b world option" where
  "run_locked ru fuel h p w =
     (let cfg = (p_cfg p)\<lparr>ec_startTime := ru_start ru, ec_lockAcquiredTime := ru_start ru\<rparr> in
      if ec_isPeriodic cfg
      then map_option fst (processPeriodicEvent (ru_gc ru) (ru_pe ru) h (\<lambda>n. fst (ru_clock ru n)) fuel 0 None (w, p\<lparr>p_cfg := cfg\<rparr>))
      else map_option fst (processing_loop (ru_gc ru) (ru_pf ru) h (p_tenant p) (p_type p) (p_subType p) (ru_clock ru) fuel 0 (w, cfg)))"

definition processEventQueue ::
  "('b, 'r) run_env \<Rightarrow> config \<Rightarrow> nat \<Rightarrow> tenant \<Rightarrow> string \<Rightarrow> string \<Rightarrow> string \<Rightarrow> 'b world \<times> 'r locks \<Rightarrow> ('b world \<times> 'r locks) option" where
  "processEventQueue ru cf fuel t ty sub ns s =
     (case s of (w, ls) \<Rightarrow>
        case getEventConfig ty sub ns cf of
          None \<Rightarrow> Some (w, ls)
        | Some e \<Rightarrow>
            (case ru_require ru e of
               None \<Rightarrow> Some (w, ls)
             | Some h \<Rightarrow>
                 let base = new_processor t ty sub (event_cfg_of e) in
                 if checkEventIsBlocked (ru_ce ru) cf (ru_isEventBlockedCb ru) base \<noteq> Some False then Some (w, ls)
                 else (case acquireDistributedLock (ru_rd ru) cf (ru_start ru) (base, ls) of
                         ((p, ls1), False) \<Rightarrow> Some (w, ls1)
                       | ((p, ls1), True) \<Rightarrow>
                           map_option (\<lambda>w'. (w', handleReleaseLock (ru_rd ru) cf (ru_end ru) p ls1)) (run_locked ru fuel h p w))))"

subsection \<open>Lemmas: what an operation leaves alone\<close>

text \<open>The parts of a processor that the status operations do not touch.\<close>

definition frame :: "processor \<Rightarrow> event_cfg \<times> event_row list \<times> event_row jsobj \<times> string \<times> bool jsobj \<times> bool \<times> bool" where
  "frame p = (p_cfg p, p_queueEntries p, p_selectedEventMap p, p_transactionMode p, p_outdatedEventMap p,
     p_keepAliveViolated p, p_emptyChunkSelected p)"

named_theorems frame_simps

lemma frame_add_to_own [frame_simps]: "frame (add_to_own ids n err p) = frame p"
  by (simp add: frame_def add_to_own_def)

lemma frame_handleError [frame_simps]:
  "frame (fst (handleErrorDuringProcessing err rs p)) = frame p"
  "frame (handleErrorDuringClustering p) = frame p" "frame (handleErrorTx p) = frame p"
  "frame (setStatusToDone r p) = frame p" "frame (handleInvalidPayloadReturned r p) = frame p"
  by (simp_all add: handleErrorDuringProcessing_def handleErrorDuringClustering_def handleErrorTx_def
      setStatusToDone_def handleInvalidPayloadReturned_def frame_add_to_own)

lemma frame_addEvent [frame_simps]:
  "frame (addEventWithPayloadForProcessing r pl p) = frame p" "frame (addEntryToProcessingMap k r pl p) = frame p"
  by (simp_all add: frame_def addEventWithPayloadForProcessing_def addEntryToProcessingMap_def Let_def)

lemma frame_setEventStatus [frame_simps]: "frame (fst (setEventStatus pf rs tuple ret p)) = frame p"
  by (simp add: frame_def setEventStatus_def Let_def)

lemma frame_note_flags [frame_simps]: "frame (note_flags key rb saga p) = frame p"
  by (simp add: frame_def note_flags_def setShouldRollbackTransaction_def Let_def)

lemma frame_preprocess [frame_simps]: "frame (preprocess pf h rs p) = frame p"
proof -
  have "frame (preprocess_entry pf h p r) = frame p" for p r
    by (simp add: preprocess_entry_def Let_def frame_simps split: sum.splits)
  then show ?thesis unfolding preprocess_def by (induction rs arbitrary: p) simp_all
qed

lemma frame_cluster [frame_simps]: "frame (fst (cluster_entries h p)) = frame p"
proof -
  have "frame (foldl (\<lambda>p' (key, r, payload). addEntryToProcessingMap key r payload p') p adds) = frame p" for adds
    by (induction adds arbitrary: p) (auto simp: frame_simps)
  then show ?thesis by (simp add: cluster_entries_def split: prod.splits)
qed

lemma frame_processEvent [frame_simps]:
  "frame (fst (snd (processEvent pf h key rs payload s))) = frame (snd s)"
proof -
  obtain b p where s: "s = (b, p)" by fastforce
  obtain b' rb saga res where hp: "h_process h key rs payload b = (b', rb, saga, res)" by (metis surj_pair)
  show ?thesis
  proof (cases res)
    case (Inl err)
    obtain p2 m where e: "handleErrorDuringProcessing err rs (note_flags key rb saga p) = (p2, m)" by fastforce
    then have "frame p2 = frame p" using frame_simps by (metis fst_conv)
    then show ?thesis by (simp add: processEvent_def s hp Inl e Let_def)
  next
    case (Inr tuple)
    obtain p2 m where e: "setEventStatus pf rs tuple False (note_flags key rb saga p) = (p2, m)" by fastforce
    then have "frame p2 = frame p" using frame_simps by (metis fst_conv)
    then show ?thesis by (simp add: processEvent_def s hp Inr e Let_def)
  qed
qed

lemma frame_persist [frame_simps]:
  assumes "persistEventStatus pf now mode s = Some s'"
  shows "frame (snd s') = frame (snd s)"
proof -
  have g: "frame (snd (persist_group pf now g s)) = frame (snd s)" for g and s :: "'b world \<times> processor"
    by (simp add: persist_group_def frame_def note_commited_def Let_def split: prod.splits)
  have f: "frame (snd (foldl (\<lambda>s' g. persist_group pf now g s') s gs)) = frame (snd s)" for gs and s :: "'b world \<times> processor"
    by (induction gs arbitrary: s) (simp_all add: g)
  have i: "frame (snd (insert_nextSagaEvents s)) = frame (snd s)" for s :: "'b world \<times> processor"
    by (simp add: insert_nextSagaEvents_def frame_def split: prod.splits)
  have u: "frame (p\<lparr>p_statusMap := m\<rparr>) = frame p" for p m by (simp add: frame_def)
  show ?thesis
    using assms by (auto simp: persistEventStatus_def Let_def i f u split: option.splits if_splits)
qed

subsection \<open>Lemmas: the run's own status map\<close>

abbreviation allowed_status :: "int set" where
  "allowed_status \<equiv> {Open, Done, Error, Exceeded}"

text \<open>In isolated mode only the program itself writes the own map, always with an allowed number.\<close>

definition own_ok :: "status_map \<Rightarrow> bool" where
  "own_ok m \<longleftrightarrow> distinct (obj_keys m) \<and>
     (\<forall>(i, v)\<in>set m. \<exists>n ps. v = JObj ((''status'', JNum n) # ps) \<and> n \<in> allowed_status)"

lemma own_okD: "own_ok m \<Longrightarrow> obj_get m i = Some v \<Longrightarrow> \<exists>n ps. v = JObj ((''status'', JNum n) # ps) \<and> n \<in> allowed_status"
  using map_of_SomeD [of m i v] by (fastforce simp: own_ok_def)

lemma own_ok_set:
  "own_ok m \<Longrightarrow> n \<in> allowed_status \<Longrightarrow> own_ok (obj_set i (status_data (JNum n) err) m)"
  by (auto simp: own_ok_def status_data_def dest!: obj_set_mem)

lemma own_ok_add_status:
  assumes "own_ok m" "n \<in> allowed_status"
  shows "own_ok (add_status i n err m) \<and> fst ` set (add_status i n err m) = insert i (fst ` set m)"
proof (cases "obj_get m i")
  case None
  then have "add_status i n err m = obj_set i (status_data (JNum n) err) m"
    by (intro add_status_new) (simp add: js_prop_def)
  then show ?thesis using own_ok_set [OF assms] by simp
next
  case (Some v)
  then have "i \<in> fst ` set m" by (metis map_of_SomeD image_eqI fst_conv)
  moreover have "add_status i n err m = m \<or> add_status i n err m = obj_set i (status_data (JNum n) err) m"
    using own_okD [OF assms(1) Some] Some
    by (auto simp: add_status_def determineAndAddEventStatusToMap_def Let_def js_prop_def)
  ultimately show ?thesis using own_ok_set [OF assms] assms(1) by (metis insert_absorb set_keys_obj_set)
qed

lemma own_ok_add_all:
  "own_ok m \<Longrightarrow> n \<in> allowed_status \<Longrightarrow>
     own_ok (add_status_all ids n err m) \<and> fst ` set (add_status_all ids n err m) = set ids \<union> fst ` set m"
proof (induction ids arbitrary: m)
  case (Cons i ids)
  then show ?case using own_ok_add_status [OF Cons.prems, of i err] by simp
qed simp

lemma own_ok_normalize:
  "own_ok m \<Longrightarrow> \<exists>nm. normalizeStatusMap m = Some nm \<and> map fst nm = map fst m \<and> (\<forall>(i, d)\<in>set nm. status_allowed d)"
proof (induction m)
  case (Cons e m)
  obtain i v where e: "e = (i, v)" by fastforce
  from Cons.prems obtain n ps where v: "v = JObj ((''status'', JNum n) # ps)" "n \<in> allowed_status" and m: "own_ok m"
    by (auto simp: own_ok_def e)
  obtain nm where nm: "normalizeStatusMap m = Some nm" "map fst nm = map fst m" "\<forall>(i, d)\<in>set nm. status_allowed d"
    using Cons.IH [OF m] by blast
  have "js_prop (pick_fields ALLOWED_FIELDS_FOR_UPDATE ((''status'', JNum n) # ps)) ''status'' = JNum n"
    by (simp add: pick_fields_def ALLOWED_FIELDS_FOR_UPDATE_def)
  then have "status_allowed (pick_fields ALLOWED_FIELDS_FOR_UPDATE ((''status'', JNum n) # ps))"
    using v(2) by (simp add: status_allowed_def)
  then show ?case using nm by (simp add: e v(1))
qed simp

lemma own_ok_Nil [simp]: "own_ok []"
  by (simp add: own_ok_def)

text \<open>Which maps reach \<open>persistEventStatus\<close> in isolated mode.\<close>

lemma distinct_determine:
  "determineAndAddEventStatusToMap i v err m = Some m' \<Longrightarrow> distinct (obj_keys m) \<Longrightarrow> distinct (obj_keys m')"
  by (auto simp: determineAndAddEventStatusToMap_def Let_def split: if_splits option.splits)

lemma distinct_add_all: "distinct (obj_keys m) \<Longrightarrow> distinct (obj_keys (add_status_all ids n err m))"
proof (induction ids arbitrary: m)
  case (Cons i ids)
  then show ?case using distinct_determine [OF add_status_eq Cons.prems] by simp
qed simp

lemma distinct_add_tuples: "distinct (obj_keys m) \<Longrightarrow> distinct (obj_keys (fst (add_tuples ds ts m)))"
proof (induction ts arbitrary: m)
  case (Cons t ts)
  then show ?case using distinct_determine [OF _ Cons.prems] by (auto split: option.splits)
qed simp

lemma distinct_setEventStatus: "distinct (obj_keys m) \<Longrightarrow> distinct (obj_keys (setEventStatus_on ds ids tuple m))"
  using distinct_add_tuples [of m ds] distinct_add_all
  by (auto simp: setEventStatus_on_def split: jsval.splits prod.splits bool.splits) (metis fst_conv)+

lemma processEvent_isolated:
  assumes "processEvent pf h key rs payload (b, p) = (b', p1, m)" "commitOnEventLevel p" "own_ok (p_statusMap p)"
  shows "own_ok (p_statusMap p1) \<and> fst ` set (p_statusMap p) \<subseteq> fst ` set (p_statusMap p1)
    \<and> distinct (obj_keys m) \<and> p_commitedStatusMap p1 = p_commitedStatusMap p"
proof -
  obtain bb rb saga res where hp: "h_process h key rs payload b = (bb, rb, saga, res)" by (metis surj_pair)
  have nf: "p_statusMap (note_flags key rb saga p) = p_statusMap p" "p_transactionMode (note_flags key rb saga p) = p_transactionMode p"
    "p_commitedStatusMap (note_flags key rb saga p) = p_commitedStatusMap p"
    by (simp_all add: note_flags_def setShouldRollbackTransaction_def Let_def)
  have err: "own_ok (add_status_all (map ev_ID rs) Error e (p_statusMap p))
      \<and> fst ` set (p_statusMap p) \<subseteq> fst ` set (add_status_all (map ev_ID rs) Error e (p_statusMap p))" for e
    using own_ok_add_all [OF assms(3), of Error "map ev_ID rs" e] by simp
  show ?thesis
  proof (cases "isOutdatedAndKeepAlive p")
    case True
    then show ?thesis using assms by (auto simp: processEvent_def)
  next
    case False
    show ?thesis
    proof (cases res)
      case (Inl e)
      have "p_statusMap p1 = add_status_all (map ev_ID rs) Error e (p_statusMap p)" "distinct (obj_keys m)"
        "p_commitedStatusMap p1 = p_commitedStatusMap p"
        using assms(1) False hp nf Inl distinct_obj_from
        by (auto simp: processEvent_def Let_def handleErrorDuringProcessing_def add_to_own_def)
      then show ?thesis using err by simp
    next
      case (Inr tuple)
      then show ?thesis
        using assms False hp nf distinct_setEventStatus [of "[]"]
        by (auto simp: processEvent_def Let_def commitOnEventLevel_def setEventStatus_def)
    qed
  qed
qed

subsection \<open>Lemmas: what persisting does to a run\<close>

definition final_row :: "event_row \<Rightarrow> bool" where
  "final_row r \<longleftrightarrow> ev_status r \<in> allowed_status"

lemma keys_foldl_set: "fst ` set (foldl (\<lambda>c i. obj_set i v c) base is) = set is \<union> fst ` set base"
  by (induction "is" arbitrary: base) auto

lemma persist_commited:
  assumes "persistEventStatus pf now mode (w, p) = Some (w', p')" "checked_map mode p = Some m"
  shows "fst ` set (p_commitedStatusMap p') \<subseteq> fst ` set (p_commitedStatusMap p) \<union> fst ` set m"
    and "mode \<noteq> OwnMap \<Longrightarrow> p_statusMap p' = p_statusMap p"
proof -
  define p1 where "p1 = (if mode = OwnMap then p\<lparr>p_statusMap := written_map pf now p m\<rparr> else p)"
  let ?G = "group_updates (pf_dateStr pf) m"
  define C where "C s = fst ` set (p_commitedStatusMap (snd s))" for s :: "'a world \<times> processor"
  have step: "C (persist_group pf now g s) \<subseteq> C s \<union> set (snd g)"
    "p_statusMap (snd (persist_group pf now g s)) = p_statusMap (snd s)" for g s
    by (auto simp: C_def persist_group_def note_commited_def Let_def keys_foldl_set split: prod.splits)
  have fold: "C (foldl (\<lambda>s' g. persist_group pf now g s') s gs) \<subseteq> C s \<union> (\<Union>g\<in>set gs. set (snd g))
      \<and> p_statusMap (snd (foldl (\<lambda>s' g. persist_group pf now g s') s gs)) = p_statusMap (snd s)" for s gs
  proof (induction gs arbitrary: s)
    case (Cons g gs)
    show ?case using step(1) [of g s] step(2) [of g s] Cons.IH [of "persist_group pf now g s"] by auto
  qed simp
  have ids: "set (snd g) \<subseteq> fst ` set m" if g: "g \<in> set (map snd ?G)" for g
  proof -
    obtain k d ids where kd: "(k, d, ids) \<in> set ?G" "g = (d, ids)" using g by auto
    show ?thesis using group_updates_mem(1) [OF kd(1)] kd(2) by auto
  qed
  have ins: "p_commitedStatusMap (snd (insert_nextSagaEvents s)) = p_commitedStatusMap (snd s)"
    "p_statusMap (snd (insert_nextSagaEvents s)) = p_statusMap (snd s)" for s :: "'a world \<times> processor"
    by (simp_all add: insert_nextSagaEvents_def split: prod.splits)
  have p1: "p_commitedStatusMap p1 = p_commitedStatusMap p" "mode \<noteq> OwnMap \<Longrightarrow> p_statusMap p1 = p_statusMap p"
    by (simp_all add: p1_def)
  have res: "(w', p') = (if map snd ?G = [] then (w, p1)
      else insert_nextSagaEvents (foldl (\<lambda>s' g. persist_group pf now g s') (w, p1) (map snd ?G)))"
    using assms unfolding persistEventStatus_def p1_def by (simp add: Let_def split: if_splits)
  have p': "p' = (if map snd ?G = [] then p1
      else snd (insert_nextSagaEvents (foldl (\<lambda>s' g. persist_group pf now g s') (w, p1) (map snd ?G))))"
    using res by (metis snd_conv)
  show "fst ` set (p_commitedStatusMap p') \<subseteq> fst ` set (p_commitedStatusMap p) \<union> fst ` set m"
  proof -
    have "C (foldl (\<lambda>s' g. persist_group pf now g s') (w, p1) (map snd ?G)) \<subseteq> fst ` set (p_commitedStatusMap p) \<union> fst ` set m"
    proof -
      have "(\<Union>g\<in>set (map snd ?G). set (snd g)) \<subseteq> fst ` set m" using ids by blast
      moreover have "C (w, p1) = fst ` set (p_commitedStatusMap p)" using p1(1) by (simp add: C_def)
      ultimately show ?thesis using fold [of "(w, p1)" "map snd ?G"] by blast
    qed
    then show ?thesis using p1(1) by (simp add: p' ins C_def)
  qed
  show "mode \<noteq> OwnMap \<Longrightarrow> p_statusMap p' = p_statusMap p"
    unfolding p' using fold [of "(w, p1)" "map snd ?G"] p1(2) by (simp add: ins)
qed

lemma persist_final:
  assumes "persistEventStatus pf now mode (w, p) = Some (w', p')" "checked_map mode p = Some m"
    and "distinct (obj_keys (mode_map mode p))" "row_of (w_events w) i = Some r"
  shows "\<exists>r'. row_of (w_events w') i = Some r' \<and> (final_row r \<or> i \<in> fst ` set m \<longrightarrow> final_row r')"
proof (cases "obj_get m i")
  case None
  then have "i \<notin> fst ` set m" by (simp add: map_of_eq_None_iff)
  then show ?thesis using persist_row(1) [OF assms None] by simp
next
  case (Some d)
  obtain j d' where j: "(j, d') \<in> set m" "row_of (w_events w') i = Some (set_columns now
      (prepare_update (pf_parseDate pf) (ec_retry (p_cfg p)) now d') r)" using persist_row(2) [OF assms Some] by blast
  have "status_allowed d'" using checked_map_facts(2) [OF assms(2,3) j(1)] by simp
  then obtain n where "n \<in> allowed_status" "js_prop d' ''status'' = JNum n" by (auto simp: status_allowed_def)
  then show ?thesis using j(2) written_status [of d' n] by (auto simp: final_row_def)
qed

lemma persist_exists: "checked_map mode p = Some m \<Longrightarrow> \<exists>s'. persistEventStatus pf now mode (w, p) = Some s'"
  by (auto simp: persistEventStatus_def Let_def)

lemma persist_checked: "persistEventStatus pf now mode (w, p) = Some s' \<Longrightarrow> \<exists>m. checked_map mode p = Some m"
  by (auto simp: persistEventStatus_def split: option.splits)

text \<open>The own map, checked: nothing is missing.\<close>

lemma ensureHas_keys: "fst ` set m \<subseteq> fst ` set (ensureEveryQueueEntryHasStatus com out is m)"
  by (induction "is" arbitrary: m) (auto simp: subset_iff)

lemma ensureHas_covers:
  "i \<in> set is \<Longrightarrow> i \<in> fst ` set (ensureEveryQueueEntryHasStatus com out is m) \<or> i \<in> set com \<or> i \<in> set out"
proof (induction "is" arbitrary: m)
  case (Cons j js)
  show ?case
  proof (cases "i = j")
    case True
    have "j \<in> set com \<or> j \<in> set out \<or> j \<in> fst ` set (if j \<in> set (obj_keys m) \<or> j \<in> set com \<or> j \<in> set out then m
        else obj_set j [(''status'', JNum Done)] m)" by auto
    then show ?thesis unfolding True ensureEveryQueueEntryHasStatus.simps using ensureHas_keys by (meson subsetD)
  next
    case False
    then show ?thesis using Cons by simp
  qed
qed simp

lemma checked_own:
  assumes "own_ok (p_statusMap p)"
  shows "\<exists>m. checked_map OwnMap p = Some m \<and>
    (\<forall>i\<in>ev_ID ` set (p_queueEntries p). i \<in> fst ` set (p_selectedEventMap p) \<longrightarrow>
       i \<in> fst ` set m \<or> (i \<notin> fst ` set (p_statusMap p) \<and>
         (i \<in> fst ` set (p_commitedStatusMap p) \<or> i \<in> fst ` set (p_outdatedEventMap p))))"
proof -
  obtain nm where nm: "normalizeStatusMap (p_statusMap p) = Some nm" "map fst nm = map fst (p_statusMap p)"
    "\<forall>(i, d)\<in>set nm. status_allowed d" using own_ok_normalize [OF assms] by blast
  define sel where "sel = ensureOnlySelectedQueueEntries (obj_keys (p_selectedEventMap p)) nm"
  define full where "full = ensureEveryQueueEntryHasStatus (obj_keys (p_commitedStatusMap p))
    (obj_keys (p_outdatedEventMap p)) (map ev_ID (p_queueEntries p)) sel"
  have cm: "checked_map OwnMap p = Some (ensureEveryStatusIsAllowed full)"
    by (simp add: checked_map_def nm(1) sel_def full_def Let_def)
  have fst_nm: "fst ` set nm = fst ` set (p_statusMap p)" using nm(2) by (metis list.set_map)
  have allowed: "status_allowed d" if mem: "(i, d) \<in> set full" for i d
  proof -
    consider "(i, d) \<in> set sel" | "d = [(''status'', JNum Done)]"
      using ensureHas_mem [OF mem [unfolded full_def]] by blast
    then show ?thesis
    proof cases
      case 1
      then have "(i, d) \<in> set nm" by (simp add: sel_def ensureOnlySelectedQueueEntries_def)
      then show ?thesis using nm(3) by blast
    qed (simp add: status_allowed_def)
  qed
  have keep: "fst ` set (ensureEveryStatusIsAllowed full) = fst ` set full"
    using allowed by (auto simp: ensureEveryStatusIsAllowed_def image_iff)
  have "i \<in> fst ` set full \<or> (i \<notin> fst ` set (p_statusMap p) \<and> (i \<in> fst ` set (p_commitedStatusMap p) \<or> i \<in> fst ` set (p_outdatedEventMap p)))"
    if i: "i \<in> ev_ID ` set (p_queueEntries p)" "i \<in> fst ` set (p_selectedEventMap p)" for i
  proof (cases "i \<in> fst ` set (p_statusMap p)")
    case True
    then have "i \<in> fst ` set nm" using fst_nm by simp
    then obtain d where "(i, d) \<in> set nm" by auto
    then have "(i, d) \<in> set sel" using i(2) by (auto simp: sel_def ensureOnlySelectedQueueEntries_def)
    then show ?thesis using ensureHas_keys [of sel] by (force simp: full_def)
  next
    case False
    then show ?thesis using ensureHas_covers [of i "map ev_ID (p_queueEntries p)" "obj_keys (p_commitedStatusMap p)" "obj_keys (p_outdatedEventMap p)" sel] i(1)
      by (simp add: full_def)
  qed
  then show ?thesis using cm keep by blast
qed

subsection \<open>Lemmas: statuses become final\<close>

abbreviation commited_ids :: "'b world \<times> processor \<Rightarrow> string set" where
  "commited_ids s \<equiv> fst ` set (p_commitedStatusMap (snd s))"

text \<open>From one state to a later one no row disappears, final rows stay final, and an id is newly marked
  as committed only when its row is final or a transaction failed.\<close>

definition keeps_final :: "bool \<Rightarrow> 'b world \<times> processor \<Rightarrow> 'b world \<times> processor \<Rightarrow> bool" where
  "keeps_final failed s s' \<longleftrightarrow>
     (\<forall>i r. row_of (w_events (fst s)) i = Some r \<longrightarrow>
        (\<exists>r'. row_of (w_events (fst s')) i = Some r' \<and> (final_row r \<longrightarrow> final_row r')
           \<and> (i \<in> commited_ids s' \<longrightarrow> i \<in> commited_ids s \<or> final_row r' \<or> failed)))"

lemma keeps_final_refl: "w_events (fst s) = w_events (fst s') \<Longrightarrow> commited_ids s' \<subseteq> commited_ids s \<Longrightarrow> keeps_final e s s'"
  by (auto simp: keeps_final_def)

lemma keeps_final_trans:
  assumes "keeps_final e1 s s1" "keeps_final e2 s1 s2"
  shows "keeps_final (e1 \<or> e2) s s2"
  unfolding keeps_final_def
proof (intro allI impI)
  fix i r assume "row_of (w_events (fst s)) i = Some r"
  then obtain r1 where r1: "row_of (w_events (fst s1)) i = Some r1" "final_row r \<longrightarrow> final_row r1"
    "i \<in> commited_ids s1 \<longrightarrow> i \<in> commited_ids s \<or> final_row r1 \<or> e1"
    using assms(1) unfolding keeps_final_def by blast
  then obtain r2 where "row_of (w_events (fst s2)) i = Some r2" "final_row r1 \<longrightarrow> final_row r2"
    "i \<in> commited_ids s2 \<longrightarrow> i \<in> commited_ids s1 \<or> final_row r2 \<or> e2"
    using assms(2) unfolding keeps_final_def by blast
  with r1 show "\<exists>r'. row_of (w_events (fst s2)) i = Some r' \<and> (final_row r \<longrightarrow> final_row r')
      \<and> (i \<in> commited_ids s2 \<longrightarrow> i \<in> commited_ids s \<or> final_row r' \<or> e1 \<or> e2)" by blast
qed

lemma keeps_final_persist:
  assumes "persistEventStatus pf now mode (w, p) = Some (w', p')" "distinct (obj_keys (mode_map mode p))"
  shows "keeps_final False (w, p) (w', p')"
proof -
  obtain m where m: "checked_map mode p = Some m" using persist_checked [OF assms(1)] by blast
  show ?thesis
    unfolding keeps_final_def
  proof (intro allI impI)
    fix i r assume r: "row_of (w_events (fst (w, p))) i = Some r"
    obtain r' where "row_of (w_events w') i = Some r'" "final_row r \<or> i \<in> fst ` set m \<longrightarrow> final_row r'"
      using persist_final [OF assms(1) m assms(2) r [unfolded fst_conv]] by blast
    then show "\<exists>r'. row_of (w_events (fst (w', p'))) i = Some r' \<and> (final_row r \<longrightarrow> final_row r')
        \<and> (i \<in> commited_ids (w', p') \<longrightarrow> i \<in> commited_ids (w, p) \<or> final_row r' \<or> False)"
      using persist_commited(1) [OF assms(1) m] by (intro exI [of _ r']) auto
  qed
qed

lemma keeps_final_biz: "keeps_final e (w\<lparr>w_biz := b\<rparr>, p) s' = keeps_final e (w, p) s'"
  by (simp add: keeps_final_def)

text \<open>A cluster in its own transaction: nothing happened, or the status was persisted and the transaction committed
  or failed to commit.\<close>

lemma processIsolated_outcome:
  assumes "processIsolated pf h now (key, rs, payload) (w, p) = ((w', p'), failed)"
    and "processEvent pf h key rs payload (w_biz w, p) = (b', p1, m)"
  shows "w' = w \<and> p' = p1 \<and> failed \<or>
    (\<exists>b w2. persistEventStatus pf now (Given m) (w\<lparr>w_biz := b\<rparr>, p1) = Some (w2, p')
       \<and> (\<not> failed \<and> w' = w2 \<or> failed \<and> w' = w\<lparr>w_sched := w_sched w2\<rparr>))"
proof -
  let ?P = "\<lambda>b. persistEventStatus pf now (Given m) (w\<lparr>w_biz := b\<rparr>, p1)"
  note def = assms(1) [unfolded processIsolated_def prod.case assms(2)]
  show ?thesis
  proof (cases "statusMapContainsError m")
    case None
    then show ?thesis using def by simp
  next
    case err: (Some hasError)
    show ?thesis
    proof (cases "hasError \<or> shouldRollbackTransaction key p1")
      case True
      then show ?thesis using def err by (cases "?P (w_biz w)") (auto intro!: exI [of _ "w_biz w"])
    next
      case False
      then show ?thesis using def err by (cases "?P b'") (auto split: if_splits)
    qed
  qed
qed

lemma isolated_step:
  assumes "processIsolated pf h now c (w, p) = ((w', p'), failed)" "commitOnEventLevel p" "own_ok (p_statusMap p)"
  shows "frame p' = frame p \<and> own_ok (p_statusMap p') \<and> keeps_final failed (w, p) (w', p')"
proof -
  obtain key rs payload where c: "c = (key, rs, payload)" by (metis surj_pair)
  obtain b' p1 m where pe: "processEvent pf h key rs payload (w_biz w, p) = (b', p1, m)" by (metis surj_pair)
  note pi = processEvent_isolated [OF pe assms(2,3)]
  have fr: "frame p1 = frame p" using frame_processEvent [of pf h key rs payload "(w_biz w, p)"] pe by simp
  have same: "keeps_final e (w, p) (w, p1)" for e by (rule keeps_final_refl) (use pi in simp_all)
  have dm: "distinct (obj_keys (mode_map (Given m) p1))" using pi by simp
  have per: "frame p2 = frame p \<and> own_ok (p_statusMap p2) \<and> keeps_final False (w, p) (w2, p2)"
    if ps: "persistEventStatus pf now (Given m) (w\<lparr>w_biz := b\<rparr>, p1) = Some (w2, p2)" for b w2 p2
  proof -
    obtain cm where "checked_map (Given m) p1 = Some cm" using persist_checked [OF ps] by blast
    then have "p_statusMap p2 = p_statusMap p1" using persist_commited(2) [OF ps] by blast
    moreover have "keeps_final False (w, p1) (w2, p2)" using keeps_final_persist [OF ps dm] by (simp add: keeps_final_biz)
    ultimately show ?thesis
      using keeps_final_trans [OF same [of False]] frame_persist [OF ps] fr pi by simp
  qed
  from processIsolated_outcome [OF assms(1) [unfolded c] pe] show ?thesis
  proof (elim disjE exE conjE)
    assume "w' = w" "p' = p1" failed
    then show ?thesis using same fr pi by simp
  next
    fix b w2
    assume "persistEventStatus pf now (Given m) (w\<lparr>w_biz := b\<rparr>, p1) = Some (w2, p')" "\<not> failed" "w' = w2"
    then show ?thesis using per by simp
  next
    fix b w2
    assume "persistEventStatus pf now (Given m) (w\<lparr>w_biz := b\<rparr>, p1) = Some (w2, p')" failed "w' = w\<lparr>w_sched := w_sched w2\<rparr>"
    then show ?thesis using per by (auto simp: keeps_final_def)
  qed
qed

lemma isolated_all:
  assumes "processAllIsolated pf h now cs (w, p) = ((w', p'), failed)" "commitOnEventLevel p" "own_ok (p_statusMap p)"
  shows "frame p' = frame p \<and> own_ok (p_statusMap p') \<and> keeps_final failed (w, p) (w', p')"
  using assms
proof (induction cs arbitrary: w p failed)
  case Nil
  then show ?case by (auto intro: keeps_final_refl)
next
  case (Cons c cs)
  obtain w1 p1 e1 where s1: "processIsolated pf h now c (w, p) = ((w1, p1), e1)" by (metis surj_pair)
  obtain e2 where s2: "processAllIsolated pf h now cs (w1, p1) = ((w', p'), e2)" "failed = (e1 \<or> e2)"
    using Cons.prems(1) s1 by (auto split: prod.splits)
  note st = isolated_step [OF s1 Cons.prems(2,3)]
  have "commitOnEventLevel p1" using st Cons.prems(2) by (simp add: frame_def commitOnEventLevel_def)
  note ih = Cons.IH [OF s2(1) this conjunct1 [OF conjunct2 [OF st]]]
  have "keeps_final failed (w, p) (w', p')"
    unfolding s2(2) using keeps_final_trans st ih by blast
  then show ?case using st ih by simp
qed

lemma own_ok_add_to_own: "own_ok (p_statusMap p) \<Longrightarrow> n \<in> allowed_status \<Longrightarrow>
    own_ok (p_statusMap (add_to_own ids n err p))
    \<and> fst ` set (p_statusMap (add_to_own ids n err p)) = set ids \<union> fst ` set (p_statusMap p)"
  using own_ok_add_all [of "p_statusMap p" n ids err] by (simp add: add_to_own_def)

lemma add_to_own_commited [simp]: "p_commitedStatusMap (add_to_own ids n err p) = p_commitedStatusMap p"
  "p_queueEntries (add_to_own ids n err p) = p_queueEntries p"
  by (simp_all add: add_to_own_def)

lemma cluster_entries_maps:
  assumes "cluster_entries h p = (pc, err)"
  shows "p_statusMap pc = p_statusMap p \<and> p_commitedStatusMap pc = p_commitedStatusMap p"
proof -
  have "p_statusMap (foldl (\<lambda>p' (key, r, payload). addEntryToProcessingMap key r payload p') p adds) = p_statusMap p
      \<and> p_commitedStatusMap (foldl (\<lambda>p' (key, r, payload). addEntryToProcessingMap key r payload p') p adds)
        = p_commitedStatusMap p" for adds
    by (induction adds arbitrary: p) (auto simp: addEntryToProcessingMap_def Let_def)
  then show ?thesis using assms by (auto simp: cluster_entries_def split: prod.splits)
qed

text \<open>After the processing transaction of an isolated run: committed entries are final, or all
  entries of the chunk have a status in the own map.\<close>

lemma own_ok_handleErrorTx:
  "own_ok (p_statusMap p) \<Longrightarrow> own_ok (p_statusMap (handleErrorTx p))
     \<and> fst ` set (p_statusMap (handleErrorTx p)) = ev_ID ` set (p_queueEntries p) \<union> fst ` set (p_statusMap p)"
  using own_ok_add_to_own [of p Error "map ev_ID (p_queueEntries p)" JUndef] by (simp add: handleErrorTx_def)

lemma isolated_chunk:
  assumes "commitOnEventLevel p" "own_ok (p_statusMap p)" "processChunk pf h now (w, p) = (w', p')"
  shows "frame p' = frame p \<and> own_ok (p_statusMap p') \<and>
    (keeps_final False (w, p) (w', p')
     \<or> keeps_final True (w, p) (w', p') \<and> ev_ID ` set (p_queueEntries p) \<subseteq> fst ` set (p_statusMap p'))"
proof (cases "p_queueEntriesWithPayloadMap p = []")
  case True
  then show ?thesis using assms by (auto simp: processChunk_def intro: keeps_final_refl)
next
  case False
  obtain pc err where pc: "cluster_entries h p = (pc, err)" by fastforce
  note cm = cluster_entries_maps [OF pc]
  have fr: "frame pc = frame p" using frame_cluster [of h p] pc by simp
  then have level: "commitOnEventLevel pc" and mode: "p_transactionMode pc \<noteq> alwaysCommit" and q: "p_queueEntries pc = p_queueEntries p"
    using assms(1) by (auto simp: frame_def commitOnEventLevel_def mode_defs)
  have ok: "own_ok (p_statusMap pc)" using cm assms(2) by simp
  have err_case: ?thesis if "(w', p') = (w, handleErrorDuringClustering pc)"
    using that own_ok_add_to_own [OF ok, of Error "map ev_ID (p_queueEntries pc)" JUndef] cm fr
    by (auto simp: handleErrorDuringClustering_def frame_simps intro!: keeps_final_refl)
  have err_mode: "p_transactionMode (handleErrorDuringClustering pc) \<noteq> alwaysCommit"
    using mode by (simp add: handleErrorDuringClustering_def add_to_own_def)
  show ?thesis
  proof (cases err)
    case (Some e)
    show ?thesis by (rule err_case) (use assms(3) False err_mode in \<open>simp add: processChunk_def pc Some\<close>)
  next
    case None
    show ?thesis
    proof (cases "h_before h pc (w_biz w)")
      case (Inl e)
      show ?thesis by (rule err_case) (use assms(3) False err_mode in \<open>simp add: processChunk_def pc None processEventMap_def Inl\<close>)
    next
      case (Inr b0)
      obtain w1 p1 failed where all: "processAllIsolated pf h now (p_eventProcessingMap pc) (w, pc) = ((w1, p1), failed)"
        by (metis surj_pair)
      note ia = isolated_all [OF all level ok]
      let ?p = "if failed then handleErrorTx p1 else p1"
      have m1: "p_transactionMode ?p \<noteq> alwaysCommit"
        using ia fr mode by (simp add: handleErrorTx_def add_to_own_def frame_def)
      then have res: "w' = w1" "p' = ?p"
        using assms(3) False level by (simp_all add: processChunk_def pc None processEventMap_def Inr all)
      have kf: "keeps_final failed (w, p) (w1, p1)"
        using ia cm by (simp add: keeps_final_def)
      show ?thesis
      proof (cases failed)
        case False
        then show ?thesis using res ia fr kf by simp
      next
        case True
        note o = own_ok_handleErrorTx [OF ia [THEN conjunct2, THEN conjunct1]]
        have "p_queueEntries p1 = p_queueEntries p" using ia fr by (simp add: frame_def)
        moreover have "keeps_final True (w, p) (w1, handleErrorTx p1)"
          using kf True by (simp add: keeps_final_def handleErrorTx_def)
        ultimately show ?thesis using res True o ia fr by (auto simp: frame_simps)
      qed
    qed
  qed
qed

text \<open>Exceeded entries: never throws, keeps the run's own map.\<close>

lemma own_ok_reports:
  assumes "st \<in> allowed_status" "own_ok m"
  shows "\<exists>m'. add_tuples ds (map (\<lambda>r. report (ev_ID r) st) rs) m = (m', False) \<and> own_ok m'"
  using assms(2)
proof (induction rs arbitrary: m)
  case (Cons r rs)
  have "own_ok (add_status (ev_ID r) st JUndef m)" using own_ok_add_status [OF Cons.prems assms(1)] by blast
  from Cons.IH [OF this] show ?case by (simp add: add_status_eq)
qed simp

definition exceeded_step :: "'b world \<times> processor \<Rightarrow> 'b world \<times> processor \<Rightarrow> bool" where
  "exceeded_step s s' \<longleftrightarrow> keeps_final False s s' \<and> frame (snd s') = frame (snd s) \<and> p_statusMap (snd s') = p_statusMap (snd s)"

lemma exceeded_step_trans: "exceeded_step s s1 \<Longrightarrow> exceeded_step s1 s2 \<Longrightarrow> exceeded_step s s2"
  using keeps_final_trans [of False s s1 False s2] by (auto simp: exceeded_step_def)

lemma exceeded_persist:
  assumes "st \<in> allowed_status"
  shows "\<exists>s'. persistEventQueueStatusForExceeded pf now rs st (w\<lparr>w_biz := b\<rparr>, p) = Some s' \<and> exceeded_step (w, p) s'"
proof -
  obtain m where m: "setEventStatus_on (pf_dateStr pf) (map ev_ID rs) (JArr (map (\<lambda>r. report (ev_ID r) st) rs)) [] = m" "own_ok m"
    using own_ok_reports [OF assms own_ok_Nil, of "pf_dateStr pf" rs] by (auto simp: setEventStatus_on_def)
  obtain nm where "normalizeStatusMap m = Some nm" using own_ok_normalize [OF m(2)] by blast
  then obtain cm where cm: "checked_map (Given m) p = Some cm" by (simp add: checked_map_def Let_def)
  obtain w' p' where ps: "persistEventStatus pf now (Given m) (w\<lparr>w_biz := b\<rparr>, p) = Some (w', p')"
    using persist_exists [OF cm, of pf now "w\<lparr>w_biz := b\<rparr>"] by auto
  have "keeps_final False (w, p) (w', p')"
    using keeps_final_persist [OF ps] m(2) by (simp add: own_ok_def keeps_final_biz)
  moreover have "frame p' = frame p" using frame_persist [OF ps] by simp
  moreover have "p_statusMap p' = p_statusMap p" using persist_commited(2) [OF ps cm] by simp
  ultimately show ?thesis
    using ps m(1) by (simp add: persistEventQueueStatusForExceeded_def setEventStatus_def exceeded_step_def)
qed

lemma handleExceeded_steps: "\<exists>s'. handleExceededEvents pf hook now s = Some s' \<and> exceeded_step s s'"
proof -
  have refl: "exceeded_step s s" for s :: "'a world \<times> processor"
    by (simp add: exceeded_step_def keeps_final_refl)
  have one: "\<exists>s'. handleExceededEvent pf hook now r s = Some s' \<and> exceeded_step s s'" for r and s :: "'a world \<times> processor"
  proof -
    obtain w p where s: "s = (w, p)" by fastforce
    show ?thesis
    proof (cases "hook (modifyQueueEntry pf r) (w_biz w)")
      case (Inl err)
      then show ?thesis using exceeded_persist [of Error pf now "[r]" "w_biz w" w p] by (simp add: handleExceededEvent_def s)
    next
      case (Inr b)
      then show ?thesis using exceeded_persist [of Exceeded pf now "[r]" b w p] by (simp add: handleExceededEvent_def s)
    qed
  qed
  have all: "\<exists>s'. for_each_exceeded pf hook now rs s = Some s' \<and> exceeded_step s s'" for rs and s :: "'a world \<times> processor"
  proof (induction rs arbitrary: s)
    case (Cons r rs)
    obtain s1 where s1: "handleExceededEvent pf hook now r s = Some s1" "exceeded_step s s1" using one by blast
    then show ?case using Cons [of s1] exceeded_step_trans by fastforce
  qed (simp add: refl)
  have "\<exists>s'. handleExceededTriesExceeded pf now s = Some s' \<and> exceeded_step s s'"
  proof (cases "p_exceededTriesExceeded (snd s) = []")
    case False
    then show ?thesis
      using exceeded_persist [of Exceeded pf now "p_exceededTriesExceeded (snd s)" "w_biz (fst s)" "fst s" "snd s"]
      by (simp add: handleExceededTriesExceeded_def)
  qed (simp add: handleExceededTriesExceeded_def refl)
  then obtain s1 where s1: "handleExceededTriesExceeded pf now s = Some s1" "exceeded_step s s1" by blast
  then show ?thesis using all [of "p_eventsWithExceededTries (snd s1)" s1] exceeded_step_trans
    by (fastforce simp: handleExceededEvents_def)
qed

lemma preprocess_own: "own_ok (p_statusMap p) \<Longrightarrow> own_ok (p_statusMap (preprocess pf h rs p))
    \<and> p_commitedStatusMap (preprocess pf h rs p) = p_commitedStatusMap p"
proof -
  have one: "own_ok (p_statusMap p) \<Longrightarrow> own_ok (p_statusMap (preprocess_entry pf h p r))
      \<and> p_commitedStatusMap (preprocess_entry pf h p r) = p_commitedStatusMap p" for p r
    using own_ok_add_to_own [of p]
    by (auto simp: preprocess_entry_def Let_def handleErrorDuringProcessing_def setStatusToDone_def
        handleInvalidPayloadReturned_def addEventWithPayloadForProcessing_def split: sum.splits)
  show "own_ok (p_statusMap p) \<Longrightarrow> ?thesis"
    unfolding preprocess_def by (induction rs arbitrary: p) (simp_all add: one)
qed

text \<open>A fresh processor after claiming.\<close>

lemma claim_fresh:
  assumes "getQueueEntriesAndSetToInProgress gc now (w, new_processor t ty sub cfg) = ((w1, p1), rs)"
  shows "p_queueEntries p1 = rs \<and> ev_ID ` set rs \<subseteq> fst ` set (p_selectedEventMap p1) \<and> p_statusMap p1 = []
    \<and> p_commitedStatusMap p1 = [] \<and> p_outdatedEventMap p1 = []
    \<and> p_transactionMode p1 = p_transactionMode (new_processor t ty sub cfg)
    \<and> ec_startTime (p_cfg p1) = ec_startTime cfg"
proof -
  let ?p = "new_processor t ty sub cfg" and ?c = "claim_clusters gc now (new_processor t ty sub cfg) (w_events w)"
  have np: "p_queueEntries ?p = []" "p_statusMap ?p = []" "p_commitedStatusMap ?p = []" "p_outdatedEventMap ?p = []"
    "p_selectedEventMap ?p = []" "p_cfg ?p = cfg"
    by (simp_all add: new_processor_def Let_def)
  show ?thesis
  proof (cases "selected_rows gc now ?p (w_events w) = []")
    case True
    then show ?thesis using assms np by (auto simp: getQueueEntriesAndSetToInProgress_def)
  next
    case False
    define pa where "pa = ?p\<lparr>p_selectedEventMap := arrayToFlatMap (map (claim_entry now) (events_for_processing ?p ?c)),
            p_eventsWithExceededTries :=
              (if \<not> ec_isPeriodic (p_cfg ?p) \<and> cl_exceededTries ?c \<noteq> [] then map (claim_entry now) (cl_exceededTries ?c)
               else p_eventsWithExceededTries ?p),
            p_exceededTriesExceeded :=
              (if cl_exceededTriesExceeded ?c \<noteq> [] then map (claim_entry now) (cl_exceededTriesExceeded ?c)
               else p_exceededTriesExceeded ?p)\<rparr>"
    obtain w2 p2 where hd: "handleDelayedEvents False now (cl_delayedEvents ?c) (w, pa) = (w2, p2)" by fastforce
    obtain ids where p2: "p2 = pa\<lparr>p_cfg := (p_cfg pa)\<lparr>ec_selectedDelayedEventIds := ids\<rparr>\<rparr>"
      using handleDelayed_facts [of False now "cl_delayedEvents ?c" "(w, pa)"] hd by auto
    have keys: "\<And>x. x \<in> set (cl_openEvents ?c) \<Longrightarrow> ev_ID x \<in> fst ` set (p_selectedEventMap pa)"
      by (auto simp: pa_def arrayToFlatMap_def keys_obj_from events_for_processing_def image_image image_Un)
    have pa: "p_queueEntries pa = []" "p_statusMap pa = []" "p_commitedStatusMap pa = []" "p_outdatedEventMap pa = []"
      "p_transactionMode pa = p_transactionMode ?p" "p_cfg pa = cfg"
      using np by (simp_all add: pa_def)
    have nil: "events_for_processing ?p ?c = [] \<Longrightarrow> cl_openEvents ?c = []" by (simp add: events_for_processing_def)
    have rest: "p_queueEntries p1 = rs \<and> (rs \<noteq> [] \<longrightarrow> p_selectedEventMap p1 = p_selectedEventMap pa) \<and> p_statusMap p1 = []
        \<and> p_commitedStatusMap p1 = [] \<and> p_outdatedEventMap p1 = []
        \<and> p_transactionMode p1 = p_transactionMode ?p \<and> ec_startTime (p_cfg p1) = ec_startTime cfg"
      using assms False nil unfolding getQueueEntriesAndSetToInProgress_def prod.case Let_def pa_def [symmetric]
      by (auto simp: hd p2 pa set_in_progress_def Let_def split: if_splits)
    have "rs = map (claim_entry now) (cl_openEvents ?c)" using getQueueEntries_eq [OF assms] by simp
    then have "rs \<noteq> [] \<Longrightarrow> ev_ID ` set rs \<subseteq> fst ` set (p_selectedEventMap p1)" using rest keys by (auto simp: image_image)
    then show ?thesis using rest by (cases "rs = []") simp_all
  qed
qed


lemma claimed_rows_exist:
  assumes "table_ok (w_events w)" "getQueueEntriesAndSetToInProgress gc now (w, p) = ((w1, p1), rs)" "e \<in> set rs"
  shows "\<exists>r. row_of (w_events w1) (ev_ID e) = Some r"
proof -
  note eq = getQueueEntries_eq [OF assms(2)]
  obtain r where r: "r \<in> set (cl_openEvents (claim_clusters gc now p (w_events w)))" "e = claim_entry now r"
    using assms(3) by (auto simp: eq(2))
  then have "r \<in> set (w_events w)" using claim_clusters_mem(1) [OF claim_clusters_mem(3)] by blast
  then show ?thesis using row_claimed_table [OF assms(1)] r(2) by (simp add: eq(1))
qed

subsection \<open>Every claimed entry is settled\<close>

text \<open>The state before the final \<open>persistEventStatus\<close> of an isolated iteration.\<close>

lemma isolated_before_persist:
  assumes "commitOnEventLevel (new_processor t ty sub cfg)"
    and "getQueueEntriesAndSetToInProgress gc t1 (w, new_processor t ty sub cfg) = ((w1, p1), rs)"
    and "handleExceededEvents pf (h_hook h) t2 (w1, preprocess pf h rs p1) = Some s2"
    and "processChunk pf h t2 s2 = (w3, p3)"
  shows "own_ok (p_statusMap p3) \<and> p_queueEntries p3 = rs \<and> ev_ID ` set rs \<subseteq> fst ` set (p_selectedEventMap p3)
    \<and> p_outdatedEventMap p3 = []
    \<and> (\<forall>i r. row_of (w_events w1) i = Some r \<longrightarrow> (\<exists>r3. row_of (w_events w3) i = Some r3
         \<and> (i \<in> fst ` set (p_commitedStatusMap p3) \<longrightarrow> final_row r3 \<or> ev_ID ` set rs \<subseteq> fst ` set (p_statusMap p3))))"
proof -
  note fresh = claim_fresh [OF assms(2)]
  let ?pp = "preprocess pf h rs p1"
  have pre: "own_ok (p_statusMap ?pp)" "p_commitedStatusMap ?pp = []" "frame ?pp = frame p1"
    using preprocess_own [of p1 pf h rs] fresh by (simp_all add: frame_simps)
  obtain w2 p2 where s2: "s2 = (w2, p2)" by fastforce
  have ex: "keeps_final False (w1, ?pp) (w2, p2)" "frame p2 = frame ?pp" "own_ok (p_statusMap p2)"
    using handleExceeded_steps [of pf "h_hook h" t2 "(w1, ?pp)"] assms(3) pre(1) s2 by (auto simp: exceeded_step_def)
  have level: "commitOnEventLevel p2"
    using ex(2) pre(3) fresh assms(1) by (simp add: frame_def commitOnEventLevel_def)
  note ch = isolated_chunk [OF level ex(3) assms(4) [unfolded s2]]
  have fr: "frame p3 = frame p1" using ch ex(2) pre(3) by simp
  then have q: "p_queueEntries p3 = rs" "p_selectedEventMap p3 = p_selectedEventMap p1" "p_outdatedEventMap p3 = []"
    "p_queueEntries p2 = rs"
    using fresh ex(2) pre(3) by (simp_all add: frame_def)
  have "\<exists>r3. row_of (w_events w3) i = Some r3
      \<and> (i \<in> fst ` set (p_commitedStatusMap p3) \<longrightarrow> final_row r3 \<or> ev_ID ` set rs \<subseteq> fst ` set (p_statusMap p3))"
    if row: "row_of (w_events w1) i = Some r" for i r
  proof -
    consider "keeps_final False (w1, ?pp) (w3, p3)"
      | "keeps_final True (w1, ?pp) (w3, p3)" "ev_ID ` set rs \<subseteq> fst ` set (p_statusMap p3)"
      using ch keeps_final_trans [OF ex(1)] q(4) by fastforce
    then show ?thesis using row pre(2) unfolding keeps_final_def by cases fastforce+
  qed
  then show ?thesis using ch q fresh by simp
qed

text \<open>The rows of an iteration are final.\<close>

lemma isolated_iteration_final:
  assumes "table_ok (w_events w)" "commitOnEventLevel (new_processor t ty sub cfg)"
    and "getQueueEntriesAndSetToInProgress gc t1 (w, new_processor t ty sub cfg) = (s1, rs)"
    and "iteration gc pf h (t1, t2, t3) (w, new_processor t ty sub cfg) = ((w', p'), threw)"
  shows "\<not> threw \<and> (\<forall>e\<in>set rs. \<exists>r. row_of (w_events w') (ev_ID e) = Some r \<and> ev_status r \<in> {Open, Done, Error, Exceeded})"
proof -
  obtain w1 p1 where s1: "s1 = (w1, p1)" by fastforce
  note cl = assms(3) [unfolded s1]
  obtain s2 where s2: "handleExceededEvents pf (h_hook h) t2 (w1, preprocess pf h rs p1) = Some s2"
    using handleExceeded_steps by blast
  obtain w3 p3 where s3: "processChunk pf h t2 s2 = (w3, p3)" by fastforce
  note bp = isolated_before_persist [OF assms(2) cl s2 s3]
  then have bpq: "p_queueEntries p3 = rs" "ev_ID ` set rs \<subseteq> fst ` set (p_selectedEventMap p3)" "p_outdatedEventMap p3 = []"
    by blast+
  obtain m where m: "checked_map OwnMap p3 = Some m"
    "\<forall>i\<in>ev_ID ` set (p_queueEntries p3). i \<in> fst ` set (p_selectedEventMap p3) \<longrightarrow>
       i \<in> fst ` set m \<or> (i \<notin> fst ` set (p_statusMap p3) \<and>
         (i \<in> fst ` set (p_commitedStatusMap p3) \<or> i \<in> fst ` set (p_outdatedEventMap p3)))"
    using checked_own [OF conjunct1 [OF bp]] by (elim exE conjE)
  obtain w4 p4 where s4: "persistEventStatus pf t2 OwnMap (w3, p3) = Some (w4, p4)"
    using persist_exists [OF m(1)] by (metis surj_pair)
  have it: "w' = w4" "\<not> threw" using assms(4) by (simp_all add: iteration_def cl s2 s3 s4)
  have "\<exists>r. row_of (w_events w4) (ev_ID e) = Some r \<and> final_row r" if e: "e \<in> set rs" for e
  proof -
    obtain r where "row_of (w_events w1) (ev_ID e) = Some r" using claimed_rows_exist [OF assms(1) cl e] by blast
    then obtain r3 where r3: "row_of (w_events w3) (ev_ID e) = Some r3"
      "ev_ID e \<in> fst ` set (p_commitedStatusMap p3) \<longrightarrow> final_row r3 \<or> ev_ID ` set rs \<subseteq> fst ` set (p_statusMap p3)"
      using bp by blast
    have e': "ev_ID e \<in> ev_ID ` set rs" using e by simp
    then have "ev_ID e \<in> fst ` set m \<or> ev_ID e \<notin> fst ` set (p_statusMap p3) \<and> ev_ID e \<in> fst ` set (p_commitedStatusMap p3)"
      using m(2) [rule_format, of "ev_ID e"] bpq subsetD [OF bpq(2) e'] by simp
    then have "ev_ID e \<in> fst ` set m \<or> final_row r3" using r3(2) e' by blast
    moreover have "distinct (obj_keys (mode_map OwnMap p3))" using bp by (simp add: own_ok_def)
    ultimately show ?thesis using persist_final [OF s4 m(1) _ r3(1)] by blast
  qed
  then show ?thesis using it by (simp add: final_row_def)
qed



subsection \<open>The loop ends\<close>

lemma frame_isolated [frame_simps]: "frame (snd (fst (processIsolated pf h now c s))) = frame (snd s)"
proof -
  obtain key rs payload w p where cs: "c = (key, rs, payload)" "s = (w, p)" by (metis surj_pair)
  obtain b' p1 m where pe: "processEvent pf h key rs payload (w_biz w, p) = (b', p1, m)" by (metis surj_pair)
  have fr: "frame p1 = frame p" using frame_processEvent [of pf h key rs payload "(w_biz w, p)"] pe by simp
  have per: "frame p2 = frame p" if "persistEventStatus pf now (Given m) (v, p1) = Some (w2, p2)" for v w2 p2
    using frame_persist [OF that] fr by simp
  show ?thesis
    by (auto simp: processIsolated_def cs pe fr dest: per split: option.splits prod.splits)
qed

lemma frame_all_isolated [frame_simps]: "frame (snd (fst (processAllIsolated pf h now cs s))) = frame (snd s)"
proof (induction cs arbitrary: s)
  case (Cons c cs)
  obtain s1 e1 where s1: "processIsolated pf h now c s = (s1, e1)" by fastforce
  obtain s2 e2 where s2: "processAllIsolated pf h now cs s1 = (s2, e2)" by fastforce
  show ?case using Cons [of s1] frame_isolated [of pf h now c s] by (simp add: s1 s2)
qed simp

lemma frame_all_shared [frame_simps]: "frame (snd (processAllShared pf h cs s)) = frame (snd s)"
proof (induction cs arbitrary: s)
  case (Cons c cs)
  obtain key rs payload where c: "c = (key, rs, payload)" by (metis surj_pair)
  obtain b' p1 m where pe: "processEvent pf h key rs payload s = (b', p1, m)" by (metis surj_pair)
  show ?case using Cons [of "(b', p1)"] frame_processEvent [of pf h key rs payload s] by (simp add: c pe)
qed simp

lemma frame_eventMap [frame_simps]:
  assumes "processEventMap pf h now (w, p) = Inr (b, w', p')"
  shows "frame p' = frame p"
proof -
  obtain s1 e1 where i: "processAllIsolated pf h now (p_eventProcessingMap p) (w, p) = (s1, e1)" by fastforce
  obtain b0 where b0: "h_before h p (w_biz w) = Inr b0"
    using assms by (auto simp: processEventMap_def split: sum.splits)
  obtain b1 p1 where s: "processAllShared pf h (p_eventProcessingMap p) (b0, p) = (b1, p1)" by fastforce
  have "frame (snd s1) = frame p" "frame p1 = frame p"
    using frame_all_isolated [of pf h now "p_eventProcessingMap p" "(w, p)"]
      frame_all_shared [of pf h "p_eventProcessingMap p" "(b0, p)"] i s by simp_all
  then show ?thesis
    using assms i s b0 by (auto simp: processEventMap_def frame_simps split: if_splits prod.splits)
qed

lemma frame_processChunk [frame_simps]: "frame (snd (processChunk pf h now (w, p))) = frame p"
proof -
  obtain pc err where pc: "cluster_entries h p = (pc, err)" by fastforce
  have fr: "frame pc = frame p" using frame_cluster [of h p] pc by simp
  show ?thesis
  proof (cases err)
    case None
    show ?thesis
    proof (cases "processEventMap pf h now (w, pc)")
      case (Inr r)
      obtain b w1 p1 where r: "r = (b, w1, p1)" by (metis surj_pair)
      have "frame p1 = frame p" using frame_eventMap [OF Inr [unfolded r]] fr by simp
      then show ?thesis by (simp add: processChunk_def pc None Inr r)
    qed (simp add: processChunk_def pc None fr frame_simps)
  qed (simp add: processChunk_def pc fr frame_simps)
qed

lemma iteration_startTime:
  assumes "iteration gc pf h ts (w, new_processor t ty sub cfg) = ((w', p'), threw)"
  shows "ec_startTime (p_cfg p') = ec_startTime cfg"
proof -
  obtain t1 t2 t3 where ts: "ts = (t1, t2, t3)" by (metis surj_pair)
  obtain w1 p1 rs where cl: "getQueueEntriesAndSetToInProgress gc t1 (w, new_processor t ty sub cfg) = ((w1, p1), rs)"
    by (metis surj_pair)
  let ?s1 = "(w1, preprocess pf h rs p1)"
  obtain w2 p2 where s2: "handleExceededEvents pf (h_hook h) t2 ?s1 = Some (w2, p2)" "frame p2 = frame (preprocess pf h rs p1)"
    using handleExceeded_steps [of pf "h_hook h" t2 ?s1] by (auto simp: exceeded_step_def)
  obtain w3 p3 where s3: "processChunk pf h t2 (w2, p2) = (w3, p3)" by fastforce
  have fr: "frame p3 = frame p1" using frame_processChunk [of pf h t2 w2 p2] s2(2) s3 by (simp add: frame_simps)
  have "frame p' = frame p1"
  proof (cases "persistEventStatus pf t2 OwnMap (w3, p3)")
    case None
    then show ?thesis using assms fr by (simp add: iteration_def ts cl s2(1) s3)
  next
    case (Some s4)
    then show ?thesis using assms fr frame_persist [OF Some] by (simp add: iteration_def ts cl s2(1) s3)
  qed
  then show ?thesis using claim_fresh [OF cl] by (simp add: frame_def)
qed

text \<open>
  C16. The processing loop ends: as soon as one reading of the clock at the end of an iteration is past
  the start of the run plus the run interval, no further iteration starts.  With enough fuel for the
  iterations up to there the loop has a result, whatever the handler does and however much work is left.
\<close>

theorem processing_loop_terminates:
  assumes "ec_startTime cfg + runInterval gc \<le> snd (snd (clk (n + k)))"
  shows "processing_loop gc pf h t ty sub clk (Suc k) n (w, cfg) \<noteq> None"
  using assms
proof (induction k arbitrary: n w cfg)
  case (0 n w cfg)
  obtain w1 p1 e where it: "iteration gc pf h (clk n) (w, new_processor t ty sub cfg) = ((w1, p1), e)" by (metis surj_pair)
  show ?case using 0 iteration_startTime [OF it]
    by (cases e) (auto simp: it reevaluateShouldContinue_def)
next
  case (Suc k n w cfg)
  obtain w1 p1 e where it: "iteration gc pf h (clk n) (w, new_processor t ty sub cfg) = ((w1, p1), e)" by (metis surj_pair)
  obtain w2 go where re: "reevaluateShouldContinue gc (snd (snd (clk n))) (w1, p1) = (w2, go)" by fastforce
  show ?case
  proof (cases "e \<or> \<not> go")
    case True
    then show ?thesis by (cases e; cases go) (simp_all add: it re)
  next
    case False
    have "processing_loop gc pf h t ty sub clk (Suc k) (Suc n) (w2, p_cfg p1) \<noteq> None"
      using Suc.prems iteration_startTime [OF it] by (intro Suc.IH) simp
    then show ?thesis using False by (simp only: processing_loop.simps(2) it re fst_conv snd_conv prod.case) simp
  qed
qed


subsection \<open>Transactions\<close>

lemma persist_status_from_map:
  assumes ps: "persistEventStatus pf now (Given g) (w, p) = Some (w', p')" and dk: "distinct (obj_keys g)"
    and nm: "normalizeStatusMap g = Some nm" and r: "row_of (w_events w) i = Some r"
  shows "\<exists>r'. row_of (w_events w') i = Some r' \<and> (r' = r \<or> (\<exists>j d. (j, d) \<in> set nm \<and> js_prop d ''status'' = JNum (ev_status r')))"
proof -
  obtain m where m: "checked_map (Given g) p = Some m" using persist_checked [OF ps] by blast
  have dk': "distinct (obj_keys (mode_map (Given g) p))" using dk by simp
  show ?thesis
  proof (cases "obj_get m i")
    case None
    then show ?thesis using persist_row(1) [OF ps m dk' r None] by blast
  next
    case (Some d)
    obtain j d' where j: "(j, d') \<in> set m" "row_of (w_events w') i = Some (set_columns now
        (prepare_update (pf_parseDate pf) (ec_retry (p_cfg p)) now d') r)" using persist_row(2) [OF ps m dk' r Some] by blast
    have "status_allowed d'" using checked_map_facts(2) [OF m dk' j(1)] by simp
    then obtain n where n: "js_prop d' ''status'' = JNum n" by (auto simp: status_allowed_def)
    have "(j, d') \<in> set nm"
      using j(1) m nm by (auto simp: checked_map_def Let_def ensureEveryStatusIsAllowed_def ensureOnlySelectedQueueEntries_def)
    then show ?thesis using j(2) n written_status [OF n] by auto
  qed
qed

lemma error_map_contains_error:
  assumes "rs \<noteq> []" "handleErrorDuringProcessing err rs p = (p1, m)"
  shows "statusMapContainsError m = Some True"
proof -
  let ?v = "JObj [(''status'', JNum Error), (''error'', err)]"
  have m: "m = obj_from (map (\<lambda>r. (ev_ID r, ?v)) rs)" using assms(2) by (simp add: handleErrorDuringProcessing_def)
  have all: "v = ?v" if "(i, v) \<in> set m" for i v
  proof -
    have "(i, v) \<in> set (map (\<lambda>r. (ev_ID r, ?v)) rs)" using obj_from_mem that unfolding m by fast
    then show ?thesis by auto
  qed
  have ne: "m \<noteq> []"
  proof
    assume "m = []"
    then have "fst ` set (map (\<lambda>r. (ev_ID r, ?v)) rs) = {}" using keys_obj_from [of "map (\<lambda>r. (ev_ID r, ?v)) rs"] m by simp
    then show False using assms(1) by simp
  qed
  have norm: "\<forall>e\<in>set g. snd e = ?v \<Longrightarrow>
      normalizeStatusMap g = Some (map (\<lambda>(i, v). (i, pick_fields ALLOWED_FIELDS_FOR_UPDATE [(''status'', JNum Error), (''error'', err)])) g)" for g
    by (induction g) (auto simp: split_beta)
  have "\<forall>e\<in>set m. snd e = ?v" using all by auto
  then show ?thesis
    using norm [of m] ne by (cases m) (simp_all add: split_beta statusMapContainsError_def pick_fields_def ALLOWED_FIELDS_FOR_UPDATE_def)
qed


lemma isolated_outcome:
  assumes "processIsolated pf h now (key, rs, payload) (w, p) = ((w', p'), failed)"
    and "processEvent pf h key rs payload (w_biz w, p) = (b', p1, m)"
  shows "(failed \<longrightarrow> w_events w' = w_events w \<and> w_biz w' = w_biz w)
    \<and> (\<not> failed \<longrightarrow> (\<exists>nm b. normalizeStatusMap m = Some nm \<and> persistEventStatus pf now (Given m) (w\<lparr>w_biz := b\<rparr>, p1) = Some (w', p')
        \<and> w_biz w' = b \<and> (b = w_biz w \<or> b = b' \<and> statusMapContainsError m = Some False \<and> \<not> shouldRollbackTransaction key p1)))"
proof (cases "statusMapContainsError m")
  case None
  then show ?thesis using assms by (simp add: processIsolated_def)
next
  case (Some hasError)
  then obtain nm where nm: "normalizeStatusMap m = Some nm" by (auto simp: statusMapContainsError_def)
  define b where "b = (if hasError \<or> shouldRollbackTransaction key p1 then w_biz w else b')"
  show ?thesis
  proof (cases "persistEventStatus pf now (Given m) (w\<lparr>w_biz := b\<rparr>, p1)")
    case None
    then show ?thesis using assms Some by (auto simp: processIsolated_def b_def split: if_splits)
  next
    case s2: (Some s2)
    obtain w2 p2 where s2': "s2 = (w2, p2)" by fastforce
    have "w_biz w2 = b" using persist_rows(2) [OF s2 [unfolded s2']] persist_checked [OF s2] by auto
    then show ?thesis using assms Some s2 s2' nm by (auto simp: processIsolated_def b_def split: if_splits)
  qed
qed



subsection \<open>The lock around a run\<close>

text \<open>The lock service as a processor uses it.\<close>

lemma acquire_lock_facts:
  assumes "cf_redisEnabled cf \<longrightarrow> redis_laws rd" "\<not> ec_multiInstanceProcessing (p_cfg p)"
  shows "snd (acquireDistributedLock rd cf t (p, ls)) \<longleftrightarrow> \<not> held_full rd cf t (keepAliveMaxMs p) (processing_key cf p) ls"
    and "acquireDistributedLock rd cf t0 (p, ls) = ((p1, ls1), True) \<Longrightarrow> t0 \<le> t \<Longrightarrow>
      held_full rd cf t (keepAliveMaxMs p) (processing_key cf p) ls1 \<longleftrightarrow> t < t0 + keepAliveMaxMs p"
    and "acquireDistributedLock rd cf t0 (p, ls) = ((p1, ls1), True) \<Longrightarrow> p1 = p\<lparr>p_lockAcquired := True\<rparr>"
    and "p_lockAcquired p \<Longrightarrow> \<not> held_full rd cf t (keepAliveMaxMs p) (processing_key cf p) (handleReleaseLock rd cf t' p ls)"
proof -
  have ls: "lock_service (\<lambda>now k ttl. acquire_full rd cf now (p_tenant p) k ttl None False True)
    (\<lambda>now k s. fst (release_full rd cf now k s)) (held_full rd cf)" by (rule full_lock_service [OF assms(1)])
  show "snd (acquireDistributedLock rd cf t (p, ls)) \<longleftrightarrow> \<not> held_full rd cf t (keepAliveMaxMs p) (processing_key cf p) ls"
    using lock_service.acquire_iff [OF ls] assms(2) by (simp add: acquireDistributedLock_def acquireLock_def split_beta)
  {
    assume a: "acquireDistributedLock rd cf t0 (p, ls) = ((p1, ls1), True)"
    show "p1 = p\<lparr>p_lockAcquired := True\<rparr>"
      using a assms(2) by (auto simp: acquireDistributedLock_def acquireLock_def split: prod.splits if_splits)
    have acq: "snd (acquire_full rd cf t0 (p_tenant p) (processing_key cf p) (keepAliveMaxMs p) None False True ls)"
      "ls1 = fst (acquire_full rd cf t0 (p_tenant p) (processing_key cf p) (keepAliveMaxMs p) None False True ls)"
      using a assms(2) by (auto simp: acquireDistributedLock_def acquireLock_def split: prod.splits if_splits)
    assume "t0 \<le> t"
    then show "held_full rd cf t (keepAliveMaxMs p) (processing_key cf p) ls1 \<longleftrightarrow> t < t0 + keepAliveMaxMs p"
      using lock_service.acquire_held [OF ls acq(1)] by (simp add: acq(2))
  }
  show "p_lockAcquired p \<Longrightarrow> \<not> held_full rd cf t (keepAliveMaxMs p) (processing_key cf p) (handleReleaseLock rd cf t' p ls)"
    using lock_service.release_same [OF ls] by (simp add: handleReleaseLock_def releaseLock_def)
qed


text \<open>
  C18. A run gives its lock back: after a run that acquired the lock, whatever happened in it, the next
  acquisition of the same lock succeeds at any time.
\<close>

theorem run_releases_its_lock:
  assumes "cf_redisEnabled cf \<longrightarrow> redis_laws (ru_rd ru)" "getEventConfig ty sub ns cf = Some e"
    and "p = new_processor t ty sub (event_cfg_of e)" "\<not> ec_multiInstanceProcessing (p_cfg p)"
    and "snd (acquireDistributedLock (ru_rd ru) cf (ru_start ru) (p, ls))"
    and "processEventQueue ru cf fuel t ty sub ns (w, ls) = Some (w', ls')"
  shows "ls' = ls \<and> w' = w \<or> snd (acquireDistributedLock (ru_rd ru) cf t' (p, ls'))"
proof -
  note lock = acquire_lock_facts [OF assms(1,4)]
  obtain p1 ls1 where acq: "acquireDistributedLock (ru_rd ru) cf (ru_start ru) (p, ls) = ((p1, ls1), True)"
    using assms(5) by (metis prod.collapse)
  have p1: "p1 = p\<lparr>p_lockAcquired := True\<rparr>" using lock(3) [OF acq] .
  have cases: "ls' = ls \<and> w' = w \<or> ls' = handleReleaseLock (ru_rd ru) cf (ru_end ru) p1 ls1"
    using assms(2,3,6) acq by (auto simp: processEventQueue_def Let_def split: option.splits if_splits)
  have "\<not> held_full (ru_rd ru) cf t' (keepAliveMaxMs p1) (processing_key cf p1) (handleReleaseLock (ru_rd ru) cf (ru_end ru) p1 ls1)"
    using acquire_lock_facts(4) [OF assms(1), of p1] assms(4) by (simp add: p1)
  then show ?thesis using cases lock(1) [of t' ls'] by (auto simp: p1 keepAliveMaxMs_def)
qed


subsection \<open>Witnesses\<close>

text \<open>A handler that counts: every entry is a cluster of its own, each adds one to the business data and
  reports the entry as done; the transaction of the clusters in \<open>bad\<close> fails to commit.\<close>

definition demo_handler :: "string list \<Rightarrow> nat handler" where
  "demo_handler bad = \<lparr>h_check = (\<lambda>r. Inr (JObj [])),
     h_cluster = (\<lambda>m. (map (\<lambda>(k, r, payload). (k, r, payload)) m, None)),
     h_before = (\<lambda>p b. Inr b),
     h_process = (\<lambda>key rs payload b. (b + 1, False, [], Inr (JArr (map (\<lambda>r. report (ev_ID r) Done) rs)))),
     h_hook = (\<lambda>r b. Inr b), h_periodic = (\<lambda>r b. (b, False, Inr ())),
     h_commitFails = (\<lambda>key b. key \<in> set bad)\<rparr>"

definition demo_iteration :: "string list \<Rightarrow> (nat world \<times> processor) \<times> bool" where
  "demo_iteration bad = iteration demo_gc demo_pf (demo_handler bad) (1000100, 1000200, 1000300) (demo_world, demo_proc)"

text \<open>
  One failing transaction undoes the record of the others: with two entries in a chunk, each in its
  own transaction, where the first is committed (business data and all) and the commit of the second
  fails, both entries end in error, so the first one is processed again.
\<close>

theorem failed_commit_resets_committed_entries:
  "w_biz (fst (fst (demo_iteration [''b'']))) = w_biz demo_world + 1
   \<and> map ev_status (take 2 (w_events (fst (fst (demo_iteration [''b'']))))) = [Error, Error]
   \<and> map ev_status (take 2 (w_events (fst (fst (demo_iteration []))))) = [Done, Done]"
proof -
  let ?out = "\<lambda>s. (w_biz (fst (fst s)), map ev_status (take 2 (w_events (fst (fst s)))))"
  have "?out (demo_iteration [''b'']) = (w_biz demo_world + 1, [Error, Error])" "?out (demo_iteration []) = (w_biz demo_world + 1 + 1, [Done, Done])"
    by code_simp+
  then show ?thesis by simp
qed


theorem processing_loop_terminates_witness:
  "processing_loop demo_gc demo_pf (demo_handler []) (Some ''t1'') ''T'' ''S'' (\<lambda>n. (1000100, 1000200, 1000000 + int n * 1000000)) 3 0
     (demo_world, demo_cfg) \<noteq> None"
proof -
  have h: "ec_startTime demo_cfg + runInterval demo_gc \<le> snd (snd (1000100 :: int, 1000200 :: int, 1000000 + int (0 + 2) * 1000000))"
    by code_simp
  show ?thesis
    using processing_loop_terminates [of demo_cfg demo_gc "\<lambda>n. (1000100, 1000200, 1000000 + int n * 1000000)" 0 2] h
    by (simp add: numeral_3_eq_3 del: processing_loop.simps)
qed

definition demo_cluster :: "(nat world \<times> processor) \<times> bool" where
  "demo_cluster = processIsolated demo_pf (demo_handler []) 1000200 (''a'', [claim_entry 1000100 (demo_row ''a'' Open 0)], JObj []) (fst demo_claim)"


text \<open>An environment with one configured event.\<close>

definition demo_event :: event_obj where
  "demo_event = [(''type'', JStr ''T''), (''subType'', JStr ''S''), (''impl'', JStr ''./handler''),
     (''namespace'', JStr ''default''), (''keepAliveInterval'', JNum 60), (''keepAliveMaxInProgressTime'', JNum 2100)]"

definition demo_run_cfg :: config where
  "demo_run_cfg = demo_config\<lparr>cf_redisEnabled := True, cf_eventMap := [(''default##T##S'', demo_event)]\<rparr>"

definition demo_run :: "time \<Rightarrow> (nat, redis_store) run_env" where
  "demo_run t = \<lparr>ru_gc = demo_gc, ru_pf = demo_pf,
     ru_pe = \<lparr>pe_cronNext = (\<lambda>e s. s + 1), pe_random = (\<lambda>x. 0), pe_uuid = (\<lambda>n. ''u'')\<rparr>,
     ru_ce = demo_ce, ru_rd = demo_redis, ru_require = (\<lambda>e. Some (demo_handler [])), ru_isEventBlockedCb = None,
     ru_start = t, ru_clock = (\<lambda>n. (t + 100, t + 200, t + 300 + int n * 1000000)), ru_end = t + 400\<rparr>"

definition demo_run_proc :: processor where
  "demo_run_proc = new_processor (Some ''t1'') ''T'' ''S'' (event_cfg_of demo_event)"

definition demo_run_lock :: "(processor \<times> redis_store locks) \<times> bool" where
  "demo_run_lock = acquireDistributedLock demo_redis demo_run_cfg 0 (demo_run_proc, demo_locks)"

definition demo_run_result :: "(nat world \<times> redis_store locks) option" where
  "demo_run_result = processEventQueue (demo_run 5) demo_run_cfg 3 (Some ''t1'') ''T'' ''S'' ''default'' (demo_world, demo_locks)"


theorem run_releases_its_lock_witness:
  "snd (acquireDistributedLock demo_redis demo_run_cfg 900 (demo_run_proc, snd (the demo_run_result)))
   \<and> w_biz (fst (the demo_run_result)) = 8"
proof -
  have h: "getEventConfig ''T'' ''S'' ''default'' demo_run_cfg = Some demo_event"
    "\<not> ec_multiInstanceProcessing (p_cfg demo_run_proc)" by code_simp+
  have rd: "ru_rd (demo_run 5) = demo_redis" by (simp add: demo_run_def)
  have a: "snd (acquireDistributedLock (ru_rd (demo_run 5)) demo_run_cfg (ru_start (demo_run 5)) (demo_run_proc, demo_locks))"
    by code_simp
  have res: "demo_run_result \<noteq> None" "w_biz (fst (the demo_run_result)) = 8" "w_biz demo_world = 7" by code_simp+
  then have "processEventQueue (demo_run 5) demo_run_cfg 3 (Some ''t1'') ''T'' ''S'' ''default'' (demo_world, demo_locks)
      = Some (fst (the demo_run_result), snd (the demo_run_result))" by (auto simp: demo_run_result_def)
  from run_releases_its_lock [OF _ h(1) demo_run_proc_def h(2) a this, of 900] show ?thesis
    using demo_redis_laws res by (auto simp: rd)
qed

end
