(* ===== verification/PeriodicRun.thy ===== *)
theory PeriodicRun
  imports ProcessEventQueue
begin

text \<open>
  The run of a periodic event (\<open>processPeriodicEvent\<close> of \<open>src/processEventQueue.js\<close>): rounds that claim the
  entry, insert its successor, call the handler and write the status, as long as the successor is already due.

  Proved: whatever the handler does in any round, the chain of a periodic event does not break and does
  not branch: the run leaves exactly one entry that is not finished, the open successor; and the rounds
  come to an end when they are, on average, shorter than the interval.
\<close>

text \<open>The entries of the combination that are waiting or running.\<close>

definition active :: "processor \<Rightarrow> event_row \<Rightarrow> bool" where
  "active p r \<longleftrightarrow> ev_type r = p_type p \<and> ev_subType r = p_subType p \<and> ev_namespace r = ec_namespace (p_cfg p)
     \<and> (ev_status r = Open \<or> ev_status r = InProgress)"

text \<open>What a round needs of the processor.\<close>

definition periodic_ready :: "global_cfg \<Rightarrow> processor \<Rightarrow> bool" where
  "periodic_ready gc p \<longleftrightarrow> ec_isPeriodic (p_cfg p) \<and> 0 < p_retryAttempts p \<and> 0 < p_selectMaxChunkSize p
     \<and> ec_selectedDelayedEventIds (p_cfg p) = [] \<and> 0 \<le> runInterval gc"

text \<open>An entry that has not been tried yet and is due.\<close>

definition due_now :: "processor \<Rightarrow> time \<Rightarrow> event_row \<Rightarrow> bool" where
  "due_now p now r \<longleftrightarrow> ev_status r = Open \<and> ev_attempts r = 0 \<and> ev_lastAttemptTimestamp r = None \<and> or_default (ev_startAfter r) 0 \<le> now \<and> 0 \<le> now"

text \<open>What is kept of the processor by a round.\<close>

definition same_run :: "processor \<Rightarrow> processor \<Rightarrow> bool" where
  "same_run p p' \<longleftrightarrow> p_cfg p' = p_cfg p \<and> p_type p' = p_type p \<and> p_subType p' = p_subType p \<and> p_retryAttempts p' = p_retryAttempts p
     \<and> p_selectMaxChunkSize p' = p_selectMaxChunkSize p"

lemma same_run_active: "same_run p p' \<Longrightarrow> active p' = active p"
  by (simp add: same_run_def active_def fun_eq_iff)

lemma same_run_ready: "same_run p p' \<Longrightarrow> periodic_ready gc p \<Longrightarrow> periodic_ready gc p'"
  by (simp add: same_run_def periodic_ready_def)

lemma same_run_trans: "same_run p q \<Longrightarrow> same_run q r \<Longrightarrow> same_run p r"
  by (simp add: same_run_def)

lemma filter_single: "filter P xs = [x] \<Longrightarrow> y \<in> set xs \<Longrightarrow> P y \<Longrightarrow> y = x"
  by (metis (mono_tags, lifting) empty_iff empty_set insert_iff list.simps(15) mem_Collect_eq set_filter)

lemma filter_weaker: "(\<And>x. Q x \<Longrightarrow> P x) \<Longrightarrow> filter P xs = [x] \<Longrightarrow> Q x \<Longrightarrow> filter Q xs = [x]"
proof -
  assume "\<And>x. Q x \<Longrightarrow> P x" "filter P xs = [x]" "Q x"
  moreover have "filter Q (filter P xs) = filter Q xs" using \<open>\<And>x. Q x \<Longrightarrow> P x\<close> by (auto intro: filter_cong)
  ultimately show ?thesis by (metis filter.simps)
qed

text \<open>A round claims exactly the one active entry that is due.\<close>

lemma periodic_claim:
  assumes "filter (active p) (w_events w) = [r]" "periodic_ready gc p" "due_now p now r"
    and "getQueueEntriesAndSetToInProgress gc now (w, p) = ((w1, p1), rs)"
  shows "rs = [claim_entry now r]" "w_events w1 = update_where (id_in [ev_ID r]) (claim_row now) (w_events w)"
    "w_biz w1 = w_biz w" "same_run p p1"
proof -
  have act: "active p r" using assms(1) by (metis (mono_tags, lifting) list.set_intros(1) mem_Collect_eq set_filter)
  have "0 \<le> now" "0 \<le> runInterval gc" using assms(2,3) by (simp_all add: due_now_def periodic_ready_def)
  then have ref: "now \<le> refDateStartAfter gc now" by (simp add: refDateStartAfter_def)
  have sel: "selectable gc p now r"
    using act assms(2,3) ref
    by (cases "ev_startAfter r")
      (auto simp: selectable_def active_def due_now_def status_selectable_def periodic_ready_def)
  have "filter (selectable gc p now) (w_events w) = [r]"
    by (rule filter_weaker [where P = "active p" and Q = "selectable gc p now", OF _ assms(1) sel])
      (use assms(2) in \<open>auto simp: selectable_def active_def status_selectable_def periodic_ready_def\<close>)
  then have s: "select_ordered (selectable gc p now) (p_selectMaxChunkSize p) (w_events w) = [r]"
    using assms(2) by (simp add: select_ordered_def periodic_ready_def Suc_le_eq)
  have nd: "\<not> isDelayedEvent (refDateDelayed gc (refDateStartAfter gc now)) r"
    using assms(2,3) not_delayed_now [of now gc]
    by (auto simp: isDelayedEvent_def due_now_def periodic_ready_def split: option.splits)
  have c: "claim_clusters gc now p (w_events w) = \<lparr>cl_exceededTries = [], cl_openEvents = [r], cl_exceededTriesExceeded = [], cl_delayedEvents = []\<rparr>"
    using assms(2,3) nd by (simp add: claim_clusters_def s clusterEvents_def cluster_step_def due_now_def periodic_ready_def TRIES_FOR_EXCEEDED_EVENTS_def)
  show "rs = [claim_entry now r]" "w_events w1 = update_where (id_in [ev_ID r]) (claim_row now) (w_events w)" "w_biz w1 = w_biz w"
    using getQueueEntries_eq [OF assms(4)] by (simp_all add: c claimed_table_def events_for_processing_def update_where_none)
  show "same_run p p1"
    using assms(4) by (auto simp: getQueueEntriesAndSetToInProgress_def s c events_for_processing_def handleDelayedEvents_def
        set_in_progress_def same_run_def Let_def split: if_splits)
qed

text \<open>The state after a round in which the entry \<open>r\<close> was claimed at \<open>now\<close>.\<close>

definition successor_start :: "global_cfg \<Rightarrow> periodic_env \<Rightarrow> processor \<Rightarrow> time \<Rightarrow> event_row \<Rightarrow> time" where
  "successor_start gc pe p now r =
     shiftedStartAfter (p_cfg p) now (plannedStartAfter gc (pe_cronNext pe) (pe_random pe) (p_cfg p) now r)"

definition successor :: "global_cfg \<Rightarrow> periodic_env \<Rightarrow> nat \<Rightarrow> processor \<Rightarrow> time \<Rightarrow> event_row \<Rightarrow> event_row" where
  "successor gc pe n p now r =
     new_row (pe_uuid pe n) now (p_type p) (p_subType p) (ec_namespace (p_cfg p)) (Some (successor_start gc pe p now r))"

lemma claim_entry_startAfter [simp]: "ev_startAfter (claim_entry now r) = ev_startAfter r"
  by (simp add: claim_entry_def)

lemma schedule_next_events:
  assumes "scheduleNextPeriodEvent gc (pe_cronNext pe) (pe_random pe) (pe_uuid pe n) now r (w, p) = ((w', p'), again)"
  shows "w_events w' = w_events w @ [successor gc pe n p now r]" "w_biz w' = w_biz w" "p' = p"
    "again \<longleftrightarrow> 10 * intervalInMs (p_cfg p) < 15 * runInterval gc \<and> successor_start gc pe p now r \<le> now"
  using assms
  by (auto simp: scheduleNextPeriodEvent_def Let_def successor_def successor_start_def handleDelayedEvents_def handleDelayedEvent_def
      calculateOffset_def split: if_splits)

lemma prepare_round:
  assumes "filter (active p) (w_events w) = [r]" "periodic_ready gc p" "due_now p now r"
    and "periodic_prepare gc pe n now prev (w, p) = ((w1, p1), e, again)"
  shows "e = Some (claim_entry now r)" "same_run p p1" "w_biz w1 = w_biz w"
    "w_events w1 = update_where (id_in [ev_ID r]) (claim_row now) (w_events w) @ [successor gc pe n p now r]"
    "again \<longleftrightarrow> 10 * intervalInMs (p_cfg p) < 15 * runInterval gc \<and> successor_start gc pe p now r \<le> now"
proof -
  obtain w0 p0 rs where claim: "getQueueEntriesAndSetToInProgress gc now (w, p) = ((w0, p0), rs)" by (metis surj_pair)
  note c = periodic_claim [OF assms(1-3) claim]
  have nx: "scheduleNextPeriodEvent gc (pe_cronNext pe) (pe_random pe) (pe_uuid pe n) now (claim_entry now r) (w0, p0) = ((w1, p1), again)"
    and e: "e = Some (claim_entry now r)"
    using assms(4) by (auto simp: periodic_prepare_def claim c(1) Let_def split: prod.splits)
  have succ: "successor_start gc pe p0 now (claim_entry now r) = successor_start gc pe p now r"
    "successor gc pe n p0 now (claim_entry now r) = successor gc pe n p now r" "p_cfg p0 = p_cfg p"
    using c(4) by (simp_all add: successor_def successor_start_def plannedStartAfter_def same_run_def cong: option.case_cong)
  show "e = Some (claim_entry now r)" by (rule e)
  show "same_run p p1" "w_biz w1 = w_biz w"
    "w_events w1 = update_where (id_in [ev_ID r]) (claim_row now) (w_events w) @ [successor gc pe n p now r]"
    "again \<longleftrightarrow> 10 * intervalInMs (p_cfg p) < 15 * runInterval gc \<and> successor_start gc pe p now r \<le> now"
    using schedule_next_events [OF nx] c(2-4) by (simp_all add: succ)
qed

text \<open>The handler's round: the entry gets its final status and nothing else in the table changes; the business
  data changes only when the handler returned.\<close>

definition finished_row :: "jsval \<Rightarrow> int \<Rightarrow> event_row \<Rightarrow> event_row" where
  "finished_row err st r = set_error_column err (r\<lparr>ev_status := st\<rparr>)"

lemma finished_row_simps [simp]:
  "ev_ID (finished_row err st r) = ev_ID r" "ev_status (finished_row err st r) = st"
  by (simp_all add: finished_row_def set_error_column_def)

lemma process_round:
  assumes "periodic_process h r (w, p) = (w', p')"
  shows "\<exists>st err. st \<in> {Done, Error} \<and> w_events w' = update_where (id_in [ev_ID r]) (finished_row err st) (w_events w)
           \<and> (w_biz w' = w_biz w \<or> st = Done \<and> w_biz w' = fst (h_periodic h r (w_biz w)))"
    and "same_run p p'"
proof -
  obtain b rb res where hp: "h_periodic h r (w_biz w) = (b, rb, res)" by (metis surj_pair)
  note defs = periodic_process_def setPeriodicEventStatus_def finished_row_def [abs_def] Let_def hp
  let ?goal = "\<lambda>st err. w_events w' = update_where (id_in [ev_ID r]) (finished_row err st) (w_events w)
           \<and> (w_biz w' = w_biz w \<or> st = Done \<and> w_biz w' = b)"
  have "?goal Done JUndef \<or> (\<exists>err. ?goal Error err)"
  proof (cases res)
    case (Inl err)
    then have "?goal Error err" using assms by (auto simp: defs)
    then show ?thesis by blast
  next
    case (Inr u)
    then have "?goal Done JUndef" using assms by (auto simp: defs split: if_splits)
    then show ?thesis by blast
  qed
  then show "\<exists>st err. st \<in> {Done, Error} \<and> w_events w' = update_where (id_in [ev_ID r]) (finished_row err st) (w_events w)
           \<and> (w_biz w' = w_biz w \<or> st = Done \<and> w_biz w' = fst (h_periodic h r (w_biz w)))"
    unfolding hp fst_conv by blast
  show "same_run p p'" using assms by (cases res) (auto simp: defs setShouldRollbackTransaction_def same_run_def)
qed

lemma round_state:
  assumes "filter (active p) (w_events w) = [r]" "periodic_ready gc p" "due_now p now r" "pe_uuid pe n \<noteq> ev_ID r"
    and "periodic_prepare gc pe n now prev (w, p) = ((w1, p1), Some e, again)" "periodic_process h e (w1, p1) = (w2, p2)"
  shows "filter (active p) (w_events w2) = [successor gc pe n p now r]"
    and "i \<noteq> ev_ID r \<Longrightarrow> i \<noteq> pe_uuid pe n \<Longrightarrow> row_of (w_events w2) i = row_of (w_events w) i"
    and "\<exists>x. row_of (w_events w2) (ev_ID r) = Some x \<and> ev_status x \<in> {Done, Error}"
    and "ev_ID ` set (w_events w2) = insert (pe_uuid pe n) (ev_ID ` set (w_events w))"
proof -
  let ?s = "successor gc pe n p now r" and ?rows = "w_events w"
  note prep = prepare_round [OF assms(1-3,5)]
  have e: "ev_ID e = ev_ID r" using prep(1) by simp
  have s: "ev_ID ?s = pe_uuid pe n" "active p ?s" by (simp_all add: successor_def new_row_def active_def)
  obtain st err where st: "st \<in> {Done, Error}"
    and w2: "w_events w2 = update_where (id_in [ev_ID r]) (finished_row err st) (w_events w1)"
    using process_round(1) [OF assms(6)] unfolding e by blast
  have rows: "w_events w2 = map (\<lambda>x. if ev_ID x = ev_ID r then finished_row err st (claim_row now x) else x) ?rows @ [?s]"
    using assms(4) s(1) by (simp add: w2 prep(4) update_where_def id_in_def)
  have "\<not> active p (finished_row err st x)" for x using st by (auto simp: active_def status_defs)
  moreover have "x = r" if "x \<in> set ?rows" "active p x" for x using filter_single [OF assms(1) that] .
  ultimately show "filter (active p) (w_events w2) = [?s]" using s(2) by (auto simp: rows filter_empty_conv)
  have r: "r \<in> set ?rows" using assms(1) by (metis (mono_tags, lifting) list.set_intros(1) mem_Collect_eq set_filter)
  have rowmap: "row_of (map (\<lambda>x. if ev_ID x = k then finished_row err st (claim_row now x) else x) rs) i
      = map_option (\<lambda>x. if i = k then finished_row err st (claim_row now x) else x) (row_of rs i)" for k rs i
    by (induction rs) (auto simp: row_of_def)
  show "row_of (w_events w2) i = row_of ?rows i" if "i \<noteq> ev_ID r" "i \<noteq> pe_uuid pe n"
    using that s(1) by (cases "row_of ?rows i") (auto simp: rows row_of_append rowmap row_of_def [of "[?s]"])
  have "row_of ?rows (ev_ID r) \<noteq> None" using r by (auto simp: row_of_def find_None_iff)
  then show "\<exists>x. row_of (w_events w2) (ev_ID r) = Some x \<and> ev_status x \<in> {Done, Error}"
    using st by (auto simp: rows row_of_append rowmap)
  have "map ev_ID (w_events w2) = map ev_ID ?rows @ [pe_uuid pe n]" by (simp add: rows s(1))
  then have "set (map ev_ID (w_events w2)) = set (map ev_ID ?rows @ [pe_uuid pe n])" by simp
  then show "ev_ID ` set (w_events w2) = insert (pe_uuid pe n) (ev_ID ` set ?rows)" by simp
qed

text \<open>The successor is due in the next round exactly when there is one.\<close>

lemma successor_due:
  "again \<longleftrightarrow> c \<and> successor_start gc pe p now r \<le> now \<Longrightarrow> again \<Longrightarrow> now \<le> now' \<Longrightarrow> 0 \<le> now' \<Longrightarrow> due_now p now' (successor gc pe n p now r)"
  by (simp add: due_now_def successor_def new_row_def)

text \<open>One round of the loop: an equation, and what is known of the state after it.\<close>

definition round_to ::
  "global_cfg \<Rightarrow> periodic_env \<Rightarrow> 'b handler \<Rightarrow> (nat \<Rightarrow> time) \<Rightarrow> nat \<Rightarrow> event_row option \<Rightarrow> event_row \<Rightarrow> 'b world \<times> processor \<Rightarrow> bool \<Rightarrow> 'b world \<times> processor \<Rightarrow> bool" where
  "round_to gc pe h clk n prev r s again s2 \<longleftrightarrow>
     (\<forall>fuel. processPeriodicEvent gc pe h clk (Suc fuel) n prev s
        = (if again then processPeriodicEvent gc pe h clk fuel (Suc n) (Some (claim_entry (clk n) r)) s2 else Some s2))
     \<and> same_run (snd s) (snd s2) \<and> filter (active (snd s2)) (w_events (fst s2)) = [successor gc pe n (snd s) (clk n) r]
     \<and> (again \<longleftrightarrow> 10 * intervalInMs (p_cfg (snd s)) < 15 * runInterval gc \<and> successor_start gc pe (snd s) (clk n) r \<le> clk n)
     \<and> (again \<longrightarrow> due_now (snd s2) (clk (Suc n)) (successor gc pe n (snd s) (clk n) r))
     \<and> (\<forall>m\<ge>Suc n. pe_uuid pe m \<notin> ev_ID ` set (w_events (fst s2)))
     \<and> ev_ID ` set (w_events (fst s2)) = insert (pe_uuid pe n) (ev_ID ` set (w_events (fst s)))
     \<and> (\<forall>i\<in>ev_ID ` set (w_events (fst s)). i \<noteq> ev_ID r \<longrightarrow> row_of (w_events (fst s2)) i = row_of (w_events (fst s)) i)
     \<and> (\<exists>x. row_of (w_events (fst s2)) (ev_ID r) = Some x \<and> ev_status x \<in> {Done, Error})"

lemma periodic_round:
  assumes "filter (active p) (w_events w) = [r]" "periodic_ready gc p" "due_now p (clk n) r" "mono clk"
    and "inj (pe_uuid pe)" "\<And>m. n \<le> m \<Longrightarrow> pe_uuid pe m \<notin> ev_ID ` set (w_events w)"
  obtains w2 p2 again where "round_to gc pe h clk n prev r (w, p) again (w2, p2)"
proof -
  obtain w1 p1 e again where prep: "periodic_prepare gc pe n (clk n) prev (w, p) = ((w1, p1), e, again)" by (metis surj_pair)
  note pr = prepare_round [OF assms(1-3) prep]
  obtain w2 p2 where proc: "periodic_process h (claim_entry (clk n) r) (w1, p1) = (w2, p2)" by (metis surj_pair)
  have "r \<in> set (w_events w)" using assms(1) by (metis (mono_tags, lifting) list.set_intros(1) mem_Collect_eq set_filter)
  then have ne: "pe_uuid pe n \<noteq> ev_ID r" using assms(6) by force
  note st = round_state [OF assms(1-3) ne prep [unfolded pr(1)] proc]
  have same: "same_run p p2" using pr(2) process_round(2) [OF proc] same_run_trans by blast
  have clk: "clk n \<le> clk (Suc n)" "0 \<le> clk n" using assms(3,4) by (auto simp: mono_def due_now_def)
  have new: "pe_uuid pe n \<notin> ev_ID ` set (w_events w)" using assms(6) by simp
  have "due_now p2 (clk (Suc n)) (successor gc pe n p (clk n) r)" if again
    using successor_due [OF pr(5) that, of "clk (Suc n)"] clk by (simp add: due_now_def)
  moreover have "pe_uuid pe m \<notin> ev_ID ` set (w_events w2)" if "Suc n \<le> m" for m
    using that assms(6) [of m] injD [OF assms(5), of m n] by (auto simp: st(4))
  moreover have "row_of (w_events w2) i = row_of (w_events w) i" if "i \<in> ev_ID ` set (w_events w)" "i \<noteq> ev_ID r" for i
    using that new by (intro st(2)) metis+
  moreover have "filter (active p2) (w_events w2) = [successor gc pe n p (clk n) r]" using st(1) same_run_active [OF same] by simp
  moreover have "processPeriodicEvent gc pe h clk (Suc fuel) n prev (w, p)
      = (if again then processPeriodicEvent gc pe h clk fuel (Suc n) (Some (claim_entry (clk n) r)) (w2, p2) else Some (w2, p2))" for fuel
    by (simp add: prep pr(1) proc)
  ultimately have "round_to gc pe h clk n prev r (w, p) again (w2, p2)"
    unfolding round_to_def fst_conv snd_conv using same pr(5) st(3,4) by blast
  then show thesis by (rule that)
qed

declare processPeriodicEvent.simps(2) [simp del]

lemma periodic_loop:
  assumes "processPeriodicEvent gc pe h clk fuel n prev (w, p) = Some (w', p')"
    and "filter (active p) (w_events w) = [r]" "periodic_ready gc p" "due_now p (clk n) r"
    and "inj (pe_uuid pe)" "\<And>m. n \<le> m \<Longrightarrow> pe_uuid pe m \<notin> ev_ID ` set (w_events w)" "mono clk"
  shows "(\<exists>r' t. filter (active p) (w_events w') = [r'] \<and> ev_status r' = Open \<and> ev_attempts r' = 0 \<and> ev_startAfter r' = Some t
        \<and> ev_ID r' \<notin> ev_ID ` set (w_events w))
    \<and> (\<exists>x. row_of (w_events w') (ev_ID r) = Some x \<and> ev_status x \<in> {Done, Error})
    \<and> (\<forall>i. i \<in> ev_ID ` set (w_events w) \<longrightarrow> i \<noteq> ev_ID r \<longrightarrow> row_of (w_events w') i = row_of (w_events w) i)"
  using assms(1-4,6)
proof (induction fuel arbitrary: n prev w p r)
  case (Suc fuel)
  obtain w2 p2 again where round: "round_to gc pe h clk n prev r (w, p) again (w2, p2)"
    by (rule periodic_round [OF Suc.prems(2-4) assms(7,5) Suc.prems(5), of h prev])
  note facts = round [unfolded round_to_def fst_conv snd_conv]
  have eq: "processPeriodicEvent gc pe h clk (Suc k) n prev (w, p)
      = (if again then processPeriodicEvent gc pe h clk k (Suc n) (Some (claim_entry (clk n) r)) (w2, p2) else Some (w2, p2))" for k
    using facts by blast
  have same: "same_run p p2" and act: "filter (active p2) (w_events w2) = [successor gc pe n p (clk n) r]"
    and duen: "again \<Longrightarrow> due_now p2 (clk (Suc n)) (successor gc pe n p (clk n) r)"
    and fresh: "\<And>m. Suc n \<le> m \<Longrightarrow> pe_uuid pe m \<notin> ev_ID ` set (w_events w2)" using facts by blast+
  let ?s = "successor gc pe n p (clk n) r"
  have s: "ev_ID ?s = pe_uuid pe n" "ev_status ?s = Open" "ev_attempts ?s = 0" "\<exists>t. ev_startAfter ?s = Some t"
    by (simp_all add: successor_def new_row_def)
  have new: "pe_uuid pe n \<notin> ev_ID ` set (w_events w)" using Suc.prems(5) by simp
  have r: "r \<in> set (w_events w)" using Suc.prems(2) by (metis (mono_tags, lifting) list.set_intros(1) mem_Collect_eq set_filter)
  have ids: "ev_ID ` set (w_events w2) = insert (pe_uuid pe n) (ev_ID ` set (w_events w))"
    and others: "\<And>i. i \<in> ev_ID ` set (w_events w) \<Longrightarrow> i \<noteq> ev_ID r \<Longrightarrow> row_of (w_events w2) i = row_of (w_events w) i"
    and fin: "\<exists>x. row_of (w_events w2) (ev_ID r) = Some x \<and> ev_status x \<in> {Done, Error}" using facts by blast+
  show ?case
  proof (cases again)
    case False
    then have "w' = w2" using Suc.prems(1) eq by simp
    then show ?thesis using act [unfolded same_run_active [OF same]] fin others s new by simp
  next
    case True
    have run: "processPeriodicEvent gc pe h clk fuel (Suc n) (Some (claim_entry (clk n) r)) (w2, p2) = Some (w', p')"
      using Suc.prems(1) eq True by simp
    note IH = Suc.IH [OF run act same_run_ready [OF same Suc.prems(3)] duen [OF True] fresh, unfolded same_run_active [OF same] s(1) ids]
    have "row_of (w_events w') i = row_of (w_events w2) i" if "i \<in> ev_ID ` set (w_events w)" for i
      using IH new that by (metis insert_iff)
    then show ?thesis using IH fin others r by auto
  qed
qed simp

lemma successor_start_interval:
  assumes "ec_cron (p_cfg p) = None" "0 < ec_interval (p_cfg p)" "\<And>x. 0 \<le> pe_random pe x"
  shows "now < successor_start gc pe p now r \<or> or_default (ev_startAfter r) 0 + ec_interval (p_cfg p) * 1000 \<le> successor_start gc pe p now r"
proof -
  have "0 \<le> calculateRandomOffset gc (pe_random pe) (p_cfg p)"
    using assms(3) by (simp add: calculateRandomOffset_def Let_def split: option.splits)
  then show ?thesis using assms(1,2)
    by (auto simp: successor_start_def shiftedStartAfter_def plannedStartAfter_def intervalInMs_def calculateOffset_def Let_def)
qed

lemma periodic_loop_bound:
  assumes "ec_cron (p_cfg p) = None" "0 < ec_interval (p_cfg p)" "\<And>x. 0 \<le> pe_random pe x"
    and "filter (active p) (w_events w) = [r]" "periodic_ready gc p" "due_now p (clk n) r"
    and "inj (pe_uuid pe)" "\<And>m. n \<le> m \<Longrightarrow> pe_uuid pe m \<notin> ev_ID ` set (w_events w)" "mono clk"
    and "\<And>m. clk m \<le> late + int m * (ec_interval (p_cfg p) * 1000 - 1)"
    and "due + int n * (ec_interval (p_cfg p) * 1000) \<le> or_default (ev_startAfter r) 0"
    and "late - due < int n + int fuel" "0 < fuel"
  shows "processPeriodicEvent gc pe h clk fuel n prev (w, p) \<noteq> None"
  using assms(1-6,8,10-13)
proof (induction fuel arbitrary: n prev w p r)
  case (Suc fuel)
  let ?i = "ec_interval (p_cfg p) * 1000"
  obtain w2 p2 again where round: "round_to gc pe h clk n prev r (w, p) again (w2, p2)"
    by (rule periodic_round [OF Suc.prems(4-6) assms(9,7) Suc.prems(7), of h prev])
  note facts = round [unfolded round_to_def fst_conv snd_conv]
  have eq: "processPeriodicEvent gc pe h clk (Suc k) n prev (w, p)
      = (if again then processPeriodicEvent gc pe h clk k (Suc n) (Some (claim_entry (clk n) r)) (w2, p2) else Some (w2, p2))" for k
    using facts by blast
  have same: "same_run p p2" and act: "filter (active p2) (w_events w2) = [successor gc pe n p (clk n) r]"
    and duen: "again \<Longrightarrow> due_now p2 (clk (Suc n)) (successor gc pe n p (clk n) r)"
    and fresh: "\<And>m. Suc n \<le> m \<Longrightarrow> pe_uuid pe m \<notin> ev_ID ` set (w_events w2)" using facts by blast+
  show ?case
  proof (cases again)
    case True
    then have start: "due + int (Suc n) * ?i \<le> successor_start gc pe p (clk n) r" "successor_start gc pe p (clk n) r \<le> clk n"
      using facts successor_start_interval [OF Suc.prems(1-3), of "clk n" gc r] Suc.prems(9) by (auto simp: algebra_simps)
    have "due + int (Suc n) * ?i \<le> late + int n * (?i - 1)" using start Suc.prems(8) [of n] by linarith
    then have "int n + ?i \<le> late - due" by (simp add: algebra_simps)
    with Suc.prems(2,10) have fuel: "0 < fuel" by linarith
    have cfg: "p_cfg p2 = p_cfg p" using same by (simp add: same_run_def)
    have "processPeriodicEvent gc pe h clk fuel (Suc n) (Some (claim_entry (clk n) r)) (w2, p2) \<noteq> None"
      by (rule Suc.IH [OF _ _ Suc.prems(3) act same_run_ready [OF same Suc.prems(5)] duen [OF True] fresh])
        (use Suc.prems(1,2,8,10) start fuel in \<open>auto simp: cfg successor_def new_row_def algebra_simps\<close>)
    then show ?thesis using True eq by simp
  qed (simp add: eq)
qed simp

subsection \<open>Properties\<close>


text \<open>
  C12. The rounds of a periodic event end: for an interval event whose rounds take, on average, less than the
  interval, as many rounds as the first one is late in milliseconds, and one more, are enough, whatever
  the handler does.  (Each round moves the start date one interval ahead or, when that is too late, into the
  future.)
\<close>

theorem periodic_rounds_end:
  assumes "ec_cron (p_cfg p) = None" "0 < ec_interval (p_cfg p)" "\<And>x. 0 \<le> pe_random pe x"
    and "filter (active p) (w_events w) = [r]" "periodic_ready gc p" "due_now p (clk 0) r"
    and "inj (pe_uuid pe)" "\<And>m. pe_uuid pe m \<notin> ev_ID ` set (w_events w)" "mono clk"
    and "\<And>m. clk m \<le> clk 0 + int m * (ec_interval (p_cfg p) * 1000 - 1)"
    and "clk 0 - or_default (ev_startAfter r) 0 < int fuel"
  shows "processPeriodicEvent gc pe h clk fuel 0 None (w, p) \<noteq> None"
proof -
  have "0 < fuel" using assms(6,11) by (auto simp: due_now_def)
  then show ?thesis
    by (intro periodic_loop_bound [OF assms(1-7) assms(8) assms(9), where late = "clk 0" and due = "or_default (ev_startAfter r) 0"])
      (use assms(10,11) in auto)
qed

subsection \<open>Witnesses\<close>

text \<open>The entry is ten seconds more than one interval late: two rounds.\<close>

definition demo_periodic :: processor where
  "demo_periodic = new_processor (Some ''t1'') ''T'' ''S'' (demo_cfg\<lparr>ec_isPeriodic := True\<rparr>)"

definition demo_periodic_row :: event_row where
  "demo_periodic_row = (demo_row ''a'' Open 0)\<lparr>ev_startAfter := Some 930000\<rparr>"

definition demo_periodic_world :: "nat world" where
  "demo_periodic_world = demo_world\<lparr>w_events := [demo_periodic_row, demo_row ''b'' Done 1]\<rparr>"

definition demo_periodic_env :: periodic_env where
  "demo_periodic_env = \<lparr>pe_cronNext = (\<lambda>e t. t + 1), pe_random = (\<lambda>x. 0), pe_uuid = (\<lambda>n. ''u'' @ replicate n CHR ''1'')\<rparr>"

lemma demo_periodic_facts:
  "filter (active demo_periodic) (w_events demo_periodic_world) = [demo_periodic_row]" "periodic_ready demo_gc demo_periodic"
  "due_now demo_periodic 1000000 demo_periodic_row" "ec_cron (p_cfg demo_periodic) = None" "0 < ec_interval (p_cfg demo_periodic)"
  "ec_interval (p_cfg demo_periodic) = 60" "or_default (ev_startAfter demo_periodic_row) 0 = 930000"
  by code_simp+

lemma demo_periodic_ids:
  "inj (pe_uuid demo_periodic_env)" "pe_uuid demo_periodic_env m \<notin> ev_ID ` set (w_events demo_periodic_world)" "0 \<le> pe_random demo_periodic_env x"
  by (auto simp: demo_periodic_env_def inj_def demo_periodic_world_def demo_periodic_row_def demo_row_def new_row_def
      dest: arg_cong [of _ _ length])

definition demo_periodic_run :: "nat \<Rightarrow> (nat world \<times> processor) option" where
  "demo_periodic_run fuel = processPeriodicEvent demo_gc demo_periodic_env (demo_handler []) (\<lambda>n. 1000000) fuel 0 None (demo_periodic_world, demo_periodic)"

lemma demo_periodic_runs: "demo_periodic_run 70001 \<noteq> None"
  unfolding demo_periodic_run_def
  by (rule periodic_loop_bound [OF demo_periodic_facts(4,5) demo_periodic_ids(3) demo_periodic_facts(1,2,3) demo_periodic_ids(1,2),
        where late = 1000000 and due = 930000]) (simp_all add: mono_def demo_periodic_facts)


theorem periodic_rounds_end_witness:
  "processPeriodicEvent demo_gc demo_periodic_env (demo_handler []) (\<lambda>n. 1000000) 70001 0 None (demo_periodic_world, demo_periodic) \<noteq> None"
  by (rule periodic_rounds_end [OF demo_periodic_facts(4,5) demo_periodic_ids(3) demo_periodic_facts(1,2,3) demo_periodic_ids(1,2)])
    (simp_all add: mono_def demo_periodic_facts)

end
