(* ===== verification/Common.thy ===== *)
theory Common
  imports LazyCache ProcessorBase Config
begin

text \<open>
  \<open>src/shared/common.js\<close>: bounded concurrency (\<open>limiter\<close>), waiting for all promises, chunking, date
  checks, the tenant filters and the cached authentication context.  \<open>arrayToFlatMap\<close> is with the
  processor base class, its first user; \<open>cleanUndefined\<close> is the function of the same name in
  \<open>config.js\<close>.

  Promises settle in an order the program does not control: \<open>limiter\<close> is a transition system whose
  steps are the iterations of its loop and the settling of a running call.

  Proved: never more than the limit run at once; whatever the order in which calls settle and
  whichever fail, every payload is processed exactly once and the result lists the values in payload
  order or reports the failures; chunking partitions its input.
\<close>

subsection \<open>Waiting for all\<close>

datatype rejection = Reason jsval | MultiError "jsval list"

definition promiseAllDone :: "(jsval + 'v) list \<Rightarrow> rejection + 'v list" where
  "promiseAllDone results =
     (let rejects = map projl (filter isl results) in
      case rejects of
        [r] \<Rightarrow> Inl (Reason r)
      | r # r' # rs \<Rightarrow> Inl (MultiError rejects)
      | [] \<Rightarrow> Inr (map projr results))"

subsection \<open>Bounded concurrency\<close>

text \<open>Calls are numbered by the position of their payload.  \<open>lm_race\<close>: the loop awaits
  \<open>Promise.race\<close>.\<close>

record 'v limiter =
  lm_limit :: int
  lm_total :: nat
  lm_next :: nat
  lm_running :: "nat list"
  lm_race :: bool
  lm_settled :: "(nat \<times> (jsval + 'v)) list"

definition new_limiter :: "int \<Rightarrow> nat \<Rightarrow> 'v limiter" where
  "new_limiter limit n =
     \<lparr>lm_limit = limit, lm_total = n, lm_next = 0, lm_running = [], lm_race = False, lm_settled = []\<rparr>"

text \<open>One iteration of the \<open>for\<close> loop: the call is started, then awaited when the limit is reached.\<close>

definition limiter_next :: "'v limiter \<Rightarrow> 'v limiter" where
  "limiter_next s =
     (let running = lm_running s @ [lm_next s] in
      s\<lparr>lm_next := Suc (lm_next s), lm_running := running,
        lm_race := (lm_limit s \<le> int (lm_total s) \<and> lm_limit s \<le> int (length running))\<rparr>)"

text \<open>A running call settles; that ends the race.\<close>

definition limiter_settle :: "nat \<Rightarrow> jsval + 'v \<Rightarrow> 'v limiter \<Rightarrow> 'v limiter" where
  "limiter_settle i res s =
     s\<lparr>lm_running := removeAll i (lm_running s), lm_race := False, lm_settled := lm_settled s @ [(i, res)]\<rparr>"

inductive limiter_step :: "'v limiter \<Rightarrow> 'v limiter \<Rightarrow> bool" where
  next_payload: "\<not> lm_race s \<Longrightarrow> lm_next s < lm_total s \<Longrightarrow> limiter_step s (limiter_next s)"
| settles: "i \<in> set (lm_running s) \<Longrightarrow> limiter_step s (limiter_settle i res s)"

abbreviation limiter_steps :: "'v limiter \<Rightarrow> 'v limiter \<Rightarrow> bool" where
  "limiter_steps \<equiv> limiter_step\<^sup>*\<^sup>*"

definition limiter_done :: "'v limiter \<Rightarrow> bool" where
  "limiter_done s \<longleftrightarrow> lm_next s = lm_total s \<and> lm_running s = []"

definition limiter_result :: "'v limiter \<Rightarrow> rejection + 'v list" where
  "limiter_result s = promiseAllDone (map (\<lambda>i. case map_of (lm_settled s) i of Some r \<Rightarrow> r | None \<Rightarrow> Inl JUndef) [0..<lm_total s])"

subsection \<open>Chunks\<close>

text \<open>The handler calls are collected; \<open>None\<close> would be an endless loop.\<close>

partial_function (option) chunks_from :: "nat \<Rightarrow> 'a list \<Rightarrow> nat \<Rightarrow> 'a list list option" where
  "chunks_from chunkSize inputs start =
     (if start < length inputs
      then let e = (if start + chunkSize > length inputs then length inputs else start + chunkSize)
           in Option.bind (chunks_from chunkSize inputs e) (\<lambda>cs. Some (take (e - start) (drop start inputs) # cs))
      else Some [])"

definition processChunkedSync :: "'a list \<Rightarrow> nat \<Rightarrow> 'a list list option" where
  "processChunkedSync inputs chunkSize = chunks_from chunkSize inputs 0"

subsection \<open>Dates and filters\<close>

text \<open>\<open>parse\<close> is \<open>Date.parse\<close>; a \<open>Date\<close> value of the model is never invalid.\<close>

definition isValidDate :: "(string \<Rightarrow> time option) \<Rightarrow> jsval \<Rightarrow> bool" where
  "isValidDate parse v = (case v of JStr s \<Rightarrow> parse s \<noteq> None | JDate t \<Rightarrow> True | _ \<Rightarrow> False)"

datatype tenantIdCheckType = GetAuthContext | EventProcessing | OtherCheck

text \<open>The callbacks an application may configure; they may throw.\<close>

type_synonym tenant_filter = "(tenant \<Rightarrow> jsval + jsval) option"

definition isTenantIdValidCb :: "tenant_filter \<Rightarrow> tenant_filter \<Rightarrow> tenantIdCheckType \<Rightarrow> tenant \<Rightarrow> bool" where
  "isTenantIdValidCb authFilter processingFilter checkType t =
     (let cb = (case checkType of
                  GetAuthContext \<Rightarrow> authFilter
                | EventProcessing \<Rightarrow> processingFilter
                | OtherCheck \<Rightarrow> Some (\<lambda>_. Inr (JBool True)))
      in case cb of
           None \<Rightarrow> True
         | Some f \<Rightarrow> (case f t of Inl err \<Rightarrow> True | Inr v \<Rightarrow> truthy v))"

subsection \<open>Authentication context\<close>

definition EXPIRE_TIME_TENANT_404 :: int where "EXPIRE_TIME_TENANT_404 = 10 * 60 * 1000"

text \<open>What the token service answers: the time until the token expires and the context, or an error
  with a response code.\<close>

datatype 'a token_answer = Token int 'a | TokenError jsval int

type_synonym 'a auth_result = "(jsval option \<times> 'a option) option"

definition getNewAuthContext :: "'a token_answer \<Rightarrow> expiry \<times> 'a auth_result" where
  "getNewAuthContext ans =
     (case ans of
        Token ms info \<Rightarrow> (Until ms, Some (None, Some info))
      | TokenError err code \<Rightarrow>
          if code = 404 then (Until EXPIRE_TIME_TENANT_404, Some (Some err, None)) else (Until 0, None))"

text \<open>The settings \<open>getAuthContext\<close> looks at: credentials, \<open>auth.kind\<close> being a token kind, \<open>xsuaa\<close>.\<close>

record auth_env =
  au_credentials :: bool
  au_tokenKind :: bool
  au_xsuaa :: bool

text \<open>With \<open>returnError\<close> the pair of error and context is returned, otherwise the context or \<open>null\<close>.
  The request to the token service is answered before the next step; between two requests the
  cache is as \<open>LazyCache\<close> describes it.\<close>

definition getAuthContext ::
  "auth_env \<Rightarrow> config \<Rightarrow> tenant_filter \<Rightarrow> (string \<Rightarrow> 'a token_answer) \<Rightarrow> time \<Rightarrow> string \<Rightarrow> bool
     \<Rightarrow> 'a auth_result expiring_cache \<Rightarrow> 'a auth_result expiring_cache \<times> ('a auth_result + 'a option)" where
  "getAuthContext env cf authFilter fetch now t returnError cache =
     (if \<not> isTenantIdValidCb authFilter None GetAuthContext (Some t) then (cache, Inr None)
      else if \<not> au_credentials env then (cache, Inr None)
      else if \<not> cf_isMultiTenancy cf then (cache, Inr None)
      else if \<not> au_tokenKind env \<and> \<not> au_xsuaa env then (cache, Inr None)
      else (case getNewAuthContext (fetch t) of
              (e, v) \<Rightarrow>
                (case ex_getSetCb (Key t) (Returned e v) now cache of
                   (cache', res, called) \<Rightarrow>
                     let result = (case res of Some (Plain x) \<Rightarrow> x | _ \<Rightarrow> None)
                     in (cache', if returnError then Inl result
                                 else Inr (case result of None \<Rightarrow> None | Some (err, ctx) \<Rightarrow> ctx)))))"


subsection \<open>Lemmas\<close>

definition limiter_inv :: "int \<Rightarrow> nat \<Rightarrow> 'v limiter \<Rightarrow> bool" where
  "limiter_inv limit n s \<longleftrightarrow>
     lm_limit s = limit \<and> lm_total s = n \<and> lm_next s \<le> n
     \<and> distinct (lm_running s @ map fst (lm_settled s))
     \<and> set (lm_running s @ map fst (lm_settled s)) = {0..<lm_next s}
     \<and> (lm_race s \<longrightarrow> lm_running s \<noteq> [])
     \<and> (limit \<le> int n \<longrightarrow> int (length (lm_running s)) \<le> max 1 limit
          \<and> (\<not> lm_race s \<longrightarrow> int (length (lm_running s)) < max 1 limit))"

lemma limiter_inv_new: "limiter_inv limit n (new_limiter limit n)"
  by (auto simp: limiter_inv_def new_limiter_def)

lemma limiter_inv_step:
  assumes "limiter_step s s'" "limiter_inv limit n s"
  shows "limiter_inv limit n s'"
  using assms
proof cases
  case next_payload
  have fresh: "lm_next s \<notin> set (lm_running s @ map fst (lm_settled s))" using assms(2) by (simp add: limiter_inv_def)
  have "{0..<Suc (lm_next s)} = insert (lm_next s) {0..<lm_next s}" by auto
  then show ?thesis using assms(2) next_payload fresh by (auto simp: limiter_inv_def limiter_next_def Let_def)
next
  case (settles i res)
  have d: "distinct (lm_running s)" using assms(2) by (simp add: limiter_inv_def)
  have len: "Suc (length (removeAll i (lm_running s))) = length (lm_running s)"
    using distinct_remove1_removeAll [OF d, of i] settles(2) by (metis length_remove1 One_nat_def Suc_pred length_pos_if_in_set)
  have "int (length (removeAll i (lm_running s))) < max 1 limit" if "limit \<le> int n"
    using that assms(2) len by (auto simp: limiter_inv_def)
  then show ?thesis using assms(2) settles d
    by (auto simp: limiter_inv_def limiter_settle_def distinct_removeAll)
qed

lemma limiter_inv_reachable: "limiter_steps (new_limiter limit n) s \<Longrightarrow> limiter_inv limit n s"
  by (induction rule: rtranclp_induct) (auto intro: limiter_inv_new limiter_inv_step)

lemma promiseAllDone_values: "promiseAllDone (map Inr vs) = Inr vs"
  by (simp add: promiseAllDone_def comp_def)

lemma promiseAllDone_Inr: "promiseAllDone rs = Inr vs \<longleftrightarrow> rs = map Inr vs"
proof
  assume "promiseAllDone rs = Inr vs"
  then have none: "filter isl rs = []" and vs: "vs = map projr rs"
    by (auto simp: promiseAllDone_def Let_def split: list.splits)
  from none have "\<forall>r\<in>set rs. \<not> isl r" by (simp add: filter_empty_conv)
  then show "rs = map Inr vs" unfolding vs by (simp add: map_idI)
qed (simp add: promiseAllDone_values)

subsection \<open>Concurrency\<close>

text \<open>
  C39. At no time do more calls run at once than the limit says (one, if the limit is not positive),
  and none is started beyond the payloads.
\<close>

theorem limiter_bounds_concurrency:
  assumes "limiter_steps (new_limiter limit n) s"
  shows "int (length (lm_running s)) \<le> max 1 limit \<and> length (lm_running s) + length (lm_settled s) \<le> n"
proof -
  note inv = limiter_inv_reachable [OF assms, unfolded limiter_inv_def]
  have "length (lm_running s @ map fst (lm_settled s)) = card (set (lm_running s @ map fst (lm_settled s)))"
    using inv by (intro distinct_card [symmetric]) blast
  also have "\<dots> = lm_next s" using inv by (metis card_atLeastLessThan diff_zero)
  finally have len: "length (lm_running s) + length (lm_settled s) = lm_next s" by simp
  moreover have "int (length (lm_running s)) \<le> max 1 limit" using inv len by (cases "limit \<le> int n") auto
  ultimately show ?thesis using inv by simp
qed

text \<open>
  The limiter never gets stuck, needs at most two steps per payload, and failing calls do not keep
  others from running: it can always go on until every payload was processed exactly once; then it
  yields the values in the order of the payloads if and only if all calls succeeded.
\<close>

theorem limiter_processes_every_payload:
  assumes "limiter_steps (new_limiter limit n) s"
  shows "(limiter_done s \<or> (\<exists>s'. limiter_step s s'))
    \<and> (\<forall>s'. limiter_step s s' \<longrightarrow> lm_next s' + length (lm_settled s') = Suc (lm_next s + length (lm_settled s)))
    \<and> lm_next s + length (lm_settled s) \<le> 2 * n
    \<and> (limiter_done s \<longrightarrow> distinct (map fst (lm_settled s)) \<and> set (map fst (lm_settled s)) = {0..<n}
         \<and> (limiter_result s = Inr vs \<longleftrightarrow>
              length vs = n \<and> (\<forall>i<n. map_of (lm_settled s) i = Some (Inr (vs ! i)))))"
proof (intro conjI)
  note inv = limiter_inv_reachable [OF assms, unfolded limiter_inv_def]
  show "limiter_done s \<or> (\<exists>s'. limiter_step s s')"
  proof (cases "lm_running s = []")
    case True
    then show ?thesis using inv next_payload [of s] by (fastforce simp: limiter_done_def)
  next
    case False
    then obtain i where "i \<in> set (lm_running s)" by (meson last_in_set)
    then show ?thesis using settles by blast
  qed
  show "\<forall>s'. limiter_step s s' \<longrightarrow> lm_next s' + length (lm_settled s') = Suc (lm_next s + length (lm_settled s))"
    by (auto elim!: limiter_step.cases simp: limiter_next_def limiter_settle_def Let_def)
  have "length (map fst (lm_settled s)) = card (set (map fst (lm_settled s)))"
    using inv by (intro distinct_card [symmetric]) simp
  also have "\<dots> \<le> card {0..<n}"
  proof (rule card_mono)
    have "set (map fst (lm_settled s)) \<subseteq> {0..<lm_next s}" using inv by (metis Un_upper2 set_append)
    then show "set (map fst (lm_settled s)) \<subseteq> {0..<n}" using inv by fastforce
  qed simp
  finally show "lm_next s + length (lm_settled s) \<le> 2 * n" using inv by simp
  show "limiter_done s \<longrightarrow> distinct (map fst (lm_settled s)) \<and> set (map fst (lm_settled s)) = {0..<n}
      \<and> (limiter_result s = Inr vs \<longleftrightarrow> length vs = n \<and> (\<forall>i<n. map_of (lm_settled s) i = Some (Inr (vs ! i))))"
  proof
    assume d: "limiter_done s"
    then have keys: "distinct (map fst (lm_settled s))" "set (map fst (lm_settled s)) = {0..<n}" and n: "lm_total s = n"
      using inv by (auto simp: limiter_done_def)
    define f where "f i = (case map_of (lm_settled s) i of Some r \<Rightarrow> r | None \<Rightarrow> Inl JUndef)" for i
    have f: "map_of (lm_settled s) i = Some (f i)" if "i < n" for i
    proof -
      have "i \<in> fst ` set (lm_settled s)" using keys(2) that by auto
      then have "map_of (lm_settled s) i \<noteq> None" by (simp add: map_of_eq_None_iff)
      then show ?thesis by (auto simp: f_def)
    qed
    have "limiter_result s = promiseAllDone (map f [0..<n])" by (simp add: limiter_result_def n f_def [abs_def])
    then have "limiter_result s = Inr vs \<longleftrightarrow> map f [0..<n] = map Inr vs" by (simp add: promiseAllDone_Inr)
    also have "\<dots> \<longleftrightarrow> length vs = n \<and> (\<forall>i<n. f i = Inr (vs ! i))" by (auto simp: list_eq_iff_nth_eq)
    also have "\<dots> \<longleftrightarrow> length vs = n \<and> (\<forall>i<n. map_of (lm_settled s) i = Some (Inr (vs ! i)))"
      using f by (metis option.inject)
    finally show "distinct (map fst (lm_settled s)) \<and> set (map fst (lm_settled s)) = {0..<n}
        \<and> (limiter_result s = Inr vs \<longleftrightarrow> length vs = n \<and> (\<forall>i<n. map_of (lm_settled s) i = Some (Inr (vs ! i))))"
      using keys by blast
  qed
qed


subsection \<open>Chunks\<close>

lemma chunks_from_partition:
  assumes "0 < n"
  shows "\<exists>cs. chunks_from n xs i = Some cs \<and> concat cs = drop i xs \<and> (\<forall>c\<in>set cs. c \<noteq> [] \<and> length c \<le> n)"
proof (induction "length xs - i" arbitrary: i rule: less_induct)
  case less
  show ?case
  proof (cases "i < length xs")
    case True
    define e where "e = (if i + n > length xs then length xs else i + n)"
    have e: "i < e" "e \<le> length xs" "e - i \<le> n" using True assms by (auto simp: e_def)
    obtain cs where cs: "chunks_from n xs e = Some cs" "concat cs = drop e xs" "\<forall>c\<in>set cs. c \<noteq> [] \<and> length c \<le> n"
      using less [of e] e by (meson diff_less_mono2 less_le_trans)
    have "take (e - i) (drop i xs) @ drop e xs = drop i xs"
      using e by (metis append_take_drop_id drop_drop le_add_diff_inverse2 less_imp_le)
    moreover have "chunks_from n xs i = Some (take (e - i) (drop i xs) # cs)"
      using True cs(1) by (subst chunks_from.simps) (simp add: e_def [symmetric] Let_def)
    ultimately show ?thesis using cs e by (intro exI [of _ "take (e - i) (drop i xs) # cs"]) auto
  qed (subst chunks_from.simps, simp)
qed

text \<open>Chunking terminates for every positive chunk size and partitions its input into non-empty
  chunks of at most that size, in order.\<close>

lemma processChunkedSync_partitions:
  "0 < n \<Longrightarrow> \<exists>cs. processChunkedSync xs n = Some cs \<and> concat cs = xs \<and> (\<forall>c\<in>set cs. c \<noteq> [] \<and> length c \<le> n)"
  using chunks_from_partition [of n xs 0] by (simp add: processChunkedSync_def)

subsection \<open>Witnesses\<close>

text \<open>Two at a time: the second call settles first, the first one fails, the third is still to come.\<close>

definition demo_limited :: "nat limiter" where
  "demo_limited = limiter_settle 0 (Inl (JStr ''e'')) (limiter_next (limiter_settle 1 (Inr 5) (limiter_next (limiter_next (new_limiter 2 3)))))"

lemma demo_limited_steps: "limiter_steps (new_limiter 2 3) demo_limited"
proof -
  let ?s1 = "limiter_next (new_limiter 2 3) :: nat limiter"
  let ?s2 = "limiter_next ?s1"
  let ?s3 = "limiter_settle 1 (Inr 5) ?s2"
  let ?s4 = "limiter_next ?s3"
  have "limiter_step (new_limiter 2 3) ?s1" by (rule next_payload) code_simp+
  moreover have "limiter_step ?s1 ?s2" by (rule next_payload) code_simp+
  moreover have "limiter_step ?s2 ?s3" by (rule settles) code_simp
  moreover have "limiter_step ?s3 ?s4" by (rule next_payload) code_simp+
  moreover have "limiter_step ?s4 demo_limited" unfolding demo_limited_def by (rule settles) code_simp
  ultimately show ?thesis by (meson rtranclp.rtrancl_into_rtrancl rtranclp.rtrancl_refl)
qed

theorem limiter_bounds_concurrency_witness: "int (length (lm_running demo_limited)) \<le> 2 \<and> lm_running demo_limited = [2]"
proof -
  have "lm_running demo_limited = [2]" by code_simp
  then show ?thesis using limiter_bounds_concurrency [OF demo_limited_steps] by simp
qed

definition demo_finished :: "nat limiter" where
  "demo_finished = limiter_settle 2 (Inr 7) demo_limited"

theorem limiter_processes_every_payload_witness:
  "set (map fst (lm_settled demo_finished)) = {0..<3} \<and> limiter_result demo_finished = Inl (Reason (JStr ''e''))"
proof -
  have "limiter_step demo_limited demo_finished" unfolding demo_finished_def by (rule settles) code_simp
  then have steps: "limiter_steps (new_limiter 2 3) demo_finished" using demo_limited_steps by (rule rtranclp.rtrancl_into_rtrancl [rotated])
  have "limiter_done demo_finished" "limiter_result demo_finished = Inl (Reason (JStr ''e''))" by code_simp+
  then show ?thesis using limiter_processes_every_payload [OF steps, of "[]"] by blast
qed

end
