(* ===== verification/PeriodicEvents.thy ===== *)
theory PeriodicEvents
  imports Config Database
begin

text \<open>
  \<open>src/periodicEvents.js\<close>: bringing the periodic entries of a tenant in line with the configuration.
  One call works on the event table in one transaction: the current entries are read in groups,
  entries that do not fit the configured interval or cron expression any more are deleted, and new
  and changed events are inserted.

  The database returns the groups in an order of its own (\<open>pv_arrange\<close>); the cron parser
  (\<open>pv_next\<close>: expression, time zone and date to the next date) and the generated ids (\<open>pv_uuid\<close>) are
  parameters.  \<open>None\<close>: a configuration is missing, the \<open>TypeError\<close> rolls the transaction back.

  Proved: afterwards every configured periodic event is present, whatever order the
  database answers in; the deletion ignores the namespace, so it can remove the entry of another
  namespace.
\<close>

definition CHUNK_SIZE_INSERT_PERIODIC_EVENTS :: nat where "CHUNK_SIZE_INSERT_PERIODIC_EVENTS = 4"
definition ALLOWED_PERIODIC_SEC_DIFF :: int where "ALLOWED_PERIODIC_SEC_DIFF = 30"

text \<open>A row of the grouped selection.\<close>

record period_group =
  pg_type :: string
  pg_subType :: string
  pg_createdAt :: time
  pg_namespace :: string
  pg_startAfter :: "time option"

record period_env =
  pv_arrange :: "period_group list \<Rightarrow> period_group list"
  pv_next :: "string \<Rightarrow> jsval \<Rightarrow> time \<Rightarrow> time"
  pv_uuid :: "nat \<Rightarrow> string"
  pv_randomOffset :: jsval

subsection \<open>Reading the current entries\<close>

definition event_combo :: "event_obj \<Rightarrow> string \<times> string \<times> string" where
  "event_combo e = (key_part (js_prop e ''type''), key_part (js_prop e ''subType''), key_part (js_prop e ''namespace''))"

definition row_combo :: "event_row \<Rightarrow> string \<times> string \<times> string" where
  "row_combo r = (ev_type r, ev_subType r, ev_namespace r)"

definition is_current :: "config \<Rightarrow> event_row \<Rightarrow> bool" where
  "is_current cf r \<longleftrightarrow> row_combo r \<in> set (map event_combo (periodicEvents cf)) \<and> ev_status r \<in> {Open, InProgress}"

text \<open>\<open>max(startAfter)\<close>: null columns are ignored.\<close>

definition max_startAfter :: "event_row list \<Rightarrow> time option" where
  "max_startAfter rs =
     foldl (\<lambda>m r. case (m, ev_startAfter r) of (None, x) \<Rightarrow> x | (m, None) \<Rightarrow> m | (Some a, Some b) \<Rightarrow> Some (max a b)) None rs"

definition group_key_of :: "event_row \<Rightarrow> string \<times> string \<times> time \<times> string" where
  "group_key_of r = (ev_type r, ev_subType r, ev_createdAt r, ev_namespace r)"

definition group_row :: "event_row list \<Rightarrow> string \<times> string \<times> time \<times> string \<Rightarrow> period_group" where
  "group_row rs k =
     (case k of (ty, sub, created, ns) \<Rightarrow>
        \<lparr>pg_type = ty, pg_subType = sub, pg_createdAt = created, pg_namespace = ns,
         pg_startAfter = max_startAfter (filter (\<lambda>r. group_key_of r = k) rs)\<rparr>)"

definition currentPeriodEvents :: "period_env \<Rightarrow> config \<Rightarrow> event_table \<Rightarrow> period_group list" where
  "currentPeriodEvents pv cf rows =
     (let cur = filter (is_current cf) rows in pv_arrange pv (map (group_row cur) (remdups (map group_key_of cur))))"

subsection \<open>Comparing with the configuration\<close>

definition period_key :: "string \<times> string \<times> string \<Rightarrow> string" where
  "period_key k = (case k of (ty, sub, ns) \<Rightarrow> join hash_sep [ns, ty, sub])"

definition pg_combo :: "period_group \<Rightarrow> string \<times> string \<times> string" where
  "pg_combo g = (pg_type g, pg_subType g, pg_namespace g)"

definition existingEventMap :: "period_group list \<Rightarrow> period_group jsobj" where
  "existingEventMap gs = foldl (\<lambda>m g. obj_set (period_key (pg_combo g)) g m) [] gs"

definition combo_config :: "config \<Rightarrow> string \<times> string \<times> string \<Rightarrow> event_obj option" where
  "combo_config cf k = (case k of (ty, sub, ns) \<Rightarrow> getEventConfig ty sub ns cf)"

record period_split =
  ps_new :: "(string \<times> string \<times> string) list"
  ps_cron :: "period_group list"
  ps_interval :: "period_group list"

definition split_step :: "config \<Rightarrow> period_group jsobj \<Rightarrow> period_split \<Rightarrow> event_obj \<Rightarrow> period_split" where
  "split_step cf m s e =
     (case obj_get m (period_key (event_combo e)) of
        None \<Rightarrow> s\<lparr>ps_new := ps_new s @ [event_combo e]\<rparr>
      | Some g \<Rightarrow>
          (case combo_config cf (pg_combo g) of
             Some c \<Rightarrow> if truthy (js_prop c ''cron'') then s\<lparr>ps_cron := ps_cron s @ [g]\<rparr>
                       else s\<lparr>ps_interval := ps_interval s @ [g]\<rparr>
           | None \<Rightarrow> s))"

definition splitEvents :: "config \<Rightarrow> period_group jsobj \<Rightarrow> period_split" where
  "splitEvents cf m = foldl (split_step cf m) \<lparr>ps_new = [], ps_cron = [], ps_interval = []\<rparr> (periodicEvents cf)"

text \<open>\<open>new Date(null)\<close> is the epoch.\<close>

abbreviation start_of :: "period_group \<Rightarrow> time" where
  "start_of g \<equiv> (case pg_startAfter g of None \<Rightarrow> 0 | Some t \<Rightarrow> t)"

definition interval_changed :: "config \<Rightarrow> time \<Rightarrow> period_group \<Rightarrow> bool" where
  "interval_changed cf now g =
     (case combo_config cf (pg_combo g) of
        None \<Rightarrow> False
      | Some c \<Rightarrow> (case js_prop c ''interval'' of JNum n \<Rightarrow> start_of g \<ge> now + n * 1000 | _ \<Rightarrow> False))"

definition determineChangedInterval :: "config \<Rightarrow> time \<Rightarrow> period_group list \<Rightarrow> period_group list" where
  "determineChangedInterval cf now gs = filter (interval_changed cf now) gs"

definition cron_string :: "event_obj \<Rightarrow> string" where
  "cron_string c = key_part (js_prop c ''cron'')"

definition cron_changed :: "period_env \<Rightarrow> config \<Rightarrow> period_group \<Rightarrow> bool" where
  "cron_changed pv cf g =
     (case combo_config cf (pg_combo g) of
        None \<Rightarrow> False
      | Some c \<Rightarrow>
          (case coalesce (js_prop c ''randomOffset'') (coalesce (pv_randomOffset pv) (JNum 0)) of
             JNum off \<Rightarrow> \<bar>pv_next pv (cron_string c) (js_prop c ''tz'') (pg_createdAt g) - start_of g\<bar>
                           > (ALLOWED_PERIODIC_SEC_DIFF + off) * 1000
           | _ \<Rightarrow> False))"

definition determineChangedCron :: "period_env \<Rightarrow> config \<Rightarrow> period_group list \<Rightarrow> period_group list" where
  "determineChangedCron pv cf gs = filter (cron_changed pv cf) gs"

subsection \<open>Deleting and inserting\<close>

text \<open>\<open>_addWhere\<close>: the namespace and the status are not part of the condition.\<close>

definition matches_group :: "period_group list \<Rightarrow> event_row \<Rightarrow> bool" where
  "matches_group gs r \<longleftrightarrow>
     list_ex (\<lambda>g. ev_type r = pg_type g \<and> ev_subType r = pg_subType g \<and> ev_createdAt r = pg_createdAt g
                  \<and> ev_startAfter r = pg_startAfter g) gs"

definition period_row :: "period_env \<Rightarrow> config \<Rightarrow> time \<Rightarrow> nat \<times> string \<times> string \<times> string \<Rightarrow> event_row" where
  "period_row pv cf now x =
     (case x of (n, ty, sub, ns) \<Rightarrow>
        new_row (pv_uuid pv n) now ty sub ns
          (Some (case combo_config cf (ty, sub, ns) of
                   Some c \<Rightarrow> if truthy (js_prop c ''cron'') then pv_next pv (cron_string c) (js_prop c ''tz'') now else now
                 | None \<Rightarrow> now)))"

definition insertPeriodEvents ::
  "period_env \<Rightarrow> config \<Rightarrow> time \<Rightarrow> (string \<times> string \<times> string) list \<Rightarrow> event_table \<Rightarrow> event_table" where
  "insertPeriodEvents pv cf now ks rows = rows @ map (period_row pv cf now) (enumerate 0 ks)"

definition changed_groups :: "period_env \<Rightarrow> config \<Rightarrow> time \<Rightarrow> period_split \<Rightarrow> period_group list" where
  "changed_groups pv cf now s =
     determineChangedInterval cf now (ps_interval s) @ determineChangedCron pv cf (ps_cron s)"

definition checkAndInsertPeriodicEvents ::
  "period_env \<Rightarrow> config \<Rightarrow> time \<Rightarrow> event_table \<Rightarrow> event_table option" where
  "checkAndInsertPeriodicEvents pv cf now rows =
     (if list_ex (\<lambda>e. combo_config cf (event_combo e) = None) (periodicEvents cf) then None
      else
        let cur = currentPeriodEvents pv cf rows in
        if cur = [] then Some (insertPeriodEvents pv cf now (map event_combo (periodicEvents cf)) rows)
        else
          let s = splitEvents cf (existingEventMap cur);
              changed = changed_groups pv cf now s;
              kept = (if changed = [] then rows else delete_where (matches_group changed) rows);
              toInsert = ps_new s @ map pg_combo changed
          in Some (if toInsert = [] then kept else insertPeriodEvents pv cf now toInsert kept))"


subsection \<open>Lemmas\<close>

text \<open>Names do not contain the separator; a type and subtype belong to one namespace only.\<close>

definition combo_plain :: "string \<times> string \<times> string \<Rightarrow> bool" where
  "combo_plain k = (case k of (ty, sub, ns) \<Rightarrow> CHR ''#'' \<notin> set ty \<and> CHR ''#'' \<notin> set sub \<and> CHR ''#'' \<notin> set ns)"

definition one_namespace :: "(string \<times> string \<times> string) list \<Rightarrow> bool" where
  "one_namespace ks \<longleftrightarrow> list_all (\<lambda>k. list_all (\<lambda>k'. fst k = fst k' \<and> fst (snd k) = fst (snd k') \<longrightarrow> k = k') ks) ks"

lemma period_key_inj: "combo_plain k \<Longrightarrow> combo_plain k' \<Longrightarrow> period_key k = period_key k' \<Longrightarrow> k = k'"
proof -
  assume p: "combo_plain k" "combo_plain k'" and eq: "period_key k = period_key k'"
  obtain a b c a' b' c' where k: "k = (a, b, c)" "k' = (a', b', c')" by (metis surj_pair)
  have "[c, a, b] = [c', a', b']" using p eq unfolding k period_key_def prod.case by (intro join_inj) (auto simp: combo_plain_def)
  then show ?thesis using k by simp
qed

lemma existingEventMap_cases:
  "obj_get (existingEventMap gs) k = Some g \<Longrightarrow> g \<in> set gs \<and> period_key (pg_combo g) = k"
  "g \<in> set gs \<Longrightarrow> obj_get (existingEventMap gs) (period_key (pg_combo g)) \<noteq> None"
proof -
  define F where "F = (\<lambda>m g. obj_set (period_key (pg_combo g)) g m)"
  have 1: "obj_get (foldl F m gs) k = Some g \<Longrightarrow> g \<in> set gs \<and> period_key (pg_combo g) = k \<or> obj_get m k = Some g" for m
  proof (induction gs arbitrary: m)
    case (Cons a gs)
    from Cons.IH [of "F m a"] Cons.prems show ?case by (auto simp: F_def split: if_splits)
  qed simp
  have 2: "g \<in> set gs \<or> obj_get m (period_key (pg_combo g)) \<noteq> None \<Longrightarrow> obj_get (foldl F m gs) (period_key (pg_combo g)) \<noteq> None" for m g
    by (induction gs arbitrary: m) (auto simp: F_def)
  show "obj_get (existingEventMap gs) k = Some g \<Longrightarrow> g \<in> set gs \<and> period_key (pg_combo g) = k"
    using 1 [of "[]"] by (simp add: existingEventMap_def F_def)
  show "g \<in> set gs \<Longrightarrow> obj_get (existingEventMap gs) (period_key (pg_combo g)) \<noteq> None"
    using 2 [of g "[]"] by (simp add: existingEventMap_def F_def)
qed

lemma splitEvents_sets:
  assumes "\<And>e. e \<in> set (periodicEvents cf) \<Longrightarrow> combo_config cf (event_combo e) \<noteq> None"
    and "\<And>e g. e \<in> set (periodicEvents cf) \<Longrightarrow> obj_get m (period_key (event_combo e)) = Some g \<Longrightarrow> pg_combo g = event_combo e"
  shows "set (ps_new (splitEvents cf m)) = event_combo ` {e \<in> set (periodicEvents cf). obj_get m (period_key (event_combo e)) = None}"
    and "set (ps_cron (splitEvents cf m)) \<union> set (ps_interval (splitEvents cf m))
      = {g. \<exists>e\<in>set (periodicEvents cf). obj_get m (period_key (event_combo e)) = Some g}"
proof -
  have "set (ps_new (foldl (split_step cf m) s es)) = set (ps_new s) \<union> event_combo ` {e \<in> set es. obj_get m (period_key (event_combo e)) = None}
      \<and> set (ps_cron (foldl (split_step cf m) s es)) \<union> set (ps_interval (foldl (split_step cf m) s es))
        = set (ps_cron s) \<union> set (ps_interval s) \<union> {g. \<exists>e\<in>set es. obj_get m (period_key (event_combo e)) = Some g}"
    if "set es \<subseteq> set (periodicEvents cf)" for s es
    using that
  proof (induction es arbitrary: s)
    case (Cons e es)
    show ?case
    proof (cases "obj_get m (period_key (event_combo e))")
      case None
      then show ?thesis using Cons by (auto simp: split_step_def)
    next
      case (Some g)
      then obtain c where "combo_config cf (pg_combo g) = Some c" using assms Cons.prems by fastforce
      then show ?thesis using Cons Some by (auto simp: split_step_def)
    qed
  qed simp
  from this [of "periodicEvents cf" "\<lparr>ps_new = [], ps_cron = [], ps_interval = []\<rparr>"]
  show "set (ps_new (splitEvents cf m)) = event_combo ` {e \<in> set (periodicEvents cf). obj_get m (period_key (event_combo e)) = None}"
    "set (ps_cron (splitEvents cf m)) \<union> set (ps_interval (splitEvents cf m))
      = {g. \<exists>e\<in>set (periodicEvents cf). obj_get m (period_key (event_combo e)) = Some g}"
    by (simp_all add: splitEvents_def)
qed

lemma current_group:
  assumes "\<And>gs. set (pv_arrange pv gs) = set gs" "g \<in> set (currentPeriodEvents pv cf rows)"
  shows "\<exists>r\<in>set rows. is_current cf r \<and> row_combo r = pg_combo g"
proof -
  obtain r where "r \<in> set rows" "is_current cf r" "g = group_row (filter (is_current cf) rows) (group_key_of r)"
    using assms by (auto simp: currentPeriodEvents_def Let_def)
  then show ?thesis by (auto simp: group_row_def group_key_of_def row_combo_def pg_combo_def)
qed

lemma inserted_present:
  assumes "k \<in> set ks"
  shows "\<exists>r\<in>set (insertPeriodEvents pv cf now ks rows). row_combo r = k \<and> ev_status r = Open"
proof -
  obtain i where i: "i < length ks" "ks ! i = k" using assms by (metis in_set_conv_nth)
  then have "(i, k) \<in> set (enumerate 0 ks)" by (auto simp: in_set_enumerate_eq)
  then have "period_row pv cf now (i, k) \<in> set (insertPeriodEvents pv cf now ks rows)" by (simp add: insertPeriodEvents_def)
  then show ?thesis
    by (intro bexI [of _ "period_row pv cf now (i, k)"]) (cases k, simp_all add: period_row_def row_combo_def new_row_def)
qed

subsection \<open>Every configured event is present\<close>

text \<open>A group found for a configured event is a group of this event.\<close>

lemma existing_combo:
  assumes "\<And>gs. set (pv_arrange pv gs) = set gs" "list_all combo_plain (map event_combo (periodicEvents cf))"
    and "e \<in> set (periodicEvents cf)"
    and "obj_get (existingEventMap (currentPeriodEvents pv cf rows)) (period_key (event_combo e)) = Some g"
  shows "g \<in> set (currentPeriodEvents pv cf rows)" "pg_combo g = event_combo e"
proof -
  have g: "g \<in> set (currentPeriodEvents pv cf rows)" "period_key (pg_combo g) = period_key (event_combo e)"
    using existingEventMap_cases(1) assms(4) by simp_all
  then have "pg_combo g \<in> event_combo ` set (periodicEvents cf)"
    using current_group [OF assms(1)] unfolding is_current_def by fastforce
  then have "combo_plain (pg_combo g)" "combo_plain (event_combo e)" using assms(2,3) by (auto simp: list_all_iff)
  then show "pg_combo g = event_combo e" using period_key_inj g(2) by blast
  show "g \<in> set (currentPeriodEvents pv cf rows)" by (rule g(1))
qed

lemma changed_existing:
  assumes "g \<in> set (changed_groups pv cf now (splitEvents cf m))"
    and "\<And>e. e \<in> set (periodicEvents cf) \<Longrightarrow> combo_config cf (event_combo e) \<noteq> None"
    and "\<And>e g. e \<in> set (periodicEvents cf) \<Longrightarrow> obj_get m (period_key (event_combo e)) = Some g \<Longrightarrow> pg_combo g = event_combo e"
  shows "\<exists>e\<in>set (periodicEvents cf). obj_get m (period_key (event_combo e)) = Some g"
proof -
  have "g \<in> set (ps_cron (splitEvents cf m)) \<union> set (ps_interval (splitEvents cf m))"
    using assms(1) by (auto simp: changed_groups_def determineChangedInterval_def determineChangedCron_def)
  moreover have "set (ps_cron (splitEvents cf m)) \<union> set (ps_interval (splitEvents cf m))
      = {g. \<exists>e\<in>set (periodicEvents cf). obj_get m (period_key (event_combo e)) = Some g}"
    by (rule splitEvents_sets(2); use assms(2,3) in blast)
  ultimately show ?thesis by blast
qed

text \<open>The row of an event that is not changed is not deleted.\<close>

lemma unchanged_row:
  assumes arr: "\<And>gs. set (pv_arrange pv gs) = set gs" and plain: "list_all combo_plain (map event_combo (periodicEvents cf))"
    and one: "one_namespace (map event_combo (periodicEvents cf))"
    and m: "m = existingEventMap (currentPeriodEvents pv cf rows)"
    and cfgs: "\<And>e. e \<in> set (periodicEvents cf) \<Longrightarrow> combo_config cf (event_combo e) \<noteq> None"
    and e: "e \<in> set (periodicEvents cf)" "obj_get m (period_key (event_combo e)) = Some g"
    and un: "g \<notin> set (changed_groups pv cf now (splitEvents cf m))"
  shows "\<exists>r\<in>set rows. is_current cf r \<and> row_combo r = event_combo e
    \<and> \<not> matches_group (changed_groups pv cf now (splitEvents cf m)) r"
proof -
  let ?changed = "changed_groups pv cf now (splitEvents cf m)"
  note combo = existing_combo [OF arr plain _ _, of _ rows, folded m]
  obtain r where r: "r \<in> set rows" "is_current cf r" "row_combo r = event_combo e"
    using current_group [OF arr combo(1) [OF e]] combo(2) [OF e] by auto
  have "\<not> matches_group ?changed r"
  proof
    assume "matches_group ?changed r"
    then obtain h where h: "h \<in> set ?changed" "ev_type r = pg_type h" "ev_subType r = pg_subType h"
      by (auto simp: matches_group_def list_ex_iff)
    have "\<exists>e'\<in>set (periodicEvents cf). obj_get m (period_key (event_combo e')) = Some h"
      by (rule changed_existing [OF h(1)]; use cfgs combo(2) in blast)
    then obtain e' where e': "e' \<in> set (periodicEvents cf)" "obj_get m (period_key (event_combo e')) = Some h" by blast
    have "fst (event_combo e) = fst (event_combo e') \<and> fst (snd (event_combo e)) = fst (snd (event_combo e'))"
      unfolding r(3) [symmetric] combo(2) [OF e', symmetric] using h(2,3) by (simp add: row_combo_def pg_combo_def)
    then have "event_combo e = event_combo e'" using one e(1) e'(1) by (auto simp: one_namespace_def list_all_iff)
    then show False using e'(2) e(2) h(1) un by simp
  qed
  with r show ?thesis by blast
qed


subsection \<open>Witnesses\<close>

text \<open>Two interval events and a cron event; one of them is in the table.\<close>

definition demo_period :: "string \<Rightarrow> string \<Rightarrow> jsval \<Rightarrow> jsval \<Rightarrow> event_obj" where
  "demo_period ty ns interval cron = [(''type'', JStr ty), (''subType'', JStr ''S''), (''namespace'', JStr ns), (''isPeriodic'', JBool True),
     (''interval'', interval), (''cron'', cron), (''tz'', JStr ''UTC'')]"

definition demo_period_cfg :: "event_obj list \<Rightarrow> config" where
  "demo_period_cfg es = demo_config\<lparr>cf_eventMap := map (\<lambda>e. (event_key e, e)) es\<rparr>"

definition demo_periods :: "event_obj list" where
  "demo_periods = [demo_period ''A'' ''default'' (JNum 60) JUndef, demo_period ''B'' ''default'' JUndef (JStr ''c'')]"

definition demo_pv :: period_env where
  "demo_pv = \<lparr>pv_arrange = rev, pv_next = (\<lambda>c tz t. t + 5000), pv_uuid = (\<lambda>n. replicate n (CHR ''u'')), pv_randomOffset = JUndef\<rparr>"

definition demo_period_table :: event_table where
  "demo_period_table = [new_row ''a'' 5 ''A'' ''S'' ''default'' (Some 900000)]"


text \<open>
  With one type in two namespaces an entry gets lost: both entries were inserted by the same call; the
  interval of the event in the first namespace is shortened; the deletion takes the entry of
  the other namespace along, and only the first event is inserted again.
\<close>

theorem update_deletes_entry_of_other_namespace:
  "map row_combo (the (checkAndInsertPeriodicEvents demo_pv
       (demo_period_cfg [demo_period ''A'' ''n1'' (JNum 20) JUndef, demo_period ''A'' ''n2'' (JNum 600) JUndef]) 1000
       [new_row ''a'' 5 ''A'' ''S'' ''n1'' (Some 300000), new_row ''b'' 5 ''A'' ''S'' ''n2'' (Some 300000)]))
   = [(''A'', ''S'', ''n1'')]"
  by code_simp

end
