(* ===== verification/EventQueueStats.thy ===== *)
theory EventQueueStats
  imports Config
begin

text \<open>
  \<open>src/shared/eventQueueStats.js\<close>: counters of pending and running entries, per tenant and overall, in
  Redis hashes.  Redis is a parameter with the documented behaviour of \<open>HINCRBY\<close>, \<open>HSET\<close>, \<open>HGET\<close> and
  \<open>DEL\<close> on integer fields (\<open>hash_laws\<close>); an operation that fails is logged and changes
  nothing.
\<close>

record 'h redis_hash =
  rh_incrBy :: "string \<Rightarrow> string \<Rightarrow> int \<Rightarrow> 'h \<Rightarrow> 'h"
  rh_set :: "string \<Rightarrow> string \<Rightarrow> int \<Rightarrow> 'h \<Rightarrow> 'h"
  rh_del :: "string \<Rightarrow> 'h \<Rightarrow> 'h"
  rh_get :: "string \<Rightarrow> string \<Rightarrow> 'h \<Rightarrow> int option"
  rh_scan :: "(string \<Rightarrow> bool) \<Rightarrow> 'h \<Rightarrow> string list"

text \<open>A missing field counts as zero.\<close>

definition hash_value :: "'h redis_hash \<Rightarrow> string \<Rightarrow> string \<Rightarrow> 'h \<Rightarrow> int" where
  "hash_value rh k f s = (case rh_get rh k f s of None \<Rightarrow> 0 | Some n \<Rightarrow> n)"

definition hash_laws :: "'h redis_hash \<Rightarrow> bool" where
  "hash_laws rh \<longleftrightarrow>
     (\<forall>k f n s k' f'. rh_get rh k' f' (rh_incrBy rh k f n s) =
        (if k' = k \<and> f' = f then Some (hash_value rh k f s + n) else rh_get rh k' f' s))
     \<and> (\<forall>k f n s k' f'. rh_get rh k' f' (rh_set rh k f n s) = (if k' = k \<and> f' = f then Some n else rh_get rh k' f' s))
     \<and> (\<forall>k s k' f'. rh_get rh k' f' (rh_del rh k s) = (if k' = k then None else rh_get rh k' f' s))
     \<and> (\<forall>P s k f. P k \<longrightarrow> rh_get rh k f s \<noteq> None \<longrightarrow> k \<in> set (rh_scan rh P s))
     \<and> (\<forall>P s k. k \<in> set (rh_scan rh P s) \<longrightarrow> P k)"

definition Pending :: string where "Pending = ''pending''"
definition InProgressField :: string where "InProgressField = ''inProgress''"

lemmas field_defs = Pending_def InProgressField_def

subsection \<open>Keys\<close>

text \<open>The tenant is put into a template string.\<close>

definition tenant_text :: "string option \<Rightarrow> string" where
  "tenant_text t = (case t of None \<Rightarrow> ''undefined'' | Some s \<Rightarrow> s)"

definition tenantKey :: "config \<Rightarrow> string option \<Rightarrow> string" where
  "tenantKey cf t = redisNamespace True cf @ ''##stats##tenant##'' @ tenant_text t"

definition globalKey :: "config \<Rightarrow> string" where
  "globalKey cf = redisNamespace True cf @ ''##stats##global''"

definition keyPrefix :: "config \<Rightarrow> string \<Rightarrow> string" where
  "keyPrefix cf ns = redisNamespace False cf @ ''##'' @ ns"

subsection \<open>Operations\<close>

definition adjustTenantCounter :: "'h redis_hash \<Rightarrow> config \<Rightarrow> string option \<Rightarrow> string \<Rightarrow> int \<Rightarrow> 'h \<Rightarrow> 'h" where
  "adjustTenantCounter rh cf t f n s = rh_incrBy rh (tenantKey cf t) f n s"

definition adjustGlobalCounter :: "'h redis_hash \<Rightarrow> config \<Rightarrow> string \<Rightarrow> int \<Rightarrow> 'h \<Rightarrow> 'h" where
  "adjustGlobalCounter rh cf f n s = rh_incrBy rh (globalKey cf) f n s"

definition incrementCounters :: "'h redis_hash \<Rightarrow> config \<Rightarrow> string option \<Rightarrow> string \<Rightarrow> int \<Rightarrow> 'h \<Rightarrow> 'h" where
  "incrementCounters rh cf t f n s = adjustGlobalCounter rh cf f n (adjustTenantCounter rh cf t f n s)"

definition decrementCounters :: "'h redis_hash \<Rightarrow> config \<Rightarrow> string option \<Rightarrow> string \<Rightarrow> int \<Rightarrow> 'h \<Rightarrow> 'h" where
  "decrementCounters rh cf t f n s = adjustGlobalCounter rh cf f (- n) (adjustTenantCounter rh cf t f (- n) s)"

text \<open>\<open>_parseCounterHash\<close>: pending and running.\<close>

definition parseCounterHash :: "'h redis_hash \<Rightarrow> string \<Rightarrow> 'h \<Rightarrow> int \<times> int" where
  "parseCounterHash rh k s = (hash_value rh k Pending s, hash_value rh k InProgressField s)"

definition getTenantStats :: "'h redis_hash \<Rightarrow> config \<Rightarrow> string option \<Rightarrow> 'h \<Rightarrow> int \<times> int" where
  "getTenantStats rh cf t s = parseCounterHash rh (tenantKey cf t) s"

definition getGlobalStats :: "'h redis_hash \<Rightarrow> config \<Rightarrow> 'h \<Rightarrow> int \<times> int" where
  "getGlobalStats rh cf s = parseCounterHash rh (globalKey cf) s"

definition setTenantCounter :: "'h redis_hash \<Rightarrow> config \<Rightarrow> string option \<Rightarrow> string \<Rightarrow> string \<Rightarrow> int \<Rightarrow> 'h \<Rightarrow> 'h" where
  "setTenantCounter rh cf t ns f n s = rh_set rh (keyPrefix cf ns @ ''##stats##tenant##'' @ tenant_text t) f n s"

definition setGlobalCounter :: "'h redis_hash \<Rightarrow> config \<Rightarrow> string \<Rightarrow> string \<Rightarrow> int \<Rightarrow> 'h \<Rightarrow> 'h" where
  "setGlobalCounter rh cf ns f n s = rh_set rh (keyPrefix cf ns @ ''##stats##global'') f n s"

definition getAllNamespaceStats :: "'h redis_hash \<Rightarrow> config \<Rightarrow> 'h \<Rightarrow> (int \<times> int) jsobj" where
  "getAllNamespaceStats rh cf s =
     obj_from (map (\<lambda>ns. (ns, parseCounterHash rh (keyPrefix cf ns @ ''##stats##global'') s)) (cf_processingNamespaces cf))"

definition deleteTenantStats :: "'h redis_hash \<Rightarrow> config \<Rightarrow> string option \<Rightarrow> 'h \<Rightarrow> 'h" where
  "deleteTenantStats rh cf t s = rh_del rh (tenantKey cf t) s"

text \<open>The pattern \<open>*##stats##tenant##*\<close>\<close>

fun has_infix :: "string \<Rightarrow> string \<Rightarrow> bool" where
  "has_infix p [] = (p = [])"
| "has_infix p (c # cs) = (take (length p) (c # cs) = p \<or> has_infix p cs)"

definition is_tenant_key :: "string \<Rightarrow> bool" where
  "is_tenant_key k = has_infix ''##stats##tenant##'' k"

definition resetInProgressCounters :: "'h redis_hash \<Rightarrow> config \<Rightarrow> 'h \<Rightarrow> 'h" where
  "resetInProgressCounters rh cf s =
     (let s1 = foldl (\<lambda>s ns. rh_set rh (keyPrefix cf ns @ ''##stats##global'') InProgressField 0 s) s (cf_processingNamespaces cf)
      in foldl (\<lambda>s k. rh_set rh k InProgressField 0 s) s1 (rh_scan rh is_tenant_key s1))"

subsection \<open>Lemmas\<close>

lemma hash_value_simps:
  assumes "hash_laws rh"
  shows "hash_value rh k' f' (rh_incrBy rh k f n s) = hash_value rh k' f' s + (if k' = k \<and> f' = f then n else 0)"
    and "hash_value rh k' f' (rh_set rh k f n s) = (if k' = k \<and> f' = f then n else hash_value rh k' f' s)"
    and "hash_value rh k' f' (rh_del rh k s) = (if k' = k then 0 else hash_value rh k' f' s)"
  using assms unfolding hash_laws_def hash_value_def by (simp_all only: conj_assoc) auto

lemma keys_distinct: "tenantKey cf t \<noteq> globalKey cf"
  by (simp add: tenantKey_def globalKey_def)

lemma fields_distinct [simp]: "Pending \<noteq> InProgressField" "InProgressField \<noteq> Pending"
  by (simp_all add: field_defs)

lemma counter_simps:
  assumes "hash_laws rh" "k = tenantKey cf t \<or> k = globalKey cf"
  shows "hash_value rh k f' (incrementCounters rh cf t f n s) = hash_value rh k f' s + (if f' = f then n else 0)"
    and "hash_value rh k f' (decrementCounters rh cf t f n s) = hash_value rh k f' s - (if f' = f then n else 0)"
  using assms(2) keys_distinct [of cf t]
  by (auto simp: incrementCounters_def decrementCounters_def adjustGlobalCounter_def adjustTenantCounter_def
      hash_value_simps [OF assms(1)])

lemma has_infix_append: "has_infix p (xs @ p @ ys)"
proof (induction xs)
  case Nil
  have "take (length p) (p @ ys) = p" by simp
  then show ?case by (cases "p @ ys") (auto simp del: take_append)
qed simp

lemma foldl_set_value:
  assumes "hash_laws rh"
  shows "hash_value rh k f (foldl (\<lambda>s x. rh_set rh (g x) f n s) s xs) = (if k \<in> g ` set xs then n else hash_value rh k f s)"
  by (induction xs arbitrary: s) (auto simp: hash_value_simps [OF assms])

text \<open>After the reset at startup no tenant counter and no counter of a processed namespace shows running
  entries.\<close>

lemma reset_clears_running:
  assumes "hash_laws rh" "is_tenant_key k \<or> (\<exists>ns\<in>set (cf_processingNamespaces cf). k = keyPrefix cf ns @ ''##stats##global'')"
  shows "hash_value rh k InProgressField (resetInProgressCounters rh cf s) = 0"
proof -
  define s1 where "s1 = foldl (\<lambda>s ns. rh_set rh (keyPrefix cf ns @ ''##stats##global'') InProgressField 0 s) s (cf_processingNamespaces cf)"
  have r: "hash_value rh k InProgressField (resetInProgressCounters rh cf s)
      = (if k \<in> set (rh_scan rh is_tenant_key s1) then 0 else hash_value rh k InProgressField s1)"
    using foldl_set_value [OF assms(1), of k InProgressField "\<lambda>x. x" 0 s1 "rh_scan rh is_tenant_key s1"]
    by (simp add: resetInProgressCounters_def s1_def [symmetric] Let_def)
  show ?thesis
  proof (cases "is_tenant_key k")
    case True
    have "rh_get rh k InProgressField s1 \<noteq> None \<Longrightarrow> k \<in> set (rh_scan rh is_tenant_key s1)"
      using assms(1) True unfolding hash_laws_def by blast
    then have "k \<in> set (rh_scan rh is_tenant_key s1) \<or> hash_value rh k InProgressField s1 = 0"
      by (cases "rh_get rh k InProgressField s1") (auto simp: hash_value_def)
    then show ?thesis unfolding r by auto
  next
    case False
    then have "k \<in> (\<lambda>ns. keyPrefix cf ns @ ''##stats##global'') ` set (cf_processingNamespaces cf)" using assms(2) by blast
    then have "hash_value rh k InProgressField s1 = 0"
      unfolding s1_def using foldl_set_value [OF assms(1), of k InProgressField "\<lambda>ns. keyPrefix cf ns @ ''##stats##global''"] by simp
    then show ?thesis by (simp add: r)
  qed
qed

lemma tenantKey_is_tenant_key: "is_tenant_key (tenantKey cf t)"
  unfolding is_tenant_key_def tenantKey_def by (rule has_infix_append)


subsection \<open>A Redis for the witnesses\<close>

type_synonym hash_store = "int jsobj jsobj"

abbreviation hash_obj :: "string \<Rightarrow> hash_store \<Rightarrow> int jsobj" where
  "hash_obj k s \<equiv> (case obj_get s k of None \<Rightarrow> [] | Some h \<Rightarrow> h)"

definition demo_hash :: "hash_store redis_hash" where
  "demo_hash = \<lparr>
     rh_incrBy = (\<lambda>k f n s. obj_set k (obj_set f ((case obj_get (hash_obj k s) f of None \<Rightarrow> 0 | Some m \<Rightarrow> m) + n) (hash_obj k s)) s),
     rh_set = (\<lambda>k f n s. obj_set k (obj_set f n (hash_obj k s)) s),
     rh_del = obj_del,
     rh_get = (\<lambda>k f s. obj_get (hash_obj k s) f),
     rh_scan = (\<lambda>P s. filter P (obj_keys s))\<rparr>"

lemma demo_hash_laws: "hash_laws demo_hash"
proof -
  have "rh_get demo_hash k f s \<noteq> None \<Longrightarrow> k \<in> set (obj_keys s)" for k f s
    by (cases "obj_get s k") (auto simp: demo_hash_def dest: map_of_SomeD intro: rev_image_eqI)
  then show ?thesis unfolding hash_laws_def by (auto simp: demo_hash_def hash_value_def)
qed

end
