(* ===== verification/DbHandler.thy ===== *)
theory DbHandler
  imports EventQueueStats Database
begin

text \<open>
  \<open>src/dbHandler.js\<close>: what is registered on the database service.  After an \<open>INSERT\<close> into the event
  table the inserted combinations are remembered in the transaction, to be broadcast once it has
  succeeded; after an \<open>UPDATE\<close> of the status the counters' deltas are collected.  Both are applied
  by handlers of the transaction's success.

  A transaction is a list of statements on the event table of one tenant; \<open>run_tx\<close> runs it with the
  handlers.

  Proved: a combination is broadcast once, however many entries are inserted, and the parts are
  recovered from the joined key; the counters follow the table as long as statuses change along the
  processing states, and they do not when an entry is put back to open.
\<close>

text \<open>What the handlers keep on the transaction (\<open>req.tx._\<close>).\<close>

record tx_stats =
  tx_publish :: "bool jsobj"
  tx_openCount :: int
  tx_combinations :: "string list"
  tx_created :: bool
  tx_pendingDelta :: int
  tx_inProgressDelta :: int
  tx_updated :: bool

definition new_tx :: tx_stats where
  "new_tx = \<lparr>tx_publish = [], tx_openCount = 0, tx_combinations = [], tx_created = False,
     tx_pendingDelta = 0, tx_inProgressDelta = 0, tx_updated = False\<rparr>"

text \<open>The settings the handlers depend on.\<close>

record db_env =
  de_cf :: config
  de_collectMetrics :: bool

abbreviation metrics_on :: "db_env \<Rightarrow> bool" where
  "metrics_on de \<equiv> de_collectMetrics de \<and> cf_redisEnabled (de_cf de)"

subsection \<open>After \<open>INSERT\<close>\<close>

definition combination_key :: "event_row \<Rightarrow> string" where
  "combination_key r = join hash_sep [ev_type r, ev_subType r, ev_namespace r]"

definition note_combination :: "db_env \<Rightarrow> bool jsobj \<times> string list \<Rightarrow> event_row \<Rightarrow> bool jsobj \<times> string list" where
  "note_combination de s r =
     (case s of (pub, new) \<Rightarrow>
        let k = combination_key r in
        if truthy (hasEventAfterCommitFlag (ev_type r) (ev_subType r) (ev_namespace r) (de_cf de)) \<and> obj_get pub k \<noteq> Some True
        then (obj_set k True pub, new @ [k]) else (pub, new))"

definition after_create :: "db_env \<Rightarrow> bool \<Rightarrow> event_row list \<Rightarrow> tx_stats \<Rightarrow> tx_stats" where
  "after_create de skipBroadcast data tx =
     (if skipBroadcast then tx
      else case foldl (note_combination de) (tx_publish tx, []) data of
             (pub, new) \<Rightarrow>
               tx\<lparr>tx_publish := pub, tx_openCount := tx_openCount tx + int (length data),
                  tx_combinations := tx_combinations tx @ new, tx_created := True\<rparr>)"

subsection \<open>After \<open>UPDATE\<close>\<close>

definition after_update :: "db_env \<Rightarrow> int \<Rightarrow> int option \<Rightarrow> tx_stats \<Rightarrow> tx_stats" where
  "after_update de cnt newStatus tx =
     (case newStatus of
        None \<Rightarrow> tx
      | Some st \<Rightarrow>
          if \<not> metrics_on de then tx
          else if st = InProgress
          then tx\<lparr>tx_pendingDelta := tx_pendingDelta tx - cnt, tx_inProgressDelta := tx_inProgressDelta tx + cnt, tx_updated := True\<rparr>
          else if st = Error
          then tx\<lparr>tx_inProgressDelta := tx_inProgressDelta tx - cnt, tx_pendingDelta := tx_pendingDelta tx + cnt, tx_updated := True\<rparr>
          else if st = Done \<or> st = Exceeded \<or> st = Suspended
          then tx\<lparr>tx_inProgressDelta := tx_inProgressDelta tx - cnt, tx_updated := True\<rparr>
          else tx\<lparr>tx_updated := True\<rparr>)"

subsection \<open>After the transaction has succeeded\<close>

text \<open>Destructuring of the split key.\<close>

definition split_combination :: "string \<Rightarrow> string \<times> string \<times> string" where
  "split_combination k =
     (let ps = split_hash k; part = (\<lambda>i. if i < length ps then ps ! i else ''undefined'') in (part 0, part 1, part 2))"

definition created_succeeded :: "'h redis_hash \<Rightarrow> db_env \<Rightarrow> string option \<Rightarrow> tx_stats \<Rightarrow> 'h \<Rightarrow> 'h" where
  "created_succeeded rh de t tx s =
     (if tx_created tx \<and> metrics_on de \<and> tx_openCount tx \<noteq> 0 then incrementCounters rh (de_cf de) t Pending (tx_openCount tx) s else s)"

definition broadcasts :: "tx_stats \<Rightarrow> (string \<times> string \<times> string) list" where
  "broadcasts tx = (if tx_created tx then map split_combination (tx_combinations tx) else [])"

definition adjust_both :: "'h redis_hash \<Rightarrow> config \<Rightarrow> string option \<Rightarrow> string \<Rightarrow> int \<Rightarrow> 'h \<Rightarrow> 'h" where
  "adjust_both rh cf t f n s = (if n = 0 then s else adjustGlobalCounter rh cf f n (adjustTenantCounter rh cf t f n s))"

definition updated_succeeded :: "'h redis_hash \<Rightarrow> db_env \<Rightarrow> string option \<Rightarrow> tx_stats \<Rightarrow> 'h \<Rightarrow> 'h" where
  "updated_succeeded rh de t tx s =
     (if tx_updated tx \<and> cf_redisEnabled (de_cf de)
      then adjust_both rh (de_cf de) t InProgressField (tx_inProgressDelta tx)
             (adjust_both rh (de_cf de) t Pending (tx_pendingDelta tx) s)
      else s)"

subsection \<open>Transactions\<close>

datatype statement = Insert bool "event_row list" | SetStatus "string list" int

definition status_row :: "int \<Rightarrow> event_row \<Rightarrow> event_row" where
  "status_row st r = r\<lparr>ev_status := st\<rparr>"

definition run_statement :: "db_env \<Rightarrow> event_table \<times> tx_stats \<Rightarrow> statement \<Rightarrow> event_table \<times> tx_stats" where
  "run_statement de s q =
     (case s of (rows, tx) \<Rightarrow>
        case q of
          Insert skip new \<Rightarrow> (rows @ new, after_create de skip new tx)
        | SetStatus ids st \<Rightarrow>
            (update_where (id_in ids) (status_row st) rows,
             after_update de (int (length (filter (id_in ids) rows))) (Some st) tx))"

definition run_tx ::
  "'h redis_hash \<Rightarrow> db_env \<Rightarrow> string option \<Rightarrow> statement list \<Rightarrow> event_table \<times> 'h
     \<Rightarrow> (event_table \<times> 'h) \<times> (string \<times> string \<times> string) list" where
  "run_tx rh de t qs s =
     (case foldl (run_statement de) (fst s, new_tx) qs of
        (rows, tx) \<Rightarrow>
          ((rows, updated_succeeded rh de t tx (created_succeeded rh de t tx (snd s))), broadcasts tx))"


subsection \<open>Counters\<close>

definition pending_rows :: "event_table \<Rightarrow> int" where
  "pending_rows rows = int (length (filter (\<lambda>r. ev_status r \<in> {Open, Error}) rows))"

definition running_rows :: "event_table \<Rightarrow> int" where
  "running_rows rows = int (length (filter (\<lambda>r. ev_status r = InProgress) rows))"

text \<open>Statements along the processing states: open entries are inserted, pending entries start, running
  entries finish or fail.\<close>

fun legal :: "event_table \<Rightarrow> statement \<Rightarrow> bool" where
  "legal rows (Insert skip new) = (\<not> skip \<and> list_all (\<lambda>r. ev_status r = Open) new)"
| "legal rows (SetStatus ids st) =
     (if st = InProgress then list_all (\<lambda>r. id_in ids r \<longrightarrow> ev_status r \<in> {Open, Error}) rows
      else st \<in> {Error, Done, Exceeded, Suspended} \<and> list_all (\<lambda>r. id_in ids r \<longrightarrow> ev_status r = InProgress) rows)"

fun legal_tx :: "db_env \<Rightarrow> event_table \<times> tx_stats \<Rightarrow> statement list \<Rightarrow> bool" where
  "legal_tx de s [] = True"
| "legal_tx de s (q # qs) = (legal (fst s) q \<and> legal_tx de (run_statement de s q) qs)"

lemma count_update:
  "st \<noteq> Open \<Longrightarrow> st \<noteq> Error \<Longrightarrow> list_all (\<lambda>r. id_in ids r \<longrightarrow> ev_status r \<in> {Open, Error}) rows \<Longrightarrow>
     pending_rows (update_where (id_in ids) (status_row st) rows) = pending_rows rows - int (length (filter (id_in ids) rows))"
  "list_all (\<lambda>r. id_in ids r \<longrightarrow> ev_status r = InProgress) rows \<Longrightarrow>
     pending_rows (update_where (id_in ids) (status_row st) rows)
       = pending_rows rows + (if st \<in> {Open, Error} then int (length (filter (id_in ids) rows)) else 0)"
  "list_all (\<lambda>r. id_in ids r \<longrightarrow> ev_status r \<in> {Open, Error}) rows \<Longrightarrow>
     running_rows (update_where (id_in ids) (status_row st) rows)
       = running_rows rows + (if st = InProgress then int (length (filter (id_in ids) rows)) else 0)"
  "st \<noteq> InProgress \<Longrightarrow> list_all (\<lambda>r. id_in ids r \<longrightarrow> ev_status r = InProgress) rows \<Longrightarrow>
     running_rows (update_where (id_in ids) (status_row st) rows) = running_rows rows - int (length (filter (id_in ids) rows))"
  by (induction rows) (auto simp: pending_rows_def running_rows_def update_where_def status_row_def status_defs)

text \<open>The deltas of a transaction are the changes of the table.\<close>

definition tracks :: "event_table \<Rightarrow> event_table \<times> tx_stats \<Rightarrow> bool" where
  "tracks rows0 s \<longleftrightarrow>
     pending_rows (fst s) = pending_rows rows0 + tx_openCount (snd s) + tx_pendingDelta (snd s)
     \<and> running_rows (fst s) = running_rows rows0 + tx_inProgressDelta (snd s)
     \<and> (\<not> tx_created (snd s) \<longrightarrow> tx_openCount (snd s) = 0)
     \<and> (\<not> tx_updated (snd s) \<longrightarrow> tx_pendingDelta (snd s) = 0 \<and> tx_inProgressDelta (snd s) = 0)"

lemma tracks_step:
  assumes "metrics_on de" "tracks rows0 s" "legal (fst s) q"
  shows "tracks rows0 (run_statement de s q)"
proof -
  obtain rows tx where s: "s = (rows, tx)" by fastforce
  show ?thesis
  proof (cases q)
    case (Insert skip new)
    have "filter (\<lambda>r. ev_status r \<in> {Open, Error}) new = new" "filter (\<lambda>r. ev_status r = InProgress) new = []"
      using assms(3) by (auto simp: Insert s list_all_iff filter_id_conv filter_empty_conv status_defs)
    then have "pending_rows (rows @ new) = pending_rows rows + int (length new)" "running_rows (rows @ new) = running_rows rows"
      by (simp_all add: pending_rows_def running_rows_def)
    then show ?thesis using assms
      by (auto simp: tracks_def s Insert run_statement_def after_create_def split: prod.splits)
  next
    case (SetStatus ids st)
    show ?thesis
    proof (cases "st = InProgress")
      case True
      then have l: "list_all (\<lambda>r. id_in ids r \<longrightarrow> ev_status r \<in> {Open, Error}) rows" using assms(3) by (simp add: SetStatus s)
      show ?thesis using assms(1,2) True count_update(1) [OF _ _ l, of InProgress] count_update(3) [OF l, of InProgress]
        by (simp add: tracks_def s SetStatus run_statement_def after_update_def status_defs)
    next
      case False
      then have l: "list_all (\<lambda>r. id_in ids r \<longrightarrow> ev_status r = InProgress) rows" and st: "st \<in> {Error, Done, Exceeded, Suspended}"
        using assms(3) by (auto simp: SetStatus s)
      show ?thesis using assms(1,2) st count_update(2) [OF l, of st] count_update(4) [OF False l]
        by (auto simp: tracks_def s SetStatus run_statement_def after_update_def status_defs)
    qed
  qed
qed

lemma tracks_run:
  "metrics_on de \<Longrightarrow> tracks rows0 s \<Longrightarrow> legal_tx de s qs \<Longrightarrow> tracks rows0 (foldl (run_statement de) s qs)"
proof (induction qs arbitrary: s)
  case (Cons q qs)
  then show ?case using tracks_step [of de rows0 s q] by simp
qed simp

lemma adjust_both_value:
  assumes "hash_laws rh" "k = tenantKey cf t \<or> k = globalKey cf"
  shows "hash_value rh k f' (adjust_both rh cf t f n s) = hash_value rh k f' s + (if f' = f then n else 0)"
  using counter_simps(1) [OF assms] by (simp add: adjust_both_def incrementCounters_def)



subsection \<open>Broadcasts\<close>

definition flagged :: "db_env \<Rightarrow> event_row \<Rightarrow> bool" where
  "flagged de r \<longleftrightarrow> truthy (hasEventAfterCommitFlag (ev_type r) (ev_subType r) (ev_namespace r) (de_cf de))"

text \<open>The combinations a transaction has collected: each once, exactly those of flagged inserts.\<close>

definition collects :: "db_env \<Rightarrow> event_row list \<Rightarrow> tx_stats \<Rightarrow> bool" where
  "collects de ins tx \<longleftrightarrow>
     distinct (tx_combinations tx) \<and> set (tx_combinations tx) = combination_key ` {r \<in> set ins. flagged de r}
     \<and> (\<forall>k. obj_get (tx_publish tx) k = Some True \<longleftrightarrow> k \<in> set (tx_combinations tx))
     \<and> (\<not> tx_created tx \<longrightarrow> tx_combinations tx = [])"


lemma note_combination_cases:
  "note_combination de (pub, new) r =
     (if flagged de r \<and> obj_get pub (combination_key r) \<noteq> Some True
      then (obj_set (combination_key r) True pub, new @ [combination_key r]) else (pub, new))"
  by (simp add: note_combination_def flagged_def Let_def)

lemma note_combination_fold:
  assumes "distinct (old @ new)" "\<forall>k. obj_get pub k = Some True \<longleftrightarrow> k \<in> set (old @ new)"
    and "foldl (note_combination de) (pub, new) data = (pub', new')"
  shows "distinct (old @ new') \<and> (\<forall>k. obj_get pub' k = Some True \<longleftrightarrow> k \<in> set (old @ new'))
    \<and> set (old @ new') = set (old @ new) \<union> combination_key ` {r \<in> set data. flagged de r}"
  using assms
proof (induction data arbitrary: pub new)
  case (Cons r data)
  show ?case
  proof (cases "flagged de r \<and> combination_key r \<notin> set (old @ new)")
    case True
    then have "foldl (note_combination de) (obj_set (combination_key r) True pub, new @ [combination_key r]) data = (pub', new')"
      using Cons.prems by (auto simp: note_combination_cases)
    moreover have "distinct (old @ (new @ [combination_key r]))" using Cons.prems(1) True by auto
    moreover have "\<forall>k. obj_get (obj_set (combination_key r) True pub) k = Some True \<longleftrightarrow> k \<in> set (old @ (new @ [combination_key r]))"
      using Cons.prems(2) by auto
    ultimately have ih: "distinct (old @ new') \<and> (\<forall>k. obj_get pub' k = Some True \<longleftrightarrow> k \<in> set (old @ new'))
        \<and> set (old @ new') = set (old @ (new @ [combination_key r])) \<union> combination_key ` {r \<in> set data. flagged de r}"
      using Cons.IH by blast
    have "combination_key ` {x \<in> set (r # data). flagged de x} = insert (combination_key r) (combination_key ` {r \<in> set data. flagged de r})"
      using True by auto
    then have "set (old @ (new @ [combination_key r])) \<union> combination_key ` {r \<in> set data. flagged de r}
        = set (old @ new) \<union> combination_key ` {x \<in> set (r # data). flagged de x}" by simp
    from ih [unfolded this] show ?thesis .
  next
    case False
    then have "foldl (note_combination de) (pub, new) data = (pub', new')"
      using Cons.prems by (auto simp: note_combination_cases)
    from Cons.IH [OF Cons.prems(1,2) this] False show ?thesis by auto
  qed
qed simp

lemma collects_create:
  assumes "collects de ins tx"
  shows "collects de (ins @ new) (after_create de False new tx)"
proof -
  obtain pub n where f: "foldl (note_combination de) (tx_publish tx, []) new = (pub, n)" by fastforce
  from note_combination_fold [OF _ _ f, of "tx_combinations tx"] assms
  have "distinct (tx_combinations tx @ n)" "\<forall>k. obj_get pub k = Some True \<longleftrightarrow> k \<in> set (tx_combinations tx @ n)"
    "set (tx_combinations tx @ n) = set (tx_combinations tx) \<union> combination_key ` {r \<in> set new. flagged de r}"
    by (auto simp: collects_def)
  then show ?thesis using assms by (auto simp: collects_def after_create_def f)
qed

fun inserted :: "statement list \<Rightarrow> event_row list" where
  "inserted [] = []"
| "inserted (Insert skip new # qs) = (if skip then [] else new) @ inserted qs"
| "inserted (SetStatus ids st # qs) = inserted qs"

lemma collects_run: "collects de ins (snd s) \<Longrightarrow> collects de (ins @ inserted qs) (snd (foldl (run_statement de) s qs))"
proof (induction qs arbitrary: s ins)
  case (Cons q qs)
  obtain rows tx where s: "s = (rows, tx)" by fastforce
  show ?case
  proof (cases q)
    case (Insert skip new)
    have "collects de (ins @ (if skip then [] else new)) (snd (run_statement de s q))"
      using collects_create [of de ins tx new] Cons.prems by (simp add: s Insert run_statement_def after_create_def)
    from Cons.IH [OF this] show ?thesis by (simp add: Insert)
  next
    case (SetStatus ids st)
    have "collects de ins (snd (run_statement de s q))"
      using Cons.prems by (auto simp: s SetStatus run_statement_def after_update_def collects_def)
    from Cons.IH [OF this] show ?thesis by (simp add: SetStatus)
  qed
qed simp

lemma split_combination_key:
  assumes "CHR ''#'' \<notin> set (ev_type r)" "CHR ''#'' \<notin> set (ev_subType r)" "CHR ''#'' \<notin> set (ev_namespace r)"
  shows "split_combination (combination_key r) = (ev_type r, ev_subType r, ev_namespace r)"
proof -
  have "split_hash (combination_key r) = [ev_type r, ev_subType r, ev_namespace r]"
    unfolding combination_key_def using assms by (intro split_hash_join) auto
  then show ?thesis by (simp add: split_combination_def Let_def)
qed

text \<open>
  Broadcasting after commit loses and repeats nothing: the combinations broadcast are exactly the
  types, subtypes and namespaces of the inserted entries that are to be processed after commit,
  recovered from the joined keys, and each is broadcast once however many entries were inserted.
\<close>

theorem broadcast_each_combination_once:
  assumes "run_tx rh de t qs (rows, h) = (s', bs)"
    and "list_all (\<lambda>r. list_all (\<lambda>x. CHR ''#'' \<notin> set x) [ev_type r, ev_subType r, ev_namespace r]) (inserted qs)"
  shows "distinct bs \<and> set bs = (\<lambda>r. (ev_type r, ev_subType r, ev_namespace r)) ` {r \<in> set (inserted qs). flagged de r}"
proof -
  define tx where "tx = snd (foldl (run_statement de) (rows, new_tx) qs)"
  have bs: "bs = broadcasts tx" using assms(1) by (auto simp: run_tx_def tx_def split: prod.splits)
  have "collects de [] (snd (rows, new_tx))" by (simp add: collects_def new_tx_def)
  from collects_run [OF this, of qs] have c: "collects de (inserted qs) tx" by (simp add: tx_def)
  have split: "split_combination (combination_key r) = (ev_type r, ev_subType r, ev_namespace r)" if "r \<in> set (inserted qs)" for r
    using assms(2) that by (intro split_combination_key) (auto simp: list_all_iff)
  have eq: "bs = map split_combination (tx_combinations tx)" using c by (auto simp: bs broadcasts_def collects_def)
  have set: "set (tx_combinations tx) = combination_key ` {r \<in> set (inserted qs). flagged de r}" using c by (simp add: collects_def)
  have "inj_on split_combination (set (tx_combinations tx))"
    by (auto simp: set inj_on_def split) (simp add: combination_key_def)
  then have "distinct bs" using c by (simp add: eq distinct_map collects_def)
  moreover have "set bs = (\<lambda>r. (ev_type r, ev_subType r, ev_namespace r)) ` {r \<in> set (inserted qs). flagged de r}"
    unfolding eq set_map set image_image using split by (intro image_cong) auto
  ultimately show ?thesis by blast
qed

subsection \<open>Witnesses\<close>

definition demo_de :: db_env where
  "demo_de = \<lparr>de_cf = demo_config\<lparr>cf_redisEnabled := True\<rparr>, de_collectMetrics = True\<rparr>"

definition demo_new :: "string \<Rightarrow> string \<Rightarrow> event_row" where
  "demo_new i ty = new_row i 5 ty ''S'' ''default'' None"

definition demo_statements :: "statement list" where
  "demo_statements = [Insert False [demo_new ''b'' ''T'', demo_new ''c'' ''T'', demo_new ''d'' ''U''], SetStatus [''a'', ''b''] InProgress, SetStatus [''a''] Done]"

definition demo_tx :: "(event_table \<times> hash_store) \<times> (string \<times> string \<times> string) list" where
  "demo_tx = run_tx demo_hash demo_de (Some ''t1'') demo_statements ([demo_new ''a'' ''T''],
     incrementCounters demo_hash (de_cf demo_de) (Some ''t1'') Pending 1 [])"


theorem broadcast_each_combination_once_witness:
  "snd demo_tx = [(''T'', ''S'', ''default''), (''U'', ''S'', ''default'')] \<and> distinct (snd demo_tx)"
proof -
  have h: "list_all (\<lambda>r. list_all (\<lambda>x. CHR ''#'' \<notin> set x) [ev_type r, ev_subType r, ev_namespace r]) (inserted demo_statements)"
    "snd demo_tx = [(''T'', ''S'', ''default''), (''U'', ''S'', ''default'')]" by code_simp+
  have "run_tx demo_hash demo_de (Some ''t1'') demo_statements ([demo_new ''a'' ''T''],
      incrementCounters demo_hash (de_cf demo_de) (Some ''t1'') Pending 1 []) = (fst demo_tx, snd demo_tx)"
    by (simp add: demo_tx_def)
  from broadcast_each_combination_once [OF this h(1)] h(2) show ?thesis by blast
qed

text \<open>An entry that is put back to open stays counted as running and is not counted as pending.\<close>

theorem reopened_entry_stays_running:
  "getTenantStats demo_hash (de_cf demo_de) (Some ''t1'')
     (snd (fst (run_tx demo_hash demo_de (Some ''t1'') [Insert False [demo_new ''a'' ''T''], SetStatus [''a''] InProgress, SetStatus [''a''] Open] ([], [])))) = (0, 1)"
  by code_simp

end
