(* ===== verification/PublishEvent.thy ===== *)
theory PublishEvent
  imports Common
begin

text \<open>
  \<open>src/publishEvent.js\<close>: events are checked one after the other, completed (payload and trace context
  as JSON, start date of the time bucket, namespace) and either inserted at once or collected on the
  transaction and inserted by one handler before the commit.

  An event is a JavaScript object; the transaction keeps the collected events, whether the handler is
  registered, and the \<open>INSERT\<close> statements sent so far.  The cron parser, \<open>Date.parse\<close>,
  \<open>Date.prototype.toString\<close> and the current trace context are parameters.

  Proved: a transaction that publishes in one mode inserts every event once and in order; events of
  an immediate publish are inserted a second time when another publish of the transaction is
  deferred; a payload arrives at the handler as it was published; a time bucket replaces an explicit
  start date.
\<close>

record publish_env =
  pe_cf :: config
  pe_initialized :: bool
  pe_insertBeforeCommit :: bool
  pe_trace :: jsval
  pe_bucketNext :: "string \<Rightarrow> time"
  pe_parseDate :: "string \<Rightarrow> time option"
  pe_dateStr :: "time \<Rightarrow> string"

record publish_options =
  po_skipBroadcast :: bool
  po_skipInsertEventsBeforeCommit :: bool
  po_addTraceContext :: bool
  po_allowNotExistingConfiguration :: bool

definition default_options :: publish_options where
  "default_options =
     \<lparr>po_skipBroadcast = False, po_skipInsertEventsBeforeCommit = False, po_addTraceContext = True,
      po_allowNotExistingConfiguration = False\<rparr>"

subsection \<open>Checking and completing an event\<close>

text \<open>\<open>config.getEventConfig\<close> with its default namespace.\<close>

definition config_of_event :: "config \<Rightarrow> event_obj \<Rightarrow> event_obj option" where
  "config_of_event cf e =
     (let ns = js_prop e ''namespace'' in
      obj_get (cf_eventMap cf)
        (generateKey (if ns = JUndef then JStr (cf_namespace cf) else ns) (js_prop e ''type'') (js_prop e ''subType'')))"

definition config_flag :: "event_obj option \<Rightarrow> string \<Rightarrow> jsval" where
  "config_flag ec k = (case ec of None \<Rightarrow> JUndef | Some c \<Rightarrow> js_prop c k)"

text \<open>\<open>JSON.stringify(undefined)\<close> is \<open>undefined\<close>.\<close>

definition payload_text :: "jsval \<Rightarrow> jsval" where
  "payload_text v = (case v of JStr s \<Rightarrow> v | JUndef \<Rightarrow> JUndef | _ \<Rightarrow> JStr (json v))"

definition set_payload :: "event_obj \<Rightarrow> event_obj" where
  "set_payload e =
     (case js_prop e ''payload'' of JStr s \<Rightarrow> e | v \<Rightarrow> obj_set ''payload'' (payload_text v) e)"

definition trace_context :: "jsval \<Rightarrow> string" where
  "trace_context tc = json (JObj [(''traceContext'', tc)])"

definition set_context :: "publish_env \<Rightarrow> publish_options \<Rightarrow> event_obj \<Rightarrow> event_obj" where
  "set_context pe po e =
     (if po_addTraceContext po then obj_set ''context'' (JStr (trace_context (pe_trace pe))) e else e)"

text \<open>\<open>!(startAfter in event)\<close>: the value of the start date is used as the name of a property.\<close>

definition set_bucket :: "publish_env \<Rightarrow> event_obj option \<Rightarrow> jsval \<Rightarrow> event_obj \<Rightarrow> event_obj" where
  "set_bucket pe ec startAfter e =
     (if truthy (config_flag ec ''timeBucket'') \<and> \<not> obj_has e (js_string (pe_dateStr pe) startAfter)
      then obj_set ''startAfter'' (JStr (toISOString (pe_bucketNext pe (key_part (config_flag ec ''timeBucket''))))) e
      else e)"

definition set_namespace :: "config \<Rightarrow> event_obj \<Rightarrow> event_obj" where
  "set_namespace cf e =
     (if js_prop e ''namespace'' = JUndef then obj_set ''namespace'' (JStr (cf_namespace cf)) e else e)"

definition prepare_event :: "publish_env \<Rightarrow> publish_options \<Rightarrow> event_obj \<Rightarrow> EventQueueError + event_obj" where
  "prepare_event pe po e =
     (let ty = js_prop e ''type''; sub = js_prop e ''subType''; startAfter = js_prop e ''startAfter'';
          ec = config_of_event (pe_cf pe) e in
      if ec = None \<and> \<not> po_allowNotExistingConfiguration po then Inl (unknownEventType ty sub)
      else if truthy startAfter \<and> \<not> isValidDate (pe_parseDate pe) startAfter then Inl (malformedDate startAfter)
      else if truthy (config_flag ec ''isPeriodic'') then Inl (manuelPeriodicEventInsert ty sub)
      else Inr (set_namespace (pe_cf pe) (set_bucket pe ec startAfter (set_context pe po (set_payload e)))))"

fun prepare_events :: "publish_env \<Rightarrow> publish_options \<Rightarrow> event_obj list \<Rightarrow> EventQueueError + event_obj list" where
  "prepare_events pe po [] = Inr []"
| "prepare_events pe po (e # es) =
     (case prepare_event pe po e of
        Inl err \<Rightarrow> Inl err
      | Inr e' \<Rightarrow> (case prepare_events pe po es of Inl err \<Rightarrow> Inl err | Inr es' \<Rightarrow> Inr (e' # es')))"

subsection \<open>Publishing\<close>

text \<open>\<open>px_queue\<close> is \<open>tx._eventQueue\<close>: the collected events and \<open>handlerRegistered\<close>; \<open>px_hooks\<close> are the
  handlers to run before the commit, each with its \<open>skipBroadcast\<close>; \<open>px_inserts\<close> are the \<open>INSERT\<close>
  statements sent, each with \<open>tx._skipEventQueueBroadcast\<close> at that time.\<close>

record publish_tx =
  px_queue :: "(event_obj list \<times> bool) option"
  px_hooks :: "bool list"
  px_inserts :: "(event_obj list \<times> bool) list"

definition new_publish_tx :: publish_tx where
  "new_publish_tx = \<lparr>px_queue = None, px_hooks = [], px_inserts = []\<rparr>"

definition addEventsToContext :: "event_obj list \<Rightarrow> publish_tx \<Rightarrow> publish_tx" where
  "addEventsToContext es px =
     (case px_queue px of
        None \<Rightarrow> px\<lparr>px_queue := Some (es, False)\<rparr>
      | Some (old, reg) \<Rightarrow> px\<lparr>px_queue := Some (old @ es, reg)\<rparr>)"

definition registerHandler :: "bool \<Rightarrow> publish_tx \<Rightarrow> publish_tx" where
  "registerHandler skipBroadcast px =
     (case px_queue px of
        Some (es, False) \<Rightarrow> px\<lparr>px_queue := Some (es, True), px_hooks := px_hooks px @ [skipBroadcast]\<rparr>
      | _ \<Rightarrow> px)"

definition deferred :: "publish_env \<Rightarrow> publish_options \<Rightarrow> bool" where
  "deferred pe po \<longleftrightarrow> pe_insertBeforeCommit pe \<and> \<not> po_skipInsertEventsBeforeCommit po"

definition publishEvent ::
  "publish_env \<Rightarrow> publish_options \<Rightarrow> event_obj list \<Rightarrow> publish_tx \<Rightarrow> EventQueueError + publish_tx" where
  "publishEvent pe po es px =
     (if \<not> pe_initialized pe then Inl notInitialized
      else case prepare_events pe po es of
             Inl err \<Rightarrow> Inl err
           | Inr es' \<Rightarrow>
               let px1 = addEventsToContext es' px in
               Inr (if deferred pe po then registerHandler (po_skipBroadcast po) px1
                    else px1\<lparr>px_inserts := px_inserts px1 @ [(es', po_skipBroadcast po)]\<rparr>))"

text \<open>The handler run before the commit.\<close>

definition commit_hook :: "publish_tx \<Rightarrow> bool \<Rightarrow> publish_tx" where
  "commit_hook px skipBroadcast =
     (case px_queue px of
        Some (e # es, reg) \<Rightarrow> px\<lparr>px_inserts := px_inserts px @ [(e # es, skipBroadcast)], px_queue := None\<rparr>
      | _ \<Rightarrow> px)"

definition commit_tx :: "publish_tx \<Rightarrow> publish_tx" where
  "commit_tx px = foldl commit_hook (px\<lparr>px_hooks := []\<rparr>) (px_hooks px)"

text \<open>Several calls in one transaction.\<close>

fun publish_all ::
  "publish_env \<Rightarrow> (publish_options \<times> event_obj list) list \<Rightarrow> publish_tx \<Rightarrow> EventQueueError + publish_tx" where
  "publish_all pe [] px = Inr px"
| "publish_all pe ((po, es) # cs) px =
     (case publishEvent pe po es px of Inl err \<Rightarrow> Inl err | Inr px' \<Rightarrow> publish_all pe cs px')"

definition sent_events :: "publish_tx \<Rightarrow> event_obj list" where
  "sent_events px = concat (map fst (px_inserts px))"

definition prepared :: "publish_env \<Rightarrow> (publish_options \<times> event_obj list) list \<Rightarrow> event_obj list" where
  "prepared pe cs = concat (map (\<lambda>(po, es). projr (prepare_events pe po es)) cs)"

subsection \<open>The row of an inserted event\<close>

definition text_column :: "jsval \<Rightarrow> string option" where
  "text_column v = (case v of JStr s \<Rightarrow> Some s | _ \<Rightarrow> None)"

definition date_column :: "(string \<Rightarrow> time option) \<Rightarrow> jsval \<Rightarrow> time option" where
  "date_column parse v = (case v of JStr s \<Rightarrow> parse s | JDate t \<Rightarrow> Some t | _ \<Rightarrow> None)"

definition value_column :: "jsval \<Rightarrow> jsval" where
  "value_column v = (if v = JUndef then JNull else v)"

definition num_column :: "jsval \<Rightarrow> int" where
  "num_column v = (case v of JNum n \<Rightarrow> n | _ \<Rightarrow> 0)"

definition inserted_row :: "(string \<Rightarrow> time option) \<Rightarrow> string \<Rightarrow> time \<Rightarrow> event_obj \<Rightarrow> event_row" where
  "inserted_row parse i now e =
     (new_row i now (key_part (js_prop e ''type'')) (key_part (js_prop e ''subType'')) (key_part (js_prop e ''namespace''))
        (date_column parse (js_prop e ''startAfter'')))
       \<lparr>ev_status := num_column (js_prop e ''status''), ev_attempts := num_column (js_prop e ''attempts''),
        ev_referenceEntity := text_column (js_prop e ''referenceEntity''),
        ev_referenceEntityKey := text_column (js_prop e ''referenceEntityKey''),
        ev_payload := value_column (js_prop e ''payload''), ev_context := value_column (js_prop e ''context'')\<rparr>"

subsection \<open>Lemmas\<close>

lemma set_payload_prop:
  "js_prop (set_payload e) k = (if k = ''payload'' then payload_text (js_prop e ''payload'') else js_prop e k)"
  by (auto simp: set_payload_def payload_text_def split: jsval.split)

lemma set_context_prop:
  "js_prop (set_context pe po e) k =
     (if k = ''context'' \<and> po_addTraceContext po then JStr (trace_context (pe_trace pe)) else js_prop e k)"
  by (simp add: set_context_def)

lemma set_bucket_prop: "k \<noteq> ''startAfter'' \<Longrightarrow> js_prop (set_bucket pe ec sa e) k = js_prop e k"
  by (simp add: set_bucket_def)

lemma set_namespace_prop:
  "js_prop (set_namespace cf e) k =
     (if k = ''namespace'' \<and> js_prop e ''namespace'' = JUndef then JStr (cf_namespace cf) else js_prop e k)"
  by (simp add: set_namespace_def)

lemmas publish_props = set_payload_prop set_context_prop set_bucket_prop set_namespace_prop

lemma prepare_eventD:
  assumes "prepare_event pe po e = Inr e'"
  shows "e' = set_namespace (pe_cf pe)
    (set_bucket pe (config_of_event (pe_cf pe) e) (js_prop e ''startAfter'') (set_context pe po (set_payload e)))"
  using assms by (auto simp: prepare_event_def Let_def split: if_splits)

lemma publishEvent_Inr:
  assumes "publishEvent pe po es px = Inr px'"
  obtains es' where "prepare_events pe po es = Inr es'"
    "px' = (if deferred pe po then registerHandler (po_skipBroadcast po) (addEventsToContext es' px)
            else (addEventsToContext es' px)\<lparr>px_inserts := px_inserts (addEventsToContext es' px) @ [(es', po_skipBroadcast po)]\<rparr>)"
  using assms by (auto simp: publishEvent_def Let_def split: if_splits sum.splits)

lemma addEventsToContext_simps [simp]:
  "px_hooks (addEventsToContext es px) = px_hooks px"
  "px_inserts (addEventsToContext es px) = px_inserts px"
  by (auto simp: addEventsToContext_def split: option.splits)

lemma publish_all_ConsE:
  assumes "publish_all pe ((po, es) # cs) px = Inr px'"
  obtains px1 where "publishEvent pe po es px = Inr px1" "publish_all pe cs px1 = Inr px'"
  using assms by (auto split: sum.splits)

lemma prepared_Cons: "prepare_events pe po es = Inr es' \<Longrightarrow> prepared pe ((po, es) # cs) = es' @ prepared pe cs"
  by (simp add: prepared_def)

text \<open>Immediate publishing sends the events of each call and registers no handler.\<close>

lemma publish_all_immediate:
  assumes "publish_all pe cs px = Inr px'" "\<forall>c\<in>set cs. \<not> deferred pe (fst c)" "px_hooks px = []"
  shows "px_hooks px' = [] \<and> sent_events px' = sent_events px @ prepared pe cs"
  using assms
proof (induction cs arbitrary: px)
  case Nil
  then show ?case by (simp add: prepared_def)
next
  case (Cons c cs)
  obtain po es where c: "c = (po, es)" by fastforce
  obtain px1 where px1: "publishEvent pe po es px = Inr px1" "publish_all pe cs px1 = Inr px'"
    using Cons.prems(1) publish_all_ConsE unfolding c by metis
  obtain es' where es': "prepare_events pe po es = Inr es'"
    "px1 = (addEventsToContext es' px)\<lparr>px_inserts := px_inserts (addEventsToContext es' px) @ [(es', po_skipBroadcast po)]\<rparr>"
    using publishEvent_Inr [OF px1(1)] Cons.prems(2) c by auto
  have "px_hooks px1 = []" "sent_events px1 = sent_events px @ es'"
    using es'(2) Cons.prems(3) by (simp_all add: sent_events_def)
  with Cons.IH [OF px1(2)] Cons.prems(2) show ?case
    by (simp add: c prepared_Cons [OF es'(1)])
qed

lemma publish_immediate_queue:
  assumes "publish_all pe cs px = Inr px'" "\<forall>c\<in>set cs. \<not> deferred pe (fst c)"
    and "px_queue px = None \<or> px_queue px = Some (qs, False)"
  shows "px_queue px' = (if cs = [] then px_queue px
    else Some ((if px_queue px = None then [] else qs) @ prepared pe cs, False))"
  using assms
proof (induction cs arbitrary: px qs)
  case (Cons c cs)
  obtain po es where c: "c = (po, es)" by fastforce
  obtain px1 where px1: "publishEvent pe po es px = Inr px1" "publish_all pe cs px1 = Inr px'"
    using Cons.prems(1) publish_all_ConsE unfolding c by metis
  obtain es' where es': "prepare_events pe po es = Inr es'"
    "px1 = (addEventsToContext es' px)\<lparr>px_inserts := px_inserts (addEventsToContext es' px) @ [(es', po_skipBroadcast po)]\<rparr>"
    using publishEvent_Inr [OF px1(1)] Cons.prems(2) c by auto
  have q: "px_queue px1 = Some ((if px_queue px = None then [] else qs) @ es', False)"
    using es'(2) Cons.prems(3) by (auto simp: addEventsToContext_def)
  with Cons.IH [OF px1(2) _ disjI2 [OF q]] Cons.prems(2) show ?case
    by (cases cs) (auto simp: c prepared_def es'(1))
qed simp

text \<open>Deferred publishing collects; the first call registers the only handler.\<close>

lemma publish_all_collects:
  assumes "publish_all pe cs px = Inr px'" "\<forall>c\<in>set cs. deferred pe (fst c)" "px_queue px = Some (qs, True)"
  shows "px_queue px' = Some (qs @ prepared pe cs, True) \<and> px_hooks px' = px_hooks px \<and> px_inserts px' = px_inserts px"
  using assms
proof (induction cs arbitrary: px qs)
  case Nil
  then show ?case by (simp add: prepared_def)
next
  case (Cons c cs)
  obtain po es where c: "c = (po, es)" by fastforce
  obtain px1 where px1: "publishEvent pe po es px = Inr px1" "publish_all pe cs px1 = Inr px'"
    using Cons.prems(1) publish_all_ConsE unfolding c by metis
  obtain es' where es': "prepare_events pe po es = Inr es'"
    "px1 = registerHandler (po_skipBroadcast po) (addEventsToContext es' px)"
    using publishEvent_Inr [OF px1(1)] Cons.prems(2) c by auto
  have px1': "px1 = px\<lparr>px_queue := Some (qs @ es', True)\<rparr>"
    using es'(2) Cons.prems(3) by (simp add: addEventsToContext_def registerHandler_def)
  with Cons.IH [OF px1(2), of "qs @ es'"] Cons.prems(2) show ?case
    by (simp add: c prepared_Cons [OF es'(1)])
qed

lemma publish_all_deferred:
  assumes "publish_all pe ((po, es) # cs) px = Inr px'" "\<forall>c\<in>set ((po, es) # cs). deferred pe (fst c)"
    and "px_queue px = None \<or> px_queue px = Some (qs, False)"
  shows "px_queue px' = Some ((if px_queue px = None then [] else qs) @ prepared pe ((po, es) # cs), True)
    \<and> px_hooks px' = px_hooks px @ [po_skipBroadcast po] \<and> px_inserts px' = px_inserts px"
proof -
  obtain px1 where px1: "publishEvent pe po es px = Inr px1" "publish_all pe cs px1 = Inr px'"
    using assms(1) publish_all_ConsE by metis
  obtain es' where es': "prepare_events pe po es = Inr es'"
    "px1 = registerHandler (po_skipBroadcast po) (addEventsToContext es' px)"
    using publishEvent_Inr [OF px1(1)] assms(2) by auto
  have px1': "px1 = px\<lparr>px_queue := Some ((if px_queue px = None then [] else qs) @ es', True),
      px_hooks := px_hooks px @ [po_skipBroadcast po]\<rparr>"
    using es'(2) assms(3) by (auto simp: addEventsToContext_def registerHandler_def)
  show ?thesis
    using publish_all_collects [OF px1(2), of "(if px_queue px = None then [] else qs) @ es'"] assms(2)
    by (simp add: px1' prepared_Cons [OF es'(1)])
qed

lemma commit_one_hook:
  assumes "px_queue px = Some (es, True)" "px_hooks px = [b]"
  shows "px_inserts (commit_tx px) = px_inserts px @ (if es = [] then [] else [(es, b)])"
  using assms by (cases es) (simp_all add: commit_tx_def commit_hook_def)

lemma commit_no_hook: "px_hooks px = [] \<Longrightarrow> px_inserts (commit_tx px) = px_inserts px"
  by (simp add: commit_tx_def)

text \<open>
  C28. A transaction whose publish calls are all deferred or all immediate sends, once it is committed,
  every published event exactly once and in the order of the calls; deferred events go out in at most
  one statement, with the broadcast setting of the first call.
\<close>

theorem publish_inserts_once:
  assumes "publish_all pe cs new_publish_tx = Inr px"
    and "(\<forall>c\<in>set cs. deferred pe (fst c)) \<or> (\<forall>c\<in>set cs. \<not> deferred pe (fst c))"
  shows "sent_events (commit_tx px) = prepared pe cs \<and> (cs \<noteq> [] \<and> deferred pe (fst (hd cs)) \<longrightarrow>
    set (px_inserts (commit_tx px)) \<subseteq> {(prepared pe cs, po_skipBroadcast (fst (hd cs)))})"
proof (cases "cs \<noteq> [] \<and> deferred pe (fst (hd cs))")
  case True
  then obtain po es cs' where cs: "cs = (po, es) # cs'" by (metis list.exhaust surj_pair)
  have "\<forall>c\<in>set ((po, es) # cs'). deferred pe (fst c)" using assms(2) True cs by auto
  from publish_all_deferred [OF assms(1) [unfolded cs] this, of "[]"]
  have "px_queue px = Some (prepared pe cs, True)" "px_hooks px = [po_skipBroadcast po]" "px_inserts px = []"
    by (simp_all add: new_publish_tx_def cs)
  from commit_one_hook [OF this(1,2)] this(3) show ?thesis by (auto simp: sent_events_def cs)
next
  case False
  then have "\<forall>c\<in>set cs. \<not> deferred pe (fst c)" using assms(2) by (cases cs) auto
  from publish_all_immediate [OF assms(1) this] show ?thesis using False
    by (auto simp: new_publish_tx_def sent_events_def commit_no_hook)
qed

text \<open>
  When an immediate publish is followed by a deferred one, the handler before the commit sends the
  events of the immediate publish a second time: they are collected on the transaction as well.
\<close>

theorem mixed_publish_inserts_twice:
  assumes "publish_all pe cs new_publish_tx = Inr px1" "cs \<noteq> []" "\<forall>c\<in>set cs. \<not> deferred pe (fst c)"
    and "publishEvent pe po es px1 = Inr px" "deferred pe po"
  shows "sent_events (commit_tx px) = prepared pe cs @ prepared pe cs @ prepared pe [(po, es)]"
proof -
  have q: "px_queue px1 = Some (prepared pe cs, False)"
    using publish_immediate_queue [OF assms(1,3)] assms(2) by (simp add: new_publish_tx_def)
  from publish_all_immediate [OF assms(1,3)]
  have h: "px_hooks px1 = []" "sent_events px1 = prepared pe cs"
    by (simp_all add: new_publish_tx_def sent_events_def)
  have "publish_all pe [(po, es)] px1 = Inr px" using assms(4) by simp
  from publish_all_deferred [OF this _ disjI2 [OF q]] assms(5) q h
  have "px_queue px = Some (prepared pe cs @ prepared pe [(po, es)], True)" "px_hooks px = [po_skipBroadcast po]"
    "px_inserts px = px_inserts px1" by simp_all
  from commit_one_hook [OF this(1,2)] this(3) h(2) show ?thesis by (auto simp: sent_events_def)
qed

text \<open>
  A payload survives the way through the queue: whatever value is published, the handler that
  processes the claimed entry gets it back, provided \<open>JSON.parse\<close> reads what \<open>JSON.stringify\<close>
  writes; a string that is no JSON text arrives unchanged, and no payload arrives as the empty string.
\<close>

theorem published_payload_reaches_handler:
  assumes "prepare_event pe po e = Inr e'"
    and "js_prop e ''payload'' = v"
    and "case v of JStr s \<Rightarrow> pf_parseJson pf s = None | JUndef \<Rightarrow> pf_parseJson pf [] = None
         | _ \<Rightarrow> pf_parseJson pf (json v) = Some v"
  shows "ev_payload (modifyQueueEntry pf (claim_entry now (inserted_row (pf_parseDate pf) i t e')))
     = (if v = JUndef then JStr [] else v)"
proof -
  have "js_prop e' ''payload'' = payload_text v"
    using prepare_eventD [OF assms(1)] assms(2) by (simp add: publish_props)
  then have "ev_payload (inserted_row (pf_parseDate pf) i t e') = value_column (payload_text v)"
    by (simp add: inserted_row_def)
  then show ?thesis using assms(3)
    by (cases v) (simp_all add: modifyQueueEntry_def claim_entry_def parse_or_keep_def payload_text_def value_column_def)
qed

text \<open>
  A time bucket replaces a start date the publisher gave: the test reads a property named like the
  date, which an event does not have.
\<close>

theorem time_bucket_replaces_startAfter:
  assumes "prepare_event pe po e = Inr e'" "config_of_event (pe_cf pe) e = Some c"
    and "js_prop c ''timeBucket'' = JStr b" "b \<noteq> []"
    and "js_prop e ''startAfter'' = JStr d" "d \<notin> set (obj_keys e) \<union> {''payload'', ''context''}"
  shows "js_prop e' ''startAfter'' = JStr (toISOString (pe_bucketNext pe b))"
proof -
  have "obj_get e d = None" using assms(6) by (auto simp: map_of_eq_None_iff)
  then have "obj_get (set_context pe po (set_payload e)) d = None"
    using assms(6) by (simp add: set_context_def set_payload_def split: jsval.split)
  then have "js_prop (set_bucket pe (Some c) (JStr d) (set_context pe po (set_payload e))) ''startAfter''
      = JStr (toISOString (pe_bucketNext pe b))"
    using assms(3,4) by (simp add: set_bucket_def config_flag_def key_part_def join_part_def)
  then show ?thesis
    using prepare_eventD [OF assms(1)] assms(2,5) by (simp add: publish_props)
qed

subsection \<open>Examples\<close>

definition demo_publish_cfg :: config where
  "demo_publish_cfg = demo_config\<lparr>cf_namespace := ''default'',
     cf_eventMap := [(''default##Mail##single'', [(''type'', JStr ''Mail''), (''subType'', JStr ''single'')]),
                     (''default##Mail##bulk'', [(''type'', JStr ''Mail''), (''timeBucket'', JStr ''* * * * *'')])]\<rparr>"

definition demo_pe :: publish_env where
  "demo_pe = \<lparr>pe_cf = demo_publish_cfg, pe_initialized = True, pe_insertBeforeCommit = True, pe_trace = JUndef,
     pe_bucketNext = (\<lambda>c. 60000), pe_parseDate = (\<lambda>s. if s = ''2024'' then Some 7 else None), pe_dateStr = (\<lambda>t. [])\<rparr>"

definition demo_mail :: "string \<Rightarrow> jsval \<Rightarrow> event_obj" where
  "demo_mail sub v = [(''type'', JStr ''Mail''), (''subType'', JStr sub), (''payload'', v)]"

definition demo_calls :: "(publish_options \<times> event_obj list) list" where
  "demo_calls = [(default_options, [demo_mail ''single'' (JNum 1), demo_mail ''single'' (JNum 2)]),
                 (default_options\<lparr>po_skipBroadcast := True\<rparr>, [demo_mail ''bulk'' (JNum 3)])]"

definition demo_published :: publish_tx where
  "demo_published = projr (publish_all demo_pe demo_calls new_publish_tx)"

theorem publish_inserts_once_witness:
  "map (\<lambda>e. js_prop e ''payload'') (sent_events (commit_tx demo_published)) = [JStr ''1'', JStr ''2'', JStr ''3'']"
proof -
  have "publish_all demo_pe demo_calls new_publish_tx = Inr demo_published" by code_simp
  moreover have "\<forall>c\<in>set demo_calls. deferred demo_pe (fst c)" by code_simp
  ultimately have "sent_events (commit_tx demo_published) = prepared demo_pe demo_calls"
    using publish_inserts_once [of demo_pe demo_calls demo_published] by blast
  moreover have "map (\<lambda>e. js_prop e ''payload'') (prepared demo_pe demo_calls) = [JStr ''1'', JStr ''2'', JStr ''3'']"
    by code_simp
  ultimately show ?thesis by simp
qed

definition demo_order :: jsval where
  "demo_order = JObj [(''id'', JNum 4)]"

definition demo_json_pf :: platform where
  "demo_json_pf = demo_pf\<lparr>pf_parseJson := (\<lambda>s. if s = json demo_order then Some demo_order else None)\<rparr>"

theorem published_payload_reaches_handler_witness:
  "ev_payload (modifyQueueEntry demo_json_pf (claim_entry 9 (inserted_row (pf_parseDate demo_json_pf) ''i1'' 5
     (projr (prepare_event demo_pe default_options (demo_mail ''single'' demo_order)))))) = demo_order"
proof -
  have "prepare_event demo_pe default_options (demo_mail ''single'' demo_order)
      = Inr (projr (prepare_event demo_pe default_options (demo_mail ''single'' demo_order)))" by code_simp
  from published_payload_reaches_handler [OF this refl, of demo_json_pf 9 "''i1''" 5]
  show ?thesis by (simp add: demo_mail_def demo_order_def demo_json_pf_def)
qed

end
