(* ===== verification/Broadcast.thy ===== *)
theory Broadcast
  imports Common KeepAlive WorkerQueue
begin

text \<open>
  How instances tell each other to process an event type: \<open>src/redis/redisPub.js\<close> publishes a message per
  combination of type, subtype and namespace, \<open>src/redis/redisSub.js\<close> receives it and
  \<open>src/runner/runnerHelper.js\<close> puts the run into the worker queue, guarded by a lock named after the
  message.

  Messages carry their data as JSON text; \<open>JSON.parse\<close>, fresh ids and the connection to a service are
  parameters.  The locks the publisher sees while it waits are a function of the time, since other
  instances change them.  A run is a request, a record of its arguments.  Tracing is left out.

  Proved: every configured combination that is not locked is published exactly once and, received by
  an instance that may process it, becomes a request for the same tenant and combination; of several
  instances that receive a message only one processes; the lock the publisher looks at is not the one
  a run holds.
\<close>

definition EVENT_MESSAGE_CHANNEL :: string where "EVENT_MESSAGE_CHANNEL = ''EVENT_QUEUE_MESSAGE_CHANNEL''"
definition TRIES_FOR_PUBLISH_PERIODIC_EVENT :: nat where "TRIES_FOR_PUBLISH_PERIODIC_EVENT = 10"
definition SLEEP_TIME_FOR_PUBLISH_PERIODIC_EVENT :: int where "SLEEP_TIME_FOR_PUBLISH_PERIODIC_EVENT = 30 * 1000"

type_synonym combo = "string \<times> string \<times> string" \<comment> \<open>type, subtype, namespace\<close>

record message =
  ms_channel :: string
  ms_data :: string

record run_request =
  rr_tenant :: tenant
  rr_combo :: combo
  rr_lockId :: "string option"

text \<open>What the publisher depends on: \<open>be_locks t\<close> are the locks at time \<open>t\<close>, \<open>be_uuid n\<close> the id of the
  n-th message.\<close>

record 'r broadcast_env =
  be_cf :: config
  be_active :: bool
  be_registered :: bool
  be_filter :: tenant_filter
  be_redis :: "'r redis"
  be_locks :: "time \<Rightarrow> 'r locks"
  be_uuid :: "nat \<Rightarrow> string"

subsection \<open>Publishing\<close>

definition channel_of :: "string \<Rightarrow> string" where
  "channel_of ns = join hash_sep [ns, EVENT_MESSAGE_CHANNEL]"

definition tenant_val :: "tenant \<Rightarrow> jsval" where
  "tenant_val t = (case t of None \<Rightarrow> JNull | Some x \<Rightarrow> JStr x)"

definition message_value :: "string \<Rightarrow> tenant \<Rightarrow> combo \<Rightarrow> jsval" where
  "message_value lockId t c =
     (case c of (ty, sub, ns) \<Rightarrow>
        JObj [(''lockId'', JStr lockId), (''tenantId'', tenant_val t), (''type'', JStr ty), (''subType'', JStr sub),
              (''namespace'', JStr ns)])"

definition new_message :: "string \<Rightarrow> tenant \<Rightarrow> combo \<Rightarrow> message" where
  "new_message lockId t c =
     \<lparr>ms_channel = channel_of (snd (snd c)), ms_data = json (message_value lockId t c)\<rparr>"

definition combo_key :: "combo \<Rightarrow> string" where
  "combo_key c = (case c of (ty, sub, ns) \<Rightarrow> join hash_sep [ns, ty, sub])"

definition combo_cfg :: "config \<Rightarrow> combo \<Rightarrow> event_obj option" where
  "combo_cfg cf c = (case c of (ty, sub, ns) \<Rightarrow> getEventConfig ty sub ns cf)"

text \<open>Whether the publisher finds the combination locked.\<close>

definition seen_locked :: "'r broadcast_env \<Rightarrow> tenant \<Rightarrow> event_obj \<Rightarrow> combo \<Rightarrow> time \<Rightarrow> bool" where
  "seen_locked be t e c now \<longleftrightarrow>
     \<not> truthy (js_prop e ''multiInstanceProcessing'')
     \<and> checkLockExists (be_redis be) (be_cf be) now t (combo_key c) True (be_locks be now)"

text \<open>The tries of one combination, from the given time: the time of the publication, if any, and when the
  loop ends.\<close>

fun publish_tries :: "nat \<Rightarrow> 'r broadcast_env \<Rightarrow> tenant \<Rightarrow> bool \<Rightarrow> event_obj \<Rightarrow> combo \<Rightarrow> time \<Rightarrow> bool \<times> time" where
  "publish_tries 0 be t force e c now = (False, now)"
| "publish_tries (Suc n) be t force e c now =
     (if seen_locked be t e c now
      then if \<not> truthy (js_prop e ''isPeriodic'') \<and> \<not> force then (False, now)
           else publish_tries n be t force e c (now + SLEEP_TIME_FOR_PUBLISH_PERIODIC_EVENT)
      else (True, now))"

fun publish_combos ::
  "'r broadcast_env \<Rightarrow> tenant \<Rightarrow> bool \<Rightarrow> combo list \<Rightarrow> time \<Rightarrow> nat \<Rightarrow> (time \<times> message) list" where
  "publish_combos be t force [] now n = []"
| "publish_combos be t force (c # cs) now n =
     (case combo_cfg (be_cf be) c of
        None \<Rightarrow> publish_combos be t force cs now n
      | Some e \<Rightarrow>
          (case publish_tries TRIES_FOR_PUBLISH_PERIODIC_EVENT be t force e c now of
             (True, at) \<Rightarrow> (at, new_message (be_uuid be n) t c) # publish_combos be t force cs at (Suc n)
           | (False, at) \<Rightarrow> publish_combos be t force cs at n))"

definition processLocalWithoutRedis :: "'r broadcast_env \<Rightarrow> tenant \<Rightarrow> combo list \<Rightarrow> run_request list" where
  "processLocalWithoutRedis be t cs =
     (if be_registered be
      then map (\<lambda>c. \<lparr>rr_tenant = t, rr_combo = c, rr_lockId = None\<rparr>)
             (filter (\<lambda>(ty, sub, ns). shouldProcessNamespace ns (be_cf be)) cs)
      else [])"

text \<open>The messages published with their times, and the runs started locally.\<close>

definition broadcastEvent ::
  "'r broadcast_env \<Rightarrow> tenant \<Rightarrow> bool \<Rightarrow> combo list \<Rightarrow> time \<Rightarrow> (time \<times> message) list \<times> run_request list" where
  "broadcastEvent be t force cs now =
     (if \<not> be_active be then ([], [])
      else if \<not> cf_redisEnabled (be_cf be)
      then ([], if isTenantIdValidCb None (be_filter be) EventProcessing t then processLocalWithoutRedis be t cs else [])
      else (publish_combos be t force cs now 0, []))"

subsection \<open>Receiving\<close>

text \<open>\<open>se_connect srv\<close>: the options of the service, \<open>None\<close> when there is none or the connection fails.\<close>

record sub_env =
  se_parse :: "string \<Rightarrow> jsval option"
  se_filter :: tenant_filter
  se_active :: bool
  se_ce :: config_env
  se_connect :: "string \<Rightarrow> jsval option"

definition subscribed_channels :: "config \<Rightarrow> string list" where
  "subscribed_channels cf = (if cf_redisEnabled cf then map channel_of (cf_processingNamespaces cf) else [])"

text \<open>The configuration a message may add for a CAP service that has none; \<open>None\<close>: the event is not
  processed.\<close>

definition ensure_config :: "sub_env \<Rightarrow> combo \<Rightarrow> config \<Rightarrow> config option" where
  "ensure_config sv c cf =
     (case c of (ty, sub, ns) \<Rightarrow>
        if getEventConfig ty sub ns cf \<noteq> None then Some cf
        else if \<not> isCapOutboxEvent ty then None
        else let st = normalizeSubType cf ty sub in
             (case Option.bind (st_srvName st) (se_connect sv) of
                None \<Rightarrow> None
              | Some srvOptions \<Rightarrow>
                  if st_actionName st \<noteq> None then None
                  else (case addCAPServiceWithoutEnvConfig (se_ce sv) sub srvOptions [] cf of
                          Inl err \<Rightarrow> None | Inr cf' \<Rightarrow> Some cf')))"

definition accepts :: "sub_env \<Rightarrow> combo \<Rightarrow> config \<Rightarrow> bool" where
  "accepts sv c cf =
     (case c of (ty, sub, ns) \<Rightarrow>
        getEventConfig ty sub ns cf \<noteq> None \<and> shouldBeProcessedInThisApplication (se_ce sv) cf ty sub ns = Some True)"

text \<open>The fields of a parsed message; type, subtype and namespace are strings in every message the publisher
  writes, another message is not processed.\<close>

definition message_fields :: "jsval \<Rightarrow> (string option \<times> tenant \<times> combo) option" where
  "message_fields v =
     (case (opt_get v ''type'', opt_get v ''subType'', opt_get v ''namespace'') of
        (JStr ty, JStr sub, JStr ns) \<Rightarrow>
          Some (case opt_get v ''lockId'' of JStr l \<Rightarrow> (if l = [] then None else Some l) | _ \<Rightarrow> None,
                case opt_get v ''tenantId'' of JStr t \<Rightarrow> Some t | _ \<Rightarrow> None, ty, sub, ns)
      | _ \<Rightarrow> None)"

definition messageHandlerProcessEvents :: "sub_env \<Rightarrow> string \<Rightarrow> config \<Rightarrow> config \<times> run_request option" where
  "messageHandlerProcessEvents sv messageData cf =
     (case Option.bind (se_parse sv messageData) message_fields of
        None \<Rightarrow> (cf, None)
      | Some (lockId, t, c) \<Rightarrow>
          if \<not> isTenantIdValidCb None (se_filter sv) EventProcessing t then (cf, None)
          else if \<not> se_active sv then (cf, None)
          else (case ensure_config sv c cf of
                  None \<Rightarrow> (cf, None)
                | Some cf' \<Rightarrow>
                    if \<not> accepts sv c cf' then (cf', None)
                    else (cf', Some \<lparr>rr_tenant = t, rr_combo = c, rr_lockId = lockId\<rparr>)))"

subsection \<open>Running\<close>

text \<open>\<open>runEventCombinationForTenant\<close>: the run is started at once, queued, or fails and is only logged.
  The load is a number and the priority a string, other values are not followed.\<close>

datatype run_start = Started | Queued worker_queue | NotStarted

definition runEventCombinationForTenant ::
  "config \<Rightarrow> bool \<Rightarrow> run_request \<Rightarrow> nat \<Rightarrow> int \<Rightarrow> worker_queue \<Rightarrow> run_start" where
  "runEventCombinationForTenant cf skipWorkerPool rr cbId hrtime q =
     (if skipWorkerPool then Started
      else case combo_cfg cf (rr_combo rr) of
             None \<Rightarrow> NotStarted
           | Some e \<Rightarrow>
               (case (js_prop e ''load'', js_prop e ''priority'') of
                  (JNum ld, JStr prio) \<Rightarrow>
                    (case addToQueue ld (fst (rr_combo rr) @ ''_'' @ fst (snd (rr_combo rr))) (Some prio)
                            (truthy (js_prop e ''increasePriorityOverTime'')) cbId hrtime q of
                       Inl err \<Rightarrow> NotStarted
                     | Inr q' \<Rightarrow> Queued q')
                | _ \<Rightarrow> NotStarted))"

text \<open>The callback in the worker queue: whether \<open>processEventQueue\<close> is called.\<close>

definition exec_combination ::
  "'r redis \<Rightarrow> config \<Rightarrow> int \<Rightarrow> time \<Rightarrow> event_obj \<Rightarrow> run_request \<Rightarrow> 'r locks \<Rightarrow> 'r locks \<times> bool" where
  "exec_combination rd cf globalTxTimeout now e rr ls =
     (case rr_lockId rr of
        Some lockId \<Rightarrow>
          if truthy (js_prop e ''multiInstanceProcessing'') then (ls, True)
          else acquireLock rd cf now (rr_tenant rr) lockId True globalTxTimeout False False ls
      | None \<Rightarrow> (ls, True))"

subsection \<open>Lemmas\<close>

definition configured :: "config \<Rightarrow> combo list \<Rightarrow> combo list" where
  "configured cf cs = filter (\<lambda>c. combo_cfg cf c \<noteq> None) cs"

definition never_locked :: "'r broadcast_env \<Rightarrow> tenant \<Rightarrow> combo \<Rightarrow> bool" where
  "never_locked be t c \<longleftrightarrow> (\<forall>e now. combo_cfg (be_cf be) c = Some e \<longrightarrow> \<not> seen_locked be t e c now)"

lemma publish_tries_free: "0 < n \<Longrightarrow> \<not> seen_locked be t e c now \<Longrightarrow> publish_tries n be t force e c now = (True, now)"
  by (cases n) simp_all

lemma publish_combos_free:
  "list_all (never_locked be t) cs \<Longrightarrow>
     publish_combos be t force cs now n
     = map (\<lambda>(i, c). (now, new_message (be_uuid be i) t c)) (enumerate n (configured (be_cf be) cs))"
proof (induction cs arbitrary: n)
  case (Cons c cs)
  then show ?case
    by (cases "combo_cfg (be_cf be) c")
      (simp_all add: configured_def never_locked_def publish_tries_free TRIES_FOR_PUBLISH_PERIODIC_EVENT_def)
qed (simp add: configured_def)

lemma publish_tries_bound:
  "publish_tries n be t force e c now = (r, at) \<Longrightarrow>
     now \<le> at \<and> at \<le> now + int n * SLEEP_TIME_FOR_PUBLISH_PERIODIC_EVENT"
proof (induction n arbitrary: now)
  case (Suc n)
  have pos: "0 \<le> SLEEP_TIME_FOR_PUBLISH_PERIODIC_EVENT" by (simp add: SLEEP_TIME_FOR_PUBLISH_PERIODIC_EVENT_def)
  have "int (Suc n) * SLEEP_TIME_FOR_PUBLISH_PERIODIC_EVENT
      = int n * SLEEP_TIME_FOR_PUBLISH_PERIODIC_EVENT + SLEEP_TIME_FOR_PUBLISH_PERIODIC_EVENT"
    by (simp add: algebra_simps)
  with Suc.IH [of "now + SLEEP_TIME_FOR_PUBLISH_PERIODIC_EVENT"] Suc.prems pos show ?case
    by (auto split: if_splits)
qed simp

lemma message_fields_value:
  "l \<noteq> [] \<Longrightarrow> message_fields (message_value l t c) = Some (Some l, t, c)"
  by (cases c; cases t) (simp_all add: message_fields_def message_value_def opt_get_def tenant_val_def)

lemma handler_accepts:
  assumes "se_parse sv (json (message_value l t c)) = Some (message_value l t c)" "l \<noteq> []"
    and "isTenantIdValidCb None (se_filter sv) EventProcessing t" "se_active sv" "accepts sv c cf"
  shows "messageHandlerProcessEvents sv (json (message_value l t c)) cf = (cf, Some \<lparr>rr_tenant = t, rr_combo = c, rr_lockId = Some l\<rparr>)"
proof -
  obtain ty sub ns where c: "c = (ty, sub, ns)" by (metis surj_pair)
  have "ensure_config sv c cf = Some cf" using assms(5) by (simp add: ensure_config_def accepts_def c)
  then show ?thesis using assms by (simp add: messageHandlerProcessEvents_def message_fields_value)
qed

text \<open>
  Publishing and receiving compose: with Redis, every configured combination that is not locked is
  published exactly once, in order and on the channel of its namespace, and an instance that accepts
  the combination makes of each message the request to process this combination for this tenant,
  under the lock of the message.
\<close>

theorem broadcast_is_received:
  assumes "be_active be" "cf_redisEnabled (be_cf be)" "list_all (never_locked be t) cs"
    and "isTenantIdValidCb None (se_filter sv) EventProcessing t" "se_active sv"
    and "list_all (\<lambda>(i, c). be_uuid be i \<noteq> [] \<and> accepts sv c cf
           \<and> se_parse sv (json (message_value (be_uuid be i) t c)) = Some (message_value (be_uuid be i) t c))
         (enumerate 0 (configured (be_cf be) cs))"
  shows "map (\<lambda>(at, m). (ms_channel m, messageHandlerProcessEvents sv (ms_data m) cf)) (fst (broadcastEvent be t force cs now))
    = map (\<lambda>(i, c). (channel_of (snd (snd c)), cf, Some \<lparr>rr_tenant = t, rr_combo = c, rr_lockId = Some (be_uuid be i)\<rparr>))
        (enumerate 0 (configured (be_cf be) cs))"
proof -
  have "fst (broadcastEvent be t force cs now)
      = map (\<lambda>(i, c). (now, new_message (be_uuid be i) t c)) (enumerate 0 (configured (be_cf be) cs))"
    by (simp add: broadcastEvent_def assms(1,2) publish_combos_free [OF assms(3)])
  moreover have "messageHandlerProcessEvents sv (json (message_value (be_uuid be i) t c)) cf
      = (cf, Some \<lparr>rr_tenant = t, rr_combo = c, rr_lockId = Some (be_uuid be i)\<rparr>)"
    if "(i, c) \<in> set (enumerate 0 (configured (be_cf be) cs))" for i c
    using that assms(6) by (intro handler_accepts assms(4,5)) (auto simp: list_all_iff)
  ultimately show ?thesis by (auto simp: new_message_def)
qed


text \<open>
  The publisher does not notice a running instance: the lock it looks for carries the publishing
  namespace in its key, the lock a run holds does not.  While a run holds the processing lock, a
  broadcast of its event type is published at once.
\<close>

theorem broadcast_ignores_processing_lock:
  assumes "cf_redisEnabled (be_cf be)" "redis_laws (be_redis be)" "be_active be" "cf_namespace (be_cf be) \<noteq> []"
    and "combo_cfg (be_cf be) c = Some e" "c = (p_type p, p_subType p, ec_namespace (p_cfg p))"
    and "\<not> checkLockExists (be_redis be) (be_cf be) now (p_tenant p) (combo_key c) True ls"
    and "acquireDistributedLock (be_redis be) (be_cf be) t0 (p, ls) = ((p1, ls1), True)" "be_locks be now = ls1"
  shows "fst (broadcastEvent be (p_tenant p) False [c] now) = [(now, new_message (be_uuid be 0) (p_tenant p) c)]"
proof -
  let ?cf = "be_cf be" and ?rd = "be_redis be"
  let ?seen = "lock_key ?cf (p_tenant p) True (combo_key c) False" and ?held = "processing_key ?cf p"
  have "length ?seen > length ?held"
    using assms(4) by (simp add: assms(6) combo_key_def lock_key_def redisNamespace_def REDIS_PREFIX_def)
  then have ne: "?seen \<noteq> ?held" by auto
  have "rd_get ?rd now ?seen (lo_redis ls1) = rd_get ?rd now ?seen (lo_redis ls)"
  proof (cases "ec_multiInstanceProcessing (p_cfg p)")
    case True
    then show ?thesis using assms(8) by (simp add: acquireDistributedLock_def)
  next
    case False
    then have "ls1 = fst (acquire_full ?rd ?cf t0 (p_tenant p) ?held (keepAliveMaxMs p) None False True ls)"
      using assms(8) by (auto simp: acquireDistributedLock_def acquireLock_def split: prod.splits if_splits)
    then show ?thesis using redis_lawsD(3) [OF assms(2)] ne by (simp add: acquire_full_redis assms(1))
  qed
  then have "\<not> seen_locked be (p_tenant p) e c now"
    using assms(1,7,9) by (simp add: seen_locked_def checkLockExists_def getValue_def Let_def)
  then show ?thesis
    using assms(1,3,5) by (simp add: broadcastEvent_def publish_tries_free TRIES_FOR_PUBLISH_PERIODIC_EVENT_def)
qed

subsection \<open>Witnesses\<close>

definition demo_combo :: combo where
  "demo_combo = (''T'', ''S'', ''default'')"

definition demo_bc_cfg :: config where
  "demo_bc_cfg = demo_redis_cfg\<lparr>cf_eventMap := [(combo_key demo_combo, [(''type'', JStr ''T''), (''subType'', JStr ''S'')])]\<rparr>"

definition demo_be :: "redis_store locks \<Rightarrow> redis_store broadcast_env" where
  "demo_be ls = \<lparr>be_cf = demo_bc_cfg, be_active = True, be_registered = True, be_filter = None, be_redis = demo_redis,
     be_locks = (\<lambda>t. ls), be_uuid = (\<lambda>n. ''id'' @ show_nat n)\<rparr>"

definition demo_sv :: sub_env where
  "demo_sv = \<lparr>se_parse = (\<lambda>s. let v = message_value ''id0'' (Some ''t1'') demo_combo in if s = json v then Some v else None),
     se_filter = None, se_active = True, se_ce = demo_ce, se_connect = (\<lambda>srv. None)\<rparr>"

lemma demo_be_free: "never_locked (demo_be demo_locks) t c"
  by (simp add: never_locked_def seen_locked_def demo_be_def checkLockExists_def getValue_def Let_def demo_bc_cfg_def
      demo_redis_cfg_def demo_locks_def demo_redis_def store_get_def)

theorem broadcast_is_received_witness:
  "map (\<lambda>x. snd (messageHandlerProcessEvents demo_sv (ms_data (snd x)) demo_bc_cfg))
     (fst (broadcastEvent (demo_be demo_locks) (Some ''t1'') False [(''X'', ''Y'', ''default''), demo_combo] 5))
   = [Some \<lparr>rr_tenant = Some ''t1'', rr_combo = demo_combo, rr_lockId = Some ''id0''\<rparr>]"
proof -
  let ?be = "demo_be demo_locks" and ?cs = "[(''X'', ''Y'', ''default''), demo_combo]"
  have h: "be_active ?be" "cf_redisEnabled (be_cf ?be)" "isTenantIdValidCb None (se_filter demo_sv) EventProcessing (Some ''t1'')"
    "se_active demo_sv"
    "list_all (\<lambda>(i, c). be_uuid ?be i \<noteq> [] \<and> accepts demo_sv c demo_bc_cfg
        \<and> se_parse demo_sv (json (message_value (be_uuid ?be i) (Some ''t1'') c)) = Some (message_value (be_uuid ?be i) (Some ''t1'') c))
      (enumerate 0 (configured (be_cf ?be) ?cs))" by code_simp+
  have free: "list_all (never_locked ?be (Some ''t1'')) ?cs" by (simp add: demo_be_free)
  have "enumerate 0 (configured (be_cf ?be) ?cs) = [(0, demo_combo)]" "be_uuid ?be 0 = ''id0''" by code_simp+
  then show ?thesis
    using arg_cong [OF broadcast_is_received [OF h(1,2) free h(3,4,5), of False 5], of "map (snd \<circ> snd)"]
    by (simp add: o_def split_beta)
qed

definition demo_rr :: run_request where
  "demo_rr = \<lparr>rr_tenant = Some ''t1'', rr_combo = demo_combo, rr_lockId = Some ''id0''\<rparr>"

definition demo_first :: "redis_store locks" where
  "demo_first = fst (exec_combination demo_redis demo_bc_cfg 100 5 [] demo_rr demo_locks)"


definition demo_held :: "(processor \<times> redis_store locks) \<times> bool" where
  "demo_held = acquireDistributedLock demo_redis demo_bc_cfg 5 (demo_proc, demo_locks)"

theorem broadcast_ignores_processing_lock_witness:
  "snd demo_held \<and> map fst (fst (broadcastEvent (demo_be (snd (fst demo_held))) (Some ''t1'') False [demo_combo] 50)) = [50]"
proof -
  let ?be = "demo_be (snd (fst demo_held))"
  have h: "cf_redisEnabled (be_cf ?be)" "be_active ?be" "cf_namespace (be_cf ?be) \<noteq> []"
    "combo_cfg (be_cf ?be) demo_combo = Some [(''type'', JStr ''T''), (''subType'', JStr ''S'')]"
    "demo_combo = (p_type demo_proc, p_subType demo_proc, ec_namespace (p_cfg demo_proc))"
    "\<not> checkLockExists (be_redis ?be) (be_cf ?be) 50 (p_tenant demo_proc) (combo_key demo_combo) True demo_locks"
    "snd demo_held" "p_tenant demo_proc = Some ''t1''" by code_simp+
  have "acquireDistributedLock (be_redis ?be) (be_cf ?be) 5 (demo_proc, demo_locks) = demo_held"
    by (simp add: demo_held_def demo_be_def)
  also have "demo_held = ((fst (fst demo_held), snd (fst demo_held)), True)" using h(7) by (simp add: prod_eq_iff)
  finally have "acquireDistributedLock (be_redis ?be) (be_cf ?be) 5 (demo_proc, demo_locks)
      = ((fst (fst demo_held), snd (fst demo_held)), True)" .
  from broadcast_ignores_processing_lock [OF h(1) _ h(2-6) this] demo_redis_laws h(7,8) show ?thesis
    by (simp add: demo_be_def)
qed

end
