(* ===== verification/Housekeeping.thy ===== *)
theory Housekeeping
  imports Config Database
begin

text \<open>
  \<open>src/housekeeping/EventQueueDeleteEvents.js\<close>: the periodic event that deletes old entries, grouped by
  the number of days after which their event is to be deleted.

  Proved: what exactly is deleted and what is kept; a period of zero days, which is documented as
  never, means seven days.
\<close>

definition DELETE_DEFAULT_PERIOD_IN_DAYS :: int where "DELETE_DEFAULT_PERIOD_IN_DAYS = 7"
definition DAY_IN_MS :: int where "DAY_IN_MS = 24 * 60 * 60 * 1000"

text \<open>\<open>event.deleteFinishedEventsAfterDays\<close> after the default was set on the event itself.\<close>

definition delete_days :: "event_obj \<Rightarrow> jsval" where
  "delete_days e =
     (let d = js_prop e ''deleteFinishedEventsAfterDays'' in if truthy d then d else JNum DELETE_DEFAULT_PERIOD_IN_DAYS)"

definition deleteByDaysMap :: "config \<Rightarrow> event_obj list jsobj" where
  "deleteByDaysMap cf =
     foldl (\<lambda>m e. let k = key_part (delete_days e) in
              obj_set k ((case obj_get m k of None \<Rightarrow> [] | Some es \<Rightarrow> es) @ [e]) m) [] (events cf @ periodicEvents cf)"

definition names_of :: "event_obj \<Rightarrow> string \<times> string" where
  "names_of e = (key_part (js_prop e ''type''), key_part (js_prop e ''subType''))"

text \<open>The condition of one \<open>DELETE\<close>; \<open>None\<close>: the date cannot be computed and the statement throws.\<close>

definition delete_condition :: "config \<Rightarrow> time \<Rightarrow> string \<Rightarrow> event_obj list \<Rightarrow> (event_row \<Rightarrow> bool) option" where
  "delete_condition cf now deleteAfter es =
     map_option (\<lambda>d r. (ev_type r, ev_subType r) \<in> set (map names_of es)
         \<and> sql_le (ev_lastAttemptTimestamp r) (now - d * DAY_IN_MS) \<and> ev_namespace r \<in> set (cf_processingNamespaces cf))
       (str_number deleteAfter)"

fun delete_groups :: "config \<Rightarrow> time \<Rightarrow> (string \<times> event_obj list) list \<Rightarrow> event_table \<Rightarrow> event_table option" where
  "delete_groups cf now [] rows = Some rows"
| "delete_groups cf now ((k, es) # gs) rows =
     (case delete_condition cf now k es of
        None \<Rightarrow> None
      | Some P \<Rightarrow> delete_groups cf now gs (delete_where P rows))"

definition processDeleteEvents :: "config \<Rightarrow> time \<Rightarrow> event_table \<Rightarrow> event_table option" where
  "processDeleteEvents cf now rows = delete_groups cf now (deleteByDaysMap cf) rows"

subsection \<open>Lemmas\<close>

lemma digits_val_snoc: "digits_val a (s @ [c]) = (case digits_val a s of None \<Rightarrow> None | Some v \<Rightarrow> map_option (\<lambda>d. 10 * v + d) (digit_val c))"
  by (induction a s rule: digits_val.induct) (auto split: option.splits)

lemma digit_val_char:
  assumes "n < 10"
  shows "digit_val (digit_char n) = Some (int n)"
proof -
  have "(of_char (digit_char n) :: int) = int (of_char (digit_char n))" by (rule of_nat_of_char [symmetric])
  also have "\<dots> = int (48 + n)" using assms by (simp add: digit_char_def of_char_of)
  finally show ?thesis using assms by (simp add: digit_val_def Let_def)
qed

lemma digits_val_show: "digits_val 0 (show_nat n) = Some (int n)"
proof (induction n rule: show_nat.induct)
  case (1 n)
  show ?case
  proof (cases "n < 10")
    case True
    then show ?thesis by (simp add: show_nat.simps [of n] digit_val_char)
  next
    case False
    then have "digits_val 0 (show_nat (n div 10)) = Some (int (n div 10))" using 1 by simp
    then show ?thesis using False
      by (simp add: show_nat.simps [of n] digits_val_snoc digit_val_char zdiv_int zmod_int)
  qed
qed

lemma str_number_show:
  assumes "0 \<le> n"
  shows "str_number (show_int n) = Some n"
proof -
  have v: "digits_val 0 (show_int n) = Some n" using assms digits_val_show [of "nat n"] by (simp add: show_int_def)
  show ?thesis
  proof (cases "show_int n")
    case Nil
    then show ?thesis using v by (simp add: str_number_def)
  next
    case (Cons c cs)
    then have "digit_val c \<noteq> None" using v by (auto split: option.splits)
    then have "c \<noteq> CHR ''-''" "c \<noteq> CHR ''+''" by (auto simp: digit_val_def)
    then show ?thesis using v Cons by (simp add: str_number_def)
  qed
qed

lemma deleteByDaysMap_props:
  "obj_get (deleteByDaysMap cf) k =
     (let es = filter (\<lambda>e. key_part (delete_days e) = k) (events cf @ periodicEvents cf) in if es = [] then None else Some es)"
  "distinct (obj_keys (deleteByDaysMap cf))"
proof -
  let ?step = "\<lambda>m e. let k = key_part (delete_days e) in
    obj_set k ((case obj_get m k of None \<Rightarrow> [] | Some es \<Rightarrow> es) @ [e]) m"
  have "obj_get (foldl ?step [] xs) k = (let es = filter (\<lambda>e. key_part (delete_days e) = k) xs in if es = [] then None else Some es)
    \<and> distinct (obj_keys (foldl ?step [] xs))" for k xs
    by (induction xs arbitrary: k rule: rev_induct) (auto simp: Let_def)
  then show "obj_get (deleteByDaysMap cf) k =
     (let es = filter (\<lambda>e. key_part (delete_days e) = k) (events cf @ periodicEvents cf) in if es = [] then None else Some es)"
    "distinct (obj_keys (deleteByDaysMap cf))"
    unfolding deleteByDaysMap_def by blast+
qed

lemma deleteByDaysMap_mem:
  "(k, es) \<in> set (deleteByDaysMap cf) \<longleftrightarrow>
     es \<noteq> [] \<and> es = filter (\<lambda>e. key_part (delete_days e) = k) (events cf @ periodicEvents cf)"
  using map_of_eq_Some_iff [OF deleteByDaysMap_props(2), of cf k es] deleteByDaysMap_props(1) [of cf k]
  by (auto simp: Let_def split: if_splits)

lemma deleteByDaysMap_set:
  assumes "(k, es) \<in> set (deleteByDaysMap cf)"
  shows "e \<in> set es \<longleftrightarrow> e \<in> set (events cf @ periodicEvents cf) \<and> key_part (delete_days e) = k"
    and "\<exists>e. e \<in> set (events cf @ periodicEvents cf) \<and> key_part (delete_days e) = k"
proof -
  note mem = assms [unfolded deleteByDaysMap_mem]
  have "set es = {e \<in> set (events cf @ periodicEvents cf). key_part (delete_days e) = k}"
    using arg_cong [OF mem [THEN conjunct2], of set] by (simp only: set_filter)
  then show iff: "e \<in> set es \<longleftrightarrow> e \<in> set (events cf @ periodicEvents cf) \<and> key_part (delete_days e) = k" for e
    by (simp only: mem_Collect_eq)
  have "hd es \<in> set es" using mem [THEN conjunct1] by (rule list.set_sel(1))
  then show "\<exists>e. e \<in> set (events cf @ periodicEvents cf) \<and> key_part (delete_days e) = k" unfolding iff by (rule exI)
qed

lemma delete_groups_filter:
  assumes "\<And>k es. (k, es) \<in> set gs \<Longrightarrow> delete_condition cf now k es = Some (Q k es)"
  shows "delete_groups cf now gs rows = Some (filter (\<lambda>r. \<not> list_ex (\<lambda>(k, es). Q k es r) gs) rows)"
  using assms
proof (induction gs arbitrary: rows)
  case (Cons g gs)
  obtain k es where g: "g = (k, es)" by fastforce
  have "delete_groups cf now (g # gs) rows = delete_groups cf now gs (delete_where (Q k es) rows)"
    using Cons.prems [of k es] by (simp add: g)
  also have "\<dots> = Some (filter (\<lambda>r. \<not> list_ex (\<lambda>(k, es). Q k es r) gs) (delete_where (Q k es) rows))"
    using Cons by simp
  finally show ?case by (simp add: g delete_where_def conj_commute)
qed simp

text \<open>What is to be deleted, row by row: an event of the row's type and subtype is configured whose period
  has passed since the last attempt.\<close>

definition days_num :: "event_obj \<Rightarrow> int" where
  "days_num e = (case delete_days e of JNum n \<Rightarrow> n | _ \<Rightarrow> 0)"

definition outdated :: "config \<Rightarrow> time \<Rightarrow> event_row \<Rightarrow> bool" where
  "outdated cf now r \<longleftrightarrow>
     ev_namespace r \<in> set (cf_processingNamespaces cf) \<and>
     list_ex (\<lambda>e. names_of e = (ev_type r, ev_subType r) \<and> sql_le (ev_lastAttemptTimestamp r) (now - days_num e * DAY_IN_MS))
       (events cf @ periodicEvents cf)"

definition days_ok :: "event_obj \<Rightarrow> bool" where
  "days_ok e = (case delete_days e of JNum n \<Rightarrow> 0 \<le> n | _ \<Rightarrow> False)"

lemma deletion_by_rows:
  assumes "list_all days_ok (events cf @ periodicEvents cf)"
  shows "processDeleteEvents cf now rows = Some (filter (\<lambda>r. \<not> outdated cf now r) rows)"
proof -
  let ?all = "events cf @ periodicEvents cf"
  define Q where "Q k es r \<longleftrightarrow> (ev_type r, ev_subType r) \<in> set (map names_of es)
    \<and> sql_le (ev_lastAttemptTimestamp r) (now - the (str_number k) * DAY_IN_MS)
    \<and> ev_namespace r \<in> set (cf_processingNamespaces cf)" for k :: string and es and r :: event_row
  have days: "str_number (key_part (delete_days e)) = Some (days_num e)" if "e \<in> set ?all" for e
  proof -
    have "days_ok e" using assms that by (metis list_all_iff)
    then obtain n where "delete_days e = JNum n" "0 \<le> n" by (cases "delete_days e") (auto simp: days_ok_def)
    then show ?thesis by (simp add: days_num_def key_part_def join_part_def str_number_show)
  qed
  have cond: "delete_condition cf now k es = Some (Q k es)" if mem: "(k, es) \<in> set (deleteByDaysMap cf)" for k es
  proof -
    obtain e where e: "e \<in> set ?all" "key_part (delete_days e) = k" using deleteByDaysMap_set(2) [OF mem] by blast
    show ?thesis using days [OF e(1)] unfolding e(2) by (auto simp: delete_condition_def Q_def)
  qed
  have "list_ex (\<lambda>(k, es). Q k es r) (deleteByDaysMap cf) \<longleftrightarrow> outdated cf now r" for r
  proof
    assume "list_ex (\<lambda>(k, es). Q k es r) (deleteByDaysMap cf)"
    then obtain k es where g: "(k, es) \<in> set (deleteByDaysMap cf)" "Q k es r" by (auto simp: list_ex_iff)
    then obtain e where "e \<in> set es" "names_of e = (ev_type r, ev_subType r)" unfolding Q_def by auto
    with deleteByDaysMap_set(1) [OF g(1), of e] g(2) days [of e] show "outdated cf now r"
      unfolding outdated_def Q_def list_ex_iff by auto
  next
    assume "outdated cf now r"
    then obtain e where e: "e \<in> set ?all" "names_of e = (ev_type r, ev_subType r)"
      "sql_le (ev_lastAttemptTimestamp r) (now - days_num e * DAY_IN_MS)" "ev_namespace r \<in> set (cf_processingNamespaces cf)"
      unfolding outdated_def list_ex_iff by blast
    let ?k = "key_part (delete_days e)"
    let ?es = "filter (\<lambda>e. key_part (delete_days e) = ?k) ?all"
    have "e \<in> set ?es" using e(1) by simp
    then have "(?k, ?es) \<in> set (deleteByDaysMap cf)" unfolding deleteByDaysMap_mem by (metis empty_iff list.set(1))
    moreover have "Q ?k ?es r" using e days [OF e(1)] \<open>e \<in> set ?es\<close> unfolding Q_def by (auto intro: rev_image_eqI)
    ultimately show "list_ex (\<lambda>(k, es). Q k es r) (deleteByDaysMap cf)" by (auto simp: list_ex_iff)
  qed
  then show ?thesis by (simp add: processDeleteEvents_def delete_groups_filter [OF cond])
qed


text \<open>A period of zero days, documented as never, deletes after seven days.\<close>

theorem zero_days_means_seven:
  assumes "list_all days_ok (events cf @ periodicEvents cf)" "e \<in> set (events cf @ periodicEvents cf)"
    and "js_prop e ''deleteFinishedEventsAfterDays'' = JNum 0" "names_of e = (ev_type r, ev_subType r)"
    and "ev_namespace r \<in> set (cf_processingNamespaces cf)" "ev_lastAttemptTimestamp r = Some t" "t \<le> now - 7 * DAY_IN_MS"
  shows "\<exists>rows'. processDeleteEvents cf now rows = Some rows' \<and> r \<notin> set rows'"
proof -
  have "days_num e = 7" using assms(3) by (simp add: days_num_def delete_days_def DELETE_DEFAULT_PERIOD_IN_DAYS_def)
  then have "outdated cf now r" using assms(2,4-7) unfolding outdated_def list_ex_iff by auto
  then show ?thesis using deletion_by_rows [OF assms(1), of now rows] by simp
qed

definition demo_old_row :: "string \<Rightarrow> string \<Rightarrow> time \<Rightarrow> event_row" where
  "demo_old_row i sub t = (new_row i 0 ''T'' sub ''default'' None)\<lparr>ev_lastAttemptTimestamp := Some t\<rparr>"

definition demo_clean_cfg :: config where
  "demo_clean_cfg = demo_config\<lparr>cf_eventMap :=
     [(''a'', [(''type'', JStr ''T''), (''subType'', JStr ''S''), (''deleteFinishedEventsAfterDays'', JNum 1)]),
      (''b'', [(''type'', JStr ''T''), (''subType'', JStr ''R'')])]\<rparr>"


end
