(* ===== verification/OpenEvents.thy ===== *)
theory OpenEvents
  imports Broadcast
begin

text \<open>
  \<open>src/runner/openEvents.js\<close>: which combinations of type, subtype and namespace have open entries.  The
  selection counts entries per combination; with \<open>filterAppSpecificEvents\<close> only the combinations this
  application may process are returned, where a CAP service without configuration is registered on
  the way.  The order in which the database returns the groups is a parameter.

  Proved: a combination is returned with the number of its open entries, exactly once; an entry that
  is due is found as long as it was created or is to be started within the last thirty days.
\<close>

definition MS_IN_DAYS :: int where "MS_IN_DAYS = 24 * 60 * 60 * 1000"

record open_env =
  oe_gc :: global_cfg
  oe_globalTxTimeout :: int
  oe_arrange :: "(combo \<times> int) list \<Rightarrow> (combo \<times> int) list"
  oe_sv :: sub_env

definition combo_of :: "event_row \<Rightarrow> combo" where
  "combo_of r = (ev_type r, ev_subType r, ev_namespace r)"

definition is_open :: "open_env \<Rightarrow> config \<Rightarrow> time \<Rightarrow> event_row \<Rightarrow> bool" where
  "is_open oe cf now r \<longleftrightarrow>
     ev_namespace r \<in> set (cf_processingNamespaces cf)
     \<and> (ev_startAfter r = None \<or> sql_le (ev_startAfter r) (refDateStartAfter (oe_gc oe) now))
     \<and> (ev_status r = Open \<or> ev_status r = Error
        \<or> ev_status r = InProgress \<and> sql_le (ev_lastAttemptTimestamp r) (now - oe_globalTxTimeout oe))
     \<and> (now - 30 * MS_IN_DAYS \<le> ev_createdAt r \<or> sql_ge (ev_startAfter r) (now - 30 * MS_IN_DAYS))"

text \<open>\<open>count(ID)\<close> with \<open>GROUP BY\<close>\<close>

definition group_counts :: "'a list \<Rightarrow> ('a \<times> int) list" where
  "group_counts xs = map (\<lambda>x. (x, int (length (filter (\<lambda>y. y = x) xs)))) (remdups xs)"

definition open_groups :: "open_env \<Rightarrow> config \<Rightarrow> time \<Rightarrow> event_table \<Rightarrow> (combo \<times> int) list" where
  "open_groups oe cf now rows =
     oe_arrange oe (group_counts (map combo_of (filter (is_open oe cf now) rows)))"

text \<open>One turn of the loop: the configuration and whether the combination is returned.\<close>

definition open_step :: "open_env \<Rightarrow> bool \<Rightarrow> combo \<Rightarrow> config \<Rightarrow> config \<times> bool" where
  "open_step oe filterAppSpecificEvents c cf =
     (if \<not> filterAppSpecificEvents then (cf, True)
      else case ensure_config (oe_sv oe) c cf of
             None \<Rightarrow> (cf, False)
           | Some cf' \<Rightarrow>
               (cf', case c of (ty, sub, ns) \<Rightarrow> shouldBeProcessedInThisApplication (se_ce (oe_sv oe)) cf' ty sub ns = Some True))"

fun open_loop :: "open_env \<Rightarrow> bool \<Rightarrow> (combo \<times> int) list \<Rightarrow> config \<Rightarrow> config \<times> (combo \<times> int) list" where
  "open_loop oe filt [] cf = (cf, [])"
| "open_loop oe filt (g # gs) cf =
     (case open_step oe filt (fst g) cf of
        (cf1, b) \<Rightarrow> (case open_loop oe filt gs cf1 of (cf2, res) \<Rightarrow> (cf2, if b then g # res else res)))"

definition getOpenQueueEntries ::
  "open_env \<Rightarrow> bool \<Rightarrow> time \<Rightarrow> event_table \<Rightarrow> config \<Rightarrow> config \<times> (combo \<times> int) list" where
  "getOpenQueueEntries oe filterAppSpecificEvents now rows cf =
     open_loop oe filterAppSpecificEvents (open_groups oe cf now rows) cf"

subsection \<open>Lemmas\<close>

lemma open_loop_unfiltered: "open_loop oe False gs cf = (cf, gs)"
  by (induction gs) (simp_all add: open_step_def)

lemma unfiltered_entries: "getOpenQueueEntries oe False now rows cf = (cf, open_groups oe cf now rows)"
  by (simp add: getOpenQueueEntries_def open_loop_unfiltered)

text \<open>When every combination is configured the configuration does not change and the filter decides.\<close>

lemma open_loop_configured:
  "\<forall>g\<in>set gs. combo_cfg cf (fst g) \<noteq> None \<Longrightarrow>
     open_loop oe True gs cf = (cf, filter (\<lambda>g. accepts (oe_sv oe) (fst g) cf) gs)"
proof (induction gs)
  case (Cons g gs)
  obtain ty sub ns n where g: "g = ((ty, sub, ns), n)" by (metis surj_pair)
  have "getEventConfig ty sub ns cf \<noteq> None" using Cons.prems by (simp add: g combo_cfg_def)
  then have "open_step oe True (fst g) cf = (cf, accepts (oe_sv oe) (fst g) cf)"
    by (simp add: open_step_def ensure_config_def accepts_def g)
  with Cons show ?case by simp
qed simp

text \<open>The database returns the groups in some order.\<close>

definition arranged :: "open_env \<Rightarrow> bool" where
  "arranged oe \<longleftrightarrow> (\<forall>gs. mset (oe_arrange oe gs) = mset gs)"

lemma distinct_group_counts: "distinct (map fst (group_counts xs))"
  by (simp add: group_counts_def o_def)

lemma mem_group_counts: "(x, n) \<in> set (group_counts xs) \<longleftrightarrow> x \<in> set xs \<and> n = int (length (filter (\<lambda>y. y = x) xs))"
  by (auto simp: group_counts_def)

lemma length_filter_sum:
  "int (length (filter P xs)) = (\<Sum>x\<in>{x \<in> set xs. P x}. int (length (filter (\<lambda>y. y = x) xs)))"
proof -
  have "length (filter P xs) = (\<Sum>x\<in>set (filter P xs). count_list (filter P xs) x)" by (simp add: sum_count_set)
  also have "\<dots> = (\<Sum>x\<in>{x \<in> set xs. P x}. length (filter (\<lambda>y. y = x) xs))"
  proof (rule sum.cong)
    fix x assume "x \<in> {x \<in> set xs. P x}"
    then have "filter ((=) x) (filter P xs) = filter (\<lambda>y. y = x) xs" by (auto intro: filter_cong)
    then show "count_list (filter P xs) x = length (filter (\<lambda>y. y = x) xs)" by (simp add: count_list_eq_length_filter)
  qed auto
  finally show ?thesis by simp
qed

lemma sum_group_counts:
  "sum_list (map snd (filter (\<lambda>g. P (fst g)) (group_counts xs))) = int (length (filter P xs))"
proof -
  let ?f = "\<lambda>x. int (length (filter (\<lambda>y. y = x) xs))"
  have "map snd (filter (\<lambda>g. P (fst g)) (group_counts xs)) = map ?f (filter P (remdups xs))"
    unfolding group_counts_def by (simp add: filter_map o_def)
  then have "sum_list (map snd (filter (\<lambda>g. P (fst g)) (group_counts xs))) = sum ?f (set (filter P (remdups xs)))"
    by (simp only: sum_list_distinct_conv_sum_set distinct_filter distinct_remdups)
  moreover have "set (filter P (remdups xs)) = {x \<in> set xs. P x}" by auto
  ultimately show ?thesis using length_filter_sum [of P xs] by simp
qed

lemma open_groups_mset:
  "arranged oe \<Longrightarrow> mset (open_groups oe cf now rows) = mset (group_counts (map combo_of (filter (is_open oe cf now) rows)))"
  by (simp add: open_groups_def arranged_def)

lemma open_groups_iff:
  assumes "arranged oe"
  shows "(c, n) \<in> set (open_groups oe cf now rows) \<longleftrightarrow>
    (\<exists>r\<in>set rows. is_open oe cf now r \<and> combo_of r = c)
    \<and> n = int (length (filter (\<lambda>r. is_open oe cf now r \<and> combo_of r = c) rows))"
  unfolding mset_eq_setD [OF open_groups_mset [OF assms]] mem_group_counts
  by (auto simp: filter_map o_def conj_commute)

lemma combo_in_groups:
  assumes "arranged oe"
  shows "c \<in> set (map fst (open_groups oe cf now rows)) \<longleftrightarrow> (\<exists>r\<in>set rows. is_open oe cf now r \<and> combo_of r = c)"
proof -
  have "c \<in> set (map fst (open_groups oe cf now rows)) \<longleftrightarrow> (\<exists>n. (c, n) \<in> set (open_groups oe cf now rows))" by force
  then show ?thesis unfolding open_groups_iff [OF assms] by simp
qed

lemma distinct_open_groups:
  assumes "arranged oe"
  shows "distinct (map fst (open_groups oe cf now rows))"
proof -
  have "mset (map fst (open_groups oe cf now rows)) = mset (map fst (group_counts (map combo_of (filter (is_open oe cf now) rows))))"
    unfolding mset_map open_groups_mset [OF assms] ..
  then show ?thesis using distinct_group_counts mset_eq_imp_distinct_iff by blast
qed

text \<open>The counts of the groups add up to the number of open entries.\<close>

lemma sum_groups:
  assumes "arranged oe"
  shows "sum_list (map snd (filter (\<lambda>g. P (fst g)) (open_groups oe cf now rows)))
    = int (length (filter (\<lambda>r. is_open oe cf now r \<and> P (combo_of r)) rows))"
proof -
  let ?cs = "map combo_of (filter (is_open oe cf now) rows)"
  have "mset (map snd (filter (\<lambda>g. P (fst g)) (open_groups oe cf now rows))) = mset (map snd (filter (\<lambda>g. P (fst g)) (group_counts ?cs)))"
    unfolding mset_map mset_filter open_groups_mset [OF assms] ..
  then have "sum_list (map snd (filter (\<lambda>g. P (fst g)) (open_groups oe cf now rows))) = int (length (filter P ?cs))"
    unfolding sum_group_counts [symmetric] by (metis sum_mset_sum_list)
  then show ?thesis by (simp add: filter_map o_def conj_commute)
qed

end
