(* ===== verification/Runner.thy ===== *)
theory Runner
  imports OpenEvents PeriodicEvents EventQueueStats
begin

text \<open>
  \<open>src/runner/runner.js\<close>: the run every instance starts at the run interval.  Depending on the setup it
  processes the open combinations itself (database locks) or, on the one instance that gets the lock of
  the run, broadcasts them (Redis) and recounts the pending entries; before that the periodic events of
  all tenants are brought up to date.

  The state holds the event tables by tenant, the locks, the counters in Redis and the module's
  variables.  Runs and broadcasts are results: requests in the order they are made.  What may fail
  for a tenant (\<open>rv_fails\<close>: its transaction or its authentication context) is a parameter; tracing and
  logging are left out.

  Proved: of all instances only one broadcasts per interval; the counters it writes are the numbers of
  open entries of all tenants; a due entry that the application may process gets its run;
  instances that start at different times agree on when the first run is.
\<close>

definition EVENT_QUEUE_RUN_ID :: string where "EVENT_QUEUE_RUN_ID = ''RUN_ID''"
definition EVENT_QUEUE_RUN_TS :: string where "EVENT_QUEUE_RUN_TS = ''RUN_TS''"
definition EVENT_QUEUE_RUN_REDIS_CHECK :: string where "EVENT_QUEUE_RUN_REDIS_CHECK = ''RUN_REDIS_CHECK''"
definition EVENT_QUEUE_UPDATE_PERIODIC_EVENTS :: string where
  "EVENT_QUEUE_UPDATE_PERIODIC_EVENTS = ''UPDATE_PERIODIC_EVENTS''"

record ('r, 'h) runner_env =
  rv_oe :: open_env
  rv_rd :: "'r redis"
  rv_rh :: "'h redis_hash"
  rv_pv :: period_env
  rv_collectMetrics :: bool
  rv_updatePeriodic :: bool
  rv_filterSet :: bool \<comment> \<open>\<open>config.tenantIdFilterEventProcessing\<close> is set\<close>
  rv_tenantHash :: "string list \<Rightarrow> string"
  rv_fails :: "tenant \<Rightarrow> bool"

record ('r, 'h) runner =
  rn_cf :: config
  rn_locks :: "'r locks"
  rn_stats :: 'h
  rn_tables :: "tenant \<Rightarrow> event_table"
  rn_tenantIdHash :: "string option"

abbreviation rv_interval :: "('r, 'h) runner_env \<Rightarrow> int" where
  "rv_interval rv \<equiv> runInterval (oe_gc (rv_oe rv))"

text \<open>\<open>runInterval * 0.95\<close>: Redis gets the rounded value, the lock table compares with the exact one.\<close>

definition run_expiry :: "('r, 'h) runner_env \<Rightarrow> config \<Rightarrow> int" where
  "run_expiry rv cf =
     (if cf_redisEnabled cf then round_div (95 * rv_interval rv) 100 else - ((- 95 * rv_interval rv) div 100))"

definition take_lock ::
  "('r, 'h) runner_env \<Rightarrow> time \<Rightarrow> tenant \<Rightarrow> string \<Rightarrow> bool \<Rightarrow> int \<Rightarrow> ('r, 'h) runner \<Rightarrow> ('r, 'h) runner \<times> bool" where
  "take_lock rv now t key tenantScoped expiryTime s =
     (case acquireLock (rv_rd rv) (rn_cf s) now t key tenantScoped expiryTime False False (rn_locks s) of
        (ls, ok) \<Rightarrow> (s\<lparr>rn_locks := ls\<rparr>, ok))"

subsection \<open>Periodic events\<close>

definition periodic_enabled :: "('r, 'h) runner_env \<Rightarrow> config \<Rightarrow> bool" where
  "periodic_enabled rv cf \<longleftrightarrow> rv_updatePeriodic rv \<and> periodicEvents cf \<noteq> []"

definition checkPeriodicEventsSingleTenant ::
  "('r, 'h) runner_env \<Rightarrow> time \<Rightarrow> tenant \<Rightarrow> ('r, 'h) runner \<Rightarrow> ('r, 'h) runner" where
  "checkPeriodicEventsSingleTenant rv now t s =
     (if \<not> periodic_enabled rv (rn_cf s) then s
      else case checkAndInsertPeriodicEvents (rv_pv rv) (rn_cf s) now (rn_tables s t) of
             None \<Rightarrow> s
           | Some rows \<Rightarrow> s\<lparr>rn_tables := (rn_tables s)(t := rows)\<rparr>)"

definition periodic_tenant :: "('r, 'h) runner_env \<Rightarrow> time \<Rightarrow> ('r, 'h) runner \<Rightarrow> string \<Rightarrow> ('r, 'h) runner" where
  "periodic_tenant rv now s t =
     (if rv_fails rv (Some t) then s
      else if \<not> cf_redisEnabled (rn_cf s) \<and> \<not> rv_filterSet rv
      then (case take_lock rv now (Some t) EVENT_QUEUE_UPDATE_PERIODIC_EVENTS True (run_expiry rv (rn_cf s)) s of
              (s1, ok) \<Rightarrow> if ok then checkPeriodicEventsSingleTenant rv now (Some t) s1 else s1)
      else checkPeriodicEventsSingleTenant rv now (Some t) s)"

definition executePeriodicEventsAllTenants ::
  "('r, 'h) runner_env \<Rightarrow> time \<Rightarrow> string list \<Rightarrow> ('r, 'h) runner \<Rightarrow> ('r, 'h) runner" where
  "executePeriodicEventsAllTenants rv now ts s = foldl (periodic_tenant rv now) s ts"

definition multiTenancyPeriodicEvents ::
  "('r, 'h) runner_env \<Rightarrow> time \<Rightarrow> string list \<Rightarrow> ('r, 'h) runner \<Rightarrow> ('r, 'h) runner \<times> bool" where
  "multiTenancyPeriodicEvents rv now ts s =
     (if cf_redisEnabled (rn_cf s) \<and> \<not> rv_filterSet rv
      then (case take_lock rv now None EVENT_QUEUE_UPDATE_PERIODIC_EVENTS False (60 * 1000) s of
              (s1, ok) \<Rightarrow> if ok then (executePeriodicEventsAllTenants rv now ts s1, True) else (s1, False))
      else (executePeriodicEventsAllTenants rv now ts s, True))"

text \<open>Whether the run goes on; the update happens when the tenants have changed since the last run.\<close>

definition checkPeriodicEventUpdate ::
  "('r, 'h) runner_env \<Rightarrow> time \<Rightarrow> string list \<Rightarrow> ('r, 'h) runner \<Rightarrow> ('r, 'h) runner \<times> bool" where
  "checkPeriodicEventUpdate rv now ts s =
     (if \<not> periodic_enabled rv (rn_cf s) then (s, True)
      else let hash = rv_tenantHash rv ts in
        case rn_tenantIdHash s of
          None \<Rightarrow> multiTenancyPeriodicEvents rv now ts (s\<lparr>rn_tenantIdHash := Some hash\<rparr>)
        | Some old \<Rightarrow>
            if old \<noteq> hash
            then (fst (multiTenancyPeriodicEvents rv now ts (s\<lparr>rn_tenantIdHash := Some hash\<rparr>)), True)
            else (s, True))"

definition checkPeriodicEventsSingleTenantOneTime ::
  "('r, 'h) runner_env \<Rightarrow> time \<Rightarrow> ('r, 'h) runner \<Rightarrow> ('r, 'h) runner" where
  "checkPeriodicEventsSingleTenantOneTime rv now s =
     (if \<not> periodic_enabled rv (rn_cf s) then s
      else case take_lock rv now None EVENT_QUEUE_UPDATE_PERIODIC_EVENTS False (60 * 1000) s of
             (s1, ok) \<Rightarrow> if ok then checkPeriodicEventsSingleTenant rv now None s1 else s1)"

subsection \<open>Counting and broadcasting\<close>

type_synonym entries = "(combo \<times> int) list"

text \<open>\<open>pendingByNamespace\<close>: zero for every processed namespace, plus the counts of the entries.\<close>

definition add_pending :: "int jsobj \<Rightarrow> combo \<times> int \<Rightarrow> int jsobj" where
  "add_pending m g =
     (let ns = snd (snd (fst g)) in obj_set ns ((case obj_get m ns of None \<Rightarrow> 0 | Some n \<Rightarrow> n) + snd g) m)"

definition pendingByNamespace :: "config \<Rightarrow> entries \<Rightarrow> int jsobj" where
  "pendingByNamespace cf es = foldl add_pending (obj_from (map (\<lambda>ns. (ns, 0)) (cf_processingNamespaces cf))) es"

definition write_tenant_counters :: "('r, 'h) runner_env \<Rightarrow> config \<Rightarrow> string \<Rightarrow> int jsobj \<Rightarrow> 'h \<Rightarrow> 'h" where
  "write_tenant_counters rv cf t m st =
     (if rv_collectMetrics rv
      then foldl (\<lambda>st (ns, n). setTenantCounter (rv_rh rv) cf (Some t) ns Pending n st) st m else st)"

definition write_global_counters :: "('r, 'h) runner_env \<Rightarrow> config \<Rightarrow> int jsobj \<Rightarrow> 'h \<Rightarrow> 'h" where
  "write_global_counters rv cf m st =
     (if rv_collectMetrics rv then foldl (\<lambda>st (ns, n). setGlobalCounter (rv_rh rv) cf ns Pending n st) st m else st)"

text \<open>A tenant of the Redis run: \<open>tenantCounts\<close> and the broadcasts so far.\<close>

definition broadcast_tenant ::
  "('r, 'h) runner_env \<Rightarrow> time \<Rightarrow> ('r, 'h) runner \<times> entries jsobj \<times> (tenant \<times> combo list) list \<Rightarrow> string
     \<Rightarrow> ('r, 'h) runner \<times> entries jsobj \<times> (tenant \<times> combo list) list" where
  "broadcast_tenant rv now x t =
     (case x of (s, counts, bs) \<Rightarrow>
        if rv_fails rv (Some t) then x
        else let es = snd (getOpenQueueEntries (rv_oe rv) False now (rn_tables s (Some t)) (rn_cf s));
                 st = write_tenant_counters rv (rn_cf s) t (pendingByNamespace (rn_cf s) es) (rn_stats s)
             in (s\<lparr>rn_stats := st\<rparr>, obj_set t es counts, if es = [] then bs else bs @ [(Some t, map fst es)]))"

definition executeEventsAllTenantsRedis ::
  "('r, 'h) runner_env \<Rightarrow> time \<Rightarrow> string list \<Rightarrow> ('r, 'h) runner \<Rightarrow> ('r, 'h) runner \<times> (tenant \<times> combo list) list" where
  "executeEventsAllTenantsRedis rv now ts s =
     (let (s1, ok) = (if rv_filterSet rv then (s, True)
                      else take_lock rv now None EVENT_QUEUE_RUN_REDIS_CHECK False (run_expiry rv (rn_cf s)) s)
      in if \<not> ok then (s1, [])
         else case foldl (broadcast_tenant rv now) (s1, [], []) ts of
                (s2, counts, bs) \<Rightarrow>
                  (s2\<lparr>rn_stats := write_global_counters rv (rn_cf s2)
                         (pendingByNamespace (rn_cf s2) (concat (map snd counts))) (rn_stats s2)\<rparr>, bs))"

definition multiTenancyRedis ::
  "('r, 'h) runner_env \<Rightarrow> time \<Rightarrow> string list \<Rightarrow> ('r, 'h) runner \<Rightarrow> ('r, 'h) runner \<times> (tenant \<times> combo list) list" where
  "multiTenancyRedis rv now ts s =
     (case checkPeriodicEventUpdate rv now ts s of
        (s1, shouldContinue) \<Rightarrow> if shouldContinue then executeEventsAllTenantsRedis rv now ts s1 else (s1, []))"

definition singleTenantRedis ::
  "('r, 'h) runner_env \<Rightarrow> time \<Rightarrow> ('r, 'h) runner \<Rightarrow> ('r, 'h) runner \<times> (tenant \<times> combo list) list" where
  "singleTenantRedis rv now s =
     (case take_lock rv now None EVENT_QUEUE_RUN_REDIS_CHECK False (run_expiry rv (rn_cf s)) s of
        (s1, ok) \<Rightarrow>
          if \<not> ok then (s1, [])
          else let es = snd (getOpenQueueEntries (rv_oe rv) False now (rn_tables s1 None) (rn_cf s1))
               in (s1\<lparr>rn_stats := write_global_counters rv (rn_cf s1) (pendingByNamespace (rn_cf s1) es) (rn_stats s1)\<rparr>,
                   if es = [] then [] else [(None, map fst es)]))"

subsection \<open>Processing on this instance\<close>

text \<open>The runs put into the worker queue, each processed without it.\<close>

definition run_of :: "tenant \<Rightarrow> combo \<times> int \<Rightarrow> run_request" where
  "run_of t g = \<lparr>rr_tenant = t, rr_combo = fst g, rr_lockId = None\<rparr>"

definition singleTenantDb :: "('r, 'h) runner_env \<Rightarrow> time \<Rightarrow> ('r, 'h) runner \<Rightarrow> ('r, 'h) runner \<times> run_request list" where
  "singleTenantDb rv now s =
     (case getOpenQueueEntries (rv_oe rv) True now (rn_tables s None) (rn_cf s) of
        (cf, es) \<Rightarrow> (s\<lparr>rn_cf := cf\<rparr>, map (run_of None) es))"

definition process_tenant ::
  "('r, 'h) runner_env \<Rightarrow> time \<Rightarrow> ('r, 'h) runner \<times> run_request list \<Rightarrow> string \<Rightarrow> ('r, 'h) runner \<times> run_request list" where
  "process_tenant rv now x t =
     (case x of (s, rs) \<Rightarrow>
        if rv_fails rv (Some t) then x
        else case getOpenQueueEntries (rv_oe rv) True now (rn_tables s (Some t)) (rn_cf s) of
               (cf, es) \<Rightarrow> (s\<lparr>rn_cf := cf\<rparr>, rs @ map (run_of (Some t)) es))"

definition executeEventsAllTenants ::
  "('r, 'h) runner_env \<Rightarrow> time \<Rightarrow> string list \<Rightarrow> ('r, 'h) runner \<Rightarrow> ('r, 'h) runner \<times> run_request list" where
  "executeEventsAllTenants rv now ts s = foldl (process_tenant rv now) (s, []) ts"

definition multiTenancyDb ::
  "('r, 'h) runner_env \<Rightarrow> time \<Rightarrow> string list \<Rightarrow> ('r, 'h) runner \<Rightarrow> ('r, 'h) runner \<times> run_request list" where
  "multiTenancyDb rv now ts s = executeEventsAllTenants rv now ts (fst (checkPeriodicEventUpdate rv now ts s))"

subsection \<open>The first run\<close>

definition default_offset :: "int option \<Rightarrow> bool \<Rightarrow> int" where
  "default_offset offsetFirstRun developmentMode =
     (case offsetFirstRun of Some n \<Rightarrow> n | None \<Rightarrow> if developmentMode then 500 else 10 * 1000)"

text \<open>The time stamp of the last run, set when there is none; its text is read back as a date.\<close>

definition last_run_ts ::
  "('r, 'h) runner_env \<Rightarrow> time \<Rightarrow> ('r, 'h) runner \<Rightarrow> ('r, 'h) runner \<times> string option" where
  "last_run_ts rv now s =
     (let get = (\<lambda>s'. getValue (rv_rd rv) (rn_cf s) now None EVENT_QUEUE_RUN_TS False (rn_locks s')) in
      case get s of
        Some v \<Rightarrow> if v \<noteq> [] then (s, Some v)
                  else (case setValueWithExpire (rv_rd rv) (rn_cf s) now None EVENT_QUEUE_RUN_TS (toISOString now) False
                               (rv_interval rv) False False (rn_locks s) of
                          (ls, ok) \<Rightarrow> let s1 = s\<lparr>rn_locks := ls\<rparr> in (s1, if ok then Some (toISOString now) else get s1))
      | None \<Rightarrow> (case setValueWithExpire (rv_rd rv) (rn_cf s) now None EVENT_QUEUE_RUN_TS (toISOString now) False
                       (rv_interval rv) False False (rn_locks s) of
                   (ls, ok) \<Rightarrow> let s1 = s\<lparr>rn_locks := ls\<rparr> in (s1, if ok then Some (toISOString now) else get s1)))"

text \<open>\<open>None\<close>: the offset is not a number, which \<open>setTimeout\<close> treats as one millisecond.\<close>

definition calculateOffsetForFirstRun ::
  "('r, 'h) runner_env \<Rightarrow> (string \<Rightarrow> time option) \<Rightarrow> int option \<Rightarrow> bool \<Rightarrow> time \<Rightarrow> ('r, 'h) runner
     \<Rightarrow> ('r, 'h) runner \<times> int option" where
  "calculateOffsetForFirstRun rv parse offsetFirstRun developmentMode now s =
     (if cf_redisEnabled (rn_cf s)
      then (case last_run_ts rv now s of
              (s1, ts) \<Rightarrow> (s1, map_option (\<lambda>t. t + rv_interval rv - now) (Option.bind ts parse)))
      else (s, Some (default_offset offsetFirstRun developmentMode)))"

text \<open>\<open>_acquireRunId\<close>: the id of the run, shared by all instances until it expires.\<close>

definition acquireRunId ::
  "('r, 'h) runner_env \<Rightarrow> string \<Rightarrow> time \<Rightarrow> ('r, 'h) runner \<Rightarrow> ('r, 'h) runner \<times> string option" where
  "acquireRunId rv uuid now s =
     (case setValueWithExpire (rv_rd rv) (rn_cf s) now None EVENT_QUEUE_RUN_ID uuid False (run_expiry rv (rn_cf s))
             False False (rn_locks s) of
        (ls, True) \<Rightarrow>
          (s\<lparr>rn_locks := fst (setValueWithExpire (rv_rd rv) (rn_cf s) now None EVENT_QUEUE_RUN_TS (toISOString now) False
                                (rv_interval rv) True False ls)\<rparr>, Some uuid)
      | (ls, False) \<Rightarrow>
          (s\<lparr>rn_locks := ls\<rparr>, getValue (rv_rd rv) (rn_cf s) now None EVENT_QUEUE_RUN_ID False ls))"

text \<open>\<open>fnWithRunningCheck\<close>: what a tick does, given \<open>singleRunDone\<close>.  The one-time function is repeated
  when it or the run that follows it fails.\<close>

datatype tick = Skipped | FirstRun | Periodic

definition fnWithRunningCheck :: "bool \<Rightarrow> bool \<Rightarrow> tick \<times> bool" where
  "fnWithRunningCheck active singleRunDone =
     (if \<not> active then (Skipped, singleRunDone)
      else if \<not> singleRunDone then (FirstRun, True)
      else (Periodic, singleRunDone))"

definition firstRunSettled :: "bool \<Rightarrow> bool \<Rightarrow> bool" where
  "firstRunSettled failed singleRunDone = (if failed then False else singleRunDone)"

subsection \<open>Lemmas\<close>

lemma take_lock_simps:
  "rn_cf (fst (take_lock rv now t k sc ex s)) = rn_cf s"
  "rn_stats (fst (take_lock rv now t k sc ex s)) = rn_stats s"
  "rn_tables (fst (take_lock rv now t k sc ex s)) = rn_tables s"
  "snd (take_lock rv now t k sc ex s) =
     snd (acquire_full (rv_rd rv) (rn_cf s) now t (lock_key (rn_cf s) t sc k False) ex None False False (rn_locks s))"
  "rn_locks (fst (take_lock rv now t k sc ex s)) =
     fst (acquire_full (rv_rd rv) (rn_cf s) now t (lock_key (rn_cf s) t sc k False) ex None False False (rn_locks s))"
  by (simp_all add: take_lock_def acquireLock_def split_beta)

definition pend :: "int jsobj \<Rightarrow> string \<Rightarrow> int" where
  "pend m ns = (case obj_get m ns of None \<Rightarrow> 0 | Some n \<Rightarrow> n)"

lemma pend_add: "pend (add_pending m g) ns = pend m ns + (if snd (snd (fst g)) = ns then snd g else 0)"
  by (simp add: add_pending_def pend_def Let_def)

lemma pend_foldl: "pend (foldl add_pending m es) ns = pend m ns + sum_list (map snd (filter (\<lambda>g. snd (snd (fst g)) = ns) es))"
  by (induction es arbitrary: m) (simp_all add: pend_add)

lemma add_pending_keys: "obj_get m ns \<noteq> None \<Longrightarrow> obj_get (foldl add_pending m es) ns \<noteq> None"
proof (induction es arbitrary: m)
  case (Cons g es)
  have "obj_get (add_pending m g) ns \<noteq> None" using Cons.prems by (simp add: add_pending_def Let_def)
  from Cons.IH [OF this] show ?case by simp
qed simp

lemma distinct_add_pending: "distinct (obj_keys m) \<Longrightarrow> distinct (obj_keys (foldl add_pending m es))"
  by (induction es arbitrary: m) (simp_all add: add_pending_def Let_def)

lemma obj_from_zero:
  "distinct (obj_keys (obj_from ps))"
  "obj_get (obj_from (map (\<lambda>ns. (ns, 0::int)) nss)) ns = (if ns \<in> set nss then Some 0 else None)"
proof -
  have "distinct (obj_keys m) \<Longrightarrow> distinct (obj_keys (foldl (\<lambda>acc (k, v). obj_set k v acc) m ps))" for m
    by (induction ps arbitrary: m) (auto simp: split_beta)
  then show "distinct (obj_keys (obj_from ps))" by (simp add: obj_from_def)
  have "obj_get (foldl (\<lambda>acc (k, v). obj_set k v acc) m (map (\<lambda>ns. (ns, 0::int)) nss)) ns
      = (if ns \<in> set nss then Some 0 else obj_get m ns)" for m
    by (induction nss arbitrary: m) auto
  then show "obj_get (obj_from (map (\<lambda>ns. (ns, 0::int)) nss)) ns = (if ns \<in> set nss then Some 0 else None)"
    by (simp add: obj_from_def)
qed

lemma pendingByNamespace_get:
  assumes "ns \<in> set (cf_processingNamespaces cf)"
  shows "obj_get (pendingByNamespace cf es) ns = Some (sum_list (map snd (filter (\<lambda>g. snd (snd (fst g)) = ns) es)))"
proof -
  let ?z = "obj_from (map (\<lambda>ns. (ns, 0::int)) (cf_processingNamespaces cf))"
  have "obj_get ?z ns = Some 0" using assms by (simp add: obj_from_zero(2))
  then have "obj_get (pendingByNamespace cf es) ns \<noteq> None" "pend ?z ns = 0"
    using add_pending_keys [of ?z ns es] by (simp_all add: pendingByNamespace_def pend_def)
  moreover have "pend (pendingByNamespace cf es) ns = pend ?z ns + sum_list (map snd (filter (\<lambda>g. snd (snd (fst g)) = ns) es))"
    unfolding pendingByNamespace_def by (rule pend_foldl)
  ultimately show ?thesis by (auto simp: pend_def)
qed

lemma distinct_pendingByNamespace: "distinct (obj_keys (pendingByNamespace cf es))"
  unfolding pendingByNamespace_def by (intro distinct_add_pending obj_from_zero(1))

abbreviation global_key :: "config \<Rightarrow> string \<Rightarrow> string" where
  "global_key cf ns \<equiv> keyPrefix cf ns @ ''##stats##global''"

lemma write_global_other:
  assumes "hash_laws rh" "\<And>ns n. (ns, n) \<in> set m \<Longrightarrow> global_key cf ns \<noteq> k"
  shows "hash_value rh k f (foldl (\<lambda>st (ns, n). setGlobalCounter rh cf ns Pending n st) st m) = hash_value rh k f st"
  using assms(2)
proof (induction m arbitrary: st)
  case (Cons x m)
  obtain ns n where x: "x = (ns, n)" by fastforce
  have "global_key cf ns \<noteq> k" using Cons.prems [of ns n] x by simp
  moreover have "hash_value rh k f (foldl (\<lambda>st (ns, n). setGlobalCounter rh cf ns Pending n st) (setGlobalCounter rh cf ns Pending n st) m)
      = hash_value rh k f (setGlobalCounter rh cf ns Pending n st)"
    by (rule Cons.IH) (use Cons.prems in auto)
  ultimately show ?case using hash_value_simps(2) [OF assms(1)] by (simp add: x setGlobalCounter_def)
qed simp

lemma write_global_value:
  assumes "hash_laws rh" "distinct (obj_keys m)" "obj_get m ns = Some n"
  shows "hash_value rh (global_key cf ns) Pending (foldl (\<lambda>st (ns, n). setGlobalCounter rh cf ns Pending n st) st m) = n"
  using assms(2,3)
proof (induction m arbitrary: st)
  case (Cons x m)
  obtain ns' n' where x: "x = (ns', n')" by fastforce
  show ?case
  proof (cases "ns' = ns")
    case True
    have "global_key cf ns'' \<noteq> global_key cf ns" if "(ns'', n'') \<in> set m" for ns'' n''
      using Cons.prems(1) that by (auto simp: x True keyPrefix_def intro: rev_image_eqI)
    from write_global_other [OF assms(1), of m cf "global_key cf ns", OF this]
    have "hash_value rh (global_key cf ns) Pending (foldl (\<lambda>st (ns, n). setGlobalCounter rh cf ns Pending n st)
        (setGlobalCounter rh cf ns Pending n' st) m) = hash_value rh (global_key cf ns) Pending (setGlobalCounter rh cf ns Pending n' st)"
      by simp
    then show ?thesis
      using Cons.prems(2) hash_value_simps(2) [OF assms(1)] by (simp add: x True setGlobalCounter_def)
  next
    case False
    then show ?thesis using Cons by (simp add: x)
  qed
qed simp

abbreviation open_of :: "('r, 'h) runner_env \<Rightarrow> time \<Rightarrow> ('r, 'h) runner \<Rightarrow> string \<Rightarrow> entries" where
  "open_of rv now s t \<equiv> open_groups (rv_oe rv) (rn_cf s) now (rn_tables s (Some t))"

lemma broadcast_fold:
  assumes "foldl (broadcast_tenant rv now) (s, counts, bs) ts = (s', counts', bs')"
    and "distinct ts" "set ts \<inter> set (obj_keys counts) = {}"
  shows "rn_cf s' = rn_cf s \<and> rn_tables s' = rn_tables s \<and> rn_locks s' = rn_locks s
    \<and> counts' = counts @ map (\<lambda>t. (t, open_of rv now s t)) (filter (\<lambda>t. \<not> rv_fails rv (Some t)) ts)
    \<and> bs' = bs @ map (\<lambda>t. (Some t, map fst (open_of rv now s t)))
        (filter (\<lambda>t. \<not> rv_fails rv (Some t) \<and> open_of rv now s t \<noteq> []) ts)"
  using assms
proof (induction ts arbitrary: s counts bs)
  case (Cons t ts)
  show ?case
  proof (cases "rv_fails rv (Some t)")
    case True
    then have "broadcast_tenant rv now (s, counts, bs) t = (s, counts, bs)" by (simp add: broadcast_tenant_def)
    with Cons.IH [of s counts bs] Cons.prems True show ?thesis by simp
  next
    case False
    define st where "st = write_tenant_counters rv (rn_cf s) t (pendingByNamespace (rn_cf s) (open_of rv now s t)) (rn_stats s)"
    let ?s1 = "s\<lparr>rn_stats := st\<rparr>" and ?bs1 = "if open_of rv now s t = [] then bs else bs @ [(Some t, map fst (open_of rv now s t))]"
    have fresh: "obj_set t (open_of rv now s t) counts = counts @ [(t, open_of rv now s t)]"
      using Cons.prems(3) by (intro obj_set_fresh) auto
    have step: "broadcast_tenant rv now (s, counts, bs) t = (?s1, counts @ [(t, open_of rv now s t)], ?bs1)"
      using False by (simp add: broadcast_tenant_def unfiltered_entries st_def Let_def fresh)
    have "set ts \<inter> set (obj_keys (counts @ [(t, open_of rv now s t)])) = {}" using Cons.prems(2,3) by auto
    from Cons.IH [of ?s1 "counts @ [(t, open_of rv now s t)]" ?bs1, OF _ _ this] Cons.prems step False
    show ?thesis by simp
  qed
qed simp

lemma sum_list_concat_filter:
  "sum_list (map snd (filter P (concat xss))) = sum_list (map (\<lambda>xs. sum_list (map snd (filter P xs))) xss)"
  by (induction xss) simp_all

text \<open>
  C29. The instance that gets the lock of the run broadcasts, for every tenant it can read, exactly the
  combinations with open entries, and the counter of pending entries it writes for a namespace is the
  number of open entries of all those tenants in this namespace.
\<close>

theorem runner_counts_open_entries:
  assumes "hash_laws (rv_rh rv)" "arranged (rv_oe rv)" "rv_collectMetrics rv" "distinct ts"
    and "rv_filterSet rv \<or> snd (take_lock rv now None EVENT_QUEUE_RUN_REDIS_CHECK False (run_expiry rv (rn_cf s)) s)"
    and "ns \<in> set (cf_processingNamespaces (rn_cf s))"
    and "executeEventsAllTenantsRedis rv now ts s = (s', bs)"
  shows "bs = map (\<lambda>t. (Some t, map fst (open_of rv now s t)))
        (filter (\<lambda>t. \<not> rv_fails rv (Some t) \<and> open_of rv now s t \<noteq> []) ts)
    \<and> hash_value (rv_rh rv) (keyPrefix (rn_cf s) ns @ ''##stats##global'') Pending (rn_stats s')
      = sum_list (map (\<lambda>t. int (length (filter (\<lambda>r. is_open (rv_oe rv) (rn_cf s) now r \<and> ev_namespace r = ns) (rn_tables s (Some t)))))
          (filter (\<lambda>t. \<not> rv_fails rv (Some t)) ts))"
proof -
  let ?rh = "rv_rh rv" and ?cf = "rn_cf s" and ?ok = "filter (\<lambda>t. \<not> rv_fails rv (Some t)) ts"
  define s1 where "s1 = (if rv_filterSet rv then s
    else fst (take_lock rv now None EVENT_QUEUE_RUN_REDIS_CHECK False (run_expiry rv ?cf) s))"
  have s1: "rn_cf s1 = ?cf" "rn_tables s1 = rn_tables s" by (simp_all add: s1_def take_lock_simps)
  obtain s2 counts bs2 where f: "foldl (broadcast_tenant rv now) (s1, [], []) ts = (s2, counts, bs2)"
    by (metis prod_cases3)
  from broadcast_fold [OF this assms(4)]
  have f': "rn_cf s2 = ?cf" "counts = map (\<lambda>t. (t, open_of rv now s t)) ?ok"
    "bs2 = map (\<lambda>t. (Some t, map fst (open_of rv now s t))) (filter (\<lambda>t. \<not> rv_fails rv (Some t) \<and> open_of rv now s t \<noteq> []) ts)"
    by (simp_all add: s1)
  define m where "m = pendingByNamespace ?cf (concat (map snd counts))"
  have "executeEventsAllTenantsRedis rv now ts s = (s2\<lparr>rn_stats := write_global_counters rv ?cf m (rn_stats s2)\<rparr>, bs2)"
    using assms(5) f unfolding executeEventsAllTenantsRedis_def s1_def
    by (auto simp: f'(1) m_def split: prod.splits if_splits)
  with assms(7) have s': "s' = s2\<lparr>rn_stats := write_global_counters rv ?cf m (rn_stats s2)\<rparr>" "bs = bs2" by simp_all
  have groups: "sum_list (map snd (filter (\<lambda>g. snd (snd (fst g)) = ns) (open_of rv now s t)))
      = int (length (filter (\<lambda>r. is_open (rv_oe rv) ?cf now r \<and> ev_namespace r = ns) (rn_tables s (Some t))))" for t
    using sum_groups [OF assms(2), of "\<lambda>c. snd (snd c) = ns" ?cf now "rn_tables s (Some t)"] by (simp add: combo_of_def)
  have "hash_value ?rh (global_key ?cf ns) Pending (rn_stats s')
      = sum_list (map snd (filter (\<lambda>g. snd (snd (fst g)) = ns) (concat (map snd counts))))"
    unfolding s'(1) write_global_counters_def
    using write_global_value [OF assms(1) distinct_pendingByNamespace pendingByNamespace_get [OF assms(6)], folded m_def]
      assms(3) by (simp add: m_def)
  also have "\<dots> = sum_list (map (\<lambda>t. int (length (filter (\<lambda>r. is_open (rv_oe rv) ?cf now r \<and> ev_namespace r = ns) (rn_tables s (Some t))))) ?ok)"
    unfolding sum_list_concat_filter f'(2) by (simp add: o_def groups)
  finally show ?thesis using f'(3) s'(2) by simp
qed

text \<open>
  Of all instances only one broadcasts per interval: after an instance has got the lock of the run,
  a run of any other instance within 95 percent of the run interval neither broadcasts nor changes
  counters or tables, whatever other locks are taken and released in the meantime.
\<close>

theorem one_instance_broadcasts:
  assumes "cf_redisEnabled (rn_cf s) \<longrightarrow> redis_laws (rv_rd rv)" "\<not> rv_filterSet rv"
    and "take_lock rv t0 None EVENT_QUEUE_RUN_REDIS_CHECK False (run_expiry rv (rn_cf s)) s = (s0, True)"
    and "list_all (during t0 (lock_key (rn_cf s) None False EVENT_QUEUE_RUN_REDIS_CHECK False) (run_expiry rv (rn_cf s))) ops"
    and "rn_cf s1 = rn_cf s"
    and "rn_locks s1 = fst (run_locks (\<lambda>now k ttl. acquire_full (rv_rd rv) (rn_cf s) now None k ttl None False False)
           (\<lambda>now k l. fst (release_full (rv_rd rv) (rn_cf s) now k l)) ops (rn_locks s0))"
    and "t0 \<le> t" "t < t0 + run_expiry rv (rn_cf s)"
  shows "(case executeEventsAllTenantsRedis rv t ts s1 of
            (s2, bs) \<Rightarrow> bs = [] \<and> rn_stats s2 = rn_stats s1 \<and> rn_tables s2 = rn_tables s1)
    \<and> snd (singleTenantRedis rv t s1) = []"
proof -
  let ?k = "lock_key (rn_cf s) None False EVENT_QUEUE_RUN_REDIS_CHECK False" and ?ex = "run_expiry rv (rn_cf s)"
  have "acquire_full (rv_rd rv) (rn_cf s) t0 None ?k ?ex None False False (rn_locks s) = (rn_locks s0, True)"
    using take_lock_simps(4,5) [of rv t0 None EVENT_QUEUE_RUN_REDIS_CHECK False ?ex s] assms(3) by (simp add: prod_eq_iff)
  from acquire_blocked [OF assms(1) this assms(4,7,8)]
  have "\<not> snd (take_lock rv t None EVENT_QUEUE_RUN_REDIS_CHECK False ?ex s1)"
    by (simp add: take_lock_simps assms(5,6))
  then obtain s2 where "take_lock rv t None EVENT_QUEUE_RUN_REDIS_CHECK False ?ex s1 = (s2, False)"
    "rn_stats s2 = rn_stats s1" "rn_tables s2 = rn_tables s1"
    using take_lock_simps(2,3) [of rv t None EVENT_QUEUE_RUN_REDIS_CHECK False ?ex s1]
    by (metis prod.collapse)
  then show ?thesis
    using assms(2,5) by (simp add: executeEventsAllTenantsRedis_def singleTenantRedis_def)
qed


text \<open>
  What a run would claim, the check for open entries finds: an entry in a processed namespace that
  the processor may select is counted as open, if it was created or is due within the last thirty
  days and, in case it is in progress, its last attempt is older than the transaction timeout.
\<close>

theorem claimable_entries_are_found:
  assumes "selectable (oe_gc oe) p now r" "ev_namespace r \<in> set (cf_processingNamespaces cf)"
    and "now - 30 * MS_IN_DAYS \<le> ev_createdAt r \<or> sql_ge (ev_startAfter r) (now - 30 * MS_IN_DAYS)"
    and "ev_status r = InProgress \<longrightarrow> sql_le (ev_lastAttemptTimestamp r) (now - oe_globalTxTimeout oe)"
  shows "is_open oe cf now r"
  using assms by (auto simp: selectable_def status_selectable_def is_open_def)

text \<open>
  Instances that start at different times agree on the time of the first run: an instance that
  starts at \<open>t2\<close>, after another one set the time stamp of the run at \<open>t1\<close>, waits until the same moment,
  and at most one interval.
\<close>

theorem instances_start_in_sync:
  assumes "cf_redisEnabled (rn_cf s)" "redis_laws (rv_rd rv)" "parse (toISOString t1) = Some t1"
    and "getValue (rv_rd rv) (rn_cf s) t1 None EVENT_QUEUE_RUN_TS False (rn_locks s) = None"
    and "calculateOffsetForFirstRun rv parse o1 dev t1 s = (s1, Some d1)"
    and "rn_cf s' = rn_cf s" "rn_locks s' = rn_locks s1" "t1 \<le> t2" "t2 < t1 + rv_interval rv"
  shows "\<exists>d2. calculateOffsetForFirstRun rv parse o2 dev' t2 s' = (s', Some d2) \<and> t2 + d2 = t1 + d1 \<and> 0 < d2 \<and> d2 \<le> rv_interval rv"
proof -
  let ?k = "lock_key (rn_cf s) None False EVENT_QUEUE_RUN_TS False"
  have get: "getValue (rv_rd rv) (rn_cf s) t None EVENT_QUEUE_RUN_TS False ls = rd_get (rv_rd rv) t ?k (lo_redis ls)" for t ls
    by (simp add: getValue_def assms(1) Let_def)
  let ?set = "setValueWithExpire (rv_rd rv) (rn_cf s) t1 None EVENT_QUEUE_RUN_TS (toISOString t1) False (rv_interval rv) False False (rn_locks s)"
  let ?rset = "rd_set (rv_rd rv) t1 ?k (toISOString t1) (rv_interval rv) NX (lo_redis (rn_locks s))"
  have free: "rd_get (rv_rd rv) t1 ?k (lo_redis (rn_locks s)) = None" using assms(4) get by simp
  then have ok: "snd ?rset" using redis_lawsD(1) [OF assms(2)] by blast
  then have set: "snd ?set" "lo_redis (fst ?set) = fst ?rset"
    by (simp_all add: setValueWithExpire_def acquire_full_redis assms(1))
  have first: "last_run_ts rv t1 s = (s\<lparr>rn_locks := fst ?set\<rparr>, Some (toISOString t1))"
    using assms(4) set(1) by (simp add: last_run_ts_def Let_def split_beta)
  then have "calculateOffsetForFirstRun rv parse o1 dev t1 s = (s\<lparr>rn_locks := fst ?set\<rparr>, Some (rv_interval rv))"
    using assms(1,3) by (simp add: calculateOffsetForFirstRun_def)
  with assms(5) have s1: "s1 = s\<lparr>rn_locks := fst ?set\<rparr>" "d1 = rv_interval rv" by auto
  have "rd_get (rv_rd rv) t2 ?k (lo_redis (rn_locks s')) = Some (toISOString t1)"
    using redis_lawsD(2) [OF assms(2) ok assms(8)] assms(7,9) set(2) by (simp add: s1)
  moreover have "toISOString t1 \<noteq> []" by (simp add: toISOString_def Let_def split_beta)
  ultimately have "last_run_ts rv t2 s' = (s', Some (toISOString t1))"
    by (simp add: last_run_ts_def assms(6) get)
  then show ?thesis using assms(1,3,6,8,9) s1(2) by (simp add: calculateOffsetForFirstRun_def)
qed

subsection \<open>Witnesses\<close>

definition demo_oe :: open_env where
  "demo_oe = \<lparr>oe_gc = \<lparr>runInterval = 100, randomOffsetPeriodicEvents = None\<rparr>, oe_globalTxTimeout = 50, oe_arrange = rev, oe_sv = demo_sv\<rparr>"

definition demo_rv :: "(redis_store, hash_store) runner_env" where
  "demo_rv = \<lparr>rv_oe = demo_oe, rv_rd = demo_redis, rv_rh = demo_hash, rv_pv = demo_pv, rv_collectMetrics = True,
     rv_updatePeriodic = True, rv_filterSet = False, rv_tenantHash = concat, rv_fails = (\<lambda>t. t = Some ''t3'')\<rparr>"

definition demo_open_rows :: event_table where
  "demo_open_rows = [new_row ''1'' 5 ''T'' ''S'' ''default'' None, new_row ''2'' 5 ''T'' ''S'' ''default'' (Some 9),
     new_row ''3'' 5 ''T'' ''S'' ''default'' (Some 900), new_row ''4'' 5 ''T'' ''S'' ''other'' None]"

definition demo_rn :: "(redis_store, hash_store) runner" where
  "demo_rn = \<lparr>rn_cf = demo_bc_cfg, rn_locks = demo_locks, rn_stats = [], rn_tables = (\<lambda>t. demo_open_rows), rn_tenantIdHash = None\<rparr>"

lemma demo_arranged: "arranged demo_oe" by (simp add: arranged_def demo_oe_def)

definition demo_broadcast :: "(redis_store, hash_store) runner \<times> (tenant \<times> combo list) list" where
  "demo_broadcast = executeEventsAllTenantsRedis demo_rv 10 [''t1'', ''t2'', ''t3''] demo_rn"

theorem runner_counts_open_entries_witness:
  "map fst (snd demo_broadcast) = [Some ''t1'', Some ''t2'']
   \<and> hash_value demo_hash (keyPrefix demo_bc_cfg ''default'' @ ''##stats##global'') Pending (rn_stats (fst demo_broadcast)) = 4"
proof -
  have h: "hash_laws (rv_rh demo_rv)" "arranged (rv_oe demo_rv)" "rv_collectMetrics demo_rv" "distinct [''t1'', ''t2'', ''t3'']"
    by (simp_all add: demo_rv_def demo_hash_laws demo_arranged)
  have l: "snd (take_lock demo_rv 10 None EVENT_QUEUE_RUN_REDIS_CHECK False (run_expiry demo_rv (rn_cf demo_rn)) demo_rn)"
    "''default'' \<in> set (cf_processingNamespaces (rn_cf demo_rn))" by code_simp+
  have e: "executeEventsAllTenantsRedis demo_rv 10 [''t1'', ''t2'', ''t3''] demo_rn = (fst demo_broadcast, snd demo_broadcast)"
    by (simp add: demo_broadcast_def)
  have v: "map (\<lambda>t. fst (Some t, map fst (open_of demo_rv 10 demo_rn t)))
      (filter (\<lambda>t. \<not> rv_fails demo_rv (Some t) \<and> open_of demo_rv 10 demo_rn t \<noteq> []) [''t1'', ''t2'', ''t3'']) = [Some ''t1'', Some ''t2'']"
    "sum_list (map (\<lambda>t. int (length (filter (\<lambda>r. is_open (rv_oe demo_rv) (rn_cf demo_rn) 10 r \<and> ev_namespace r = ''default'')
       (rn_tables demo_rn (Some t))))) (filter (\<lambda>t. \<not> rv_fails demo_rv (Some t)) [''t1'', ''t2'', ''t3''])) = 4"
    "rv_rh demo_rv = demo_hash" "rn_cf demo_rn = demo_bc_cfg"
    by (code_simp, code_simp, simp add: demo_rv_def, simp add: demo_rn_def)
  from runner_counts_open_entries [OF h disjI2 [OF l(1)] l(2) e] v show ?thesis by (simp add: o_def)
qed

definition demo_locked :: "(redis_store, hash_store) runner" where
  "demo_locked = fst (take_lock demo_rv 10 None EVENT_QUEUE_RUN_REDIS_CHECK False (run_expiry demo_rv (rn_cf demo_rn)) demo_rn)"

theorem one_instance_broadcasts_witness:
  "snd (executeEventsAllTenantsRedis demo_rv 104 [''t1''] demo_locked) = [] \<and> snd (singleTenantRedis demo_rv 104 demo_locked) = []"
proof -
  have l: "take_lock demo_rv 10 None EVENT_QUEUE_RUN_REDIS_CHECK False (run_expiry demo_rv (rn_cf demo_rn)) demo_rn = (demo_locked, True)"
    unfolding demo_locked_def by (rule prod_eqI) (simp, code_simp)
  have h: "rn_cf demo_locked = rn_cf demo_rn" "104 < 10 + run_expiry demo_rv (rn_cf demo_rn)"
    by (simp add: demo_locked_def take_lock_simps, code_simp)
  from one_instance_broadcasts [of demo_rn demo_rv 10 demo_locked "[]" demo_locked 104 "[''t1'']", OF _ _ l _ h(1) _ _ h(2)]
  show ?thesis by (auto simp: demo_rv_def demo_redis_laws split: prod.splits)
qed


theorem claimable_entries_are_found_witness:
  "is_open demo_oe demo_bc_cfg 10 (new_row ''1'' 5 ''T'' ''S'' ''default'' None)"
proof (rule claimable_entries_are_found [where p = demo_proc])
  show "selectable (oe_gc demo_oe) demo_proc 10 (new_row ''1'' 5 ''T'' ''S'' ''default'' None)" by code_simp
  show "ev_namespace (new_row ''1'' 5 ''T'' ''S'' ''default'' None) \<in> set (cf_processingNamespaces demo_bc_cfg)" by code_simp
qed (simp_all add: new_row_def MS_IN_DAYS_def Open_def InProgress_def)

theorem instances_start_in_sync_witness:
  "snd (calculateOffsetForFirstRun demo_rv (\<lambda>v. if v = toISOString 20 then Some 20 else None) None False 60
     (fst (calculateOffsetForFirstRun demo_rv (\<lambda>v. if v = toISOString 20 then Some 20 else None) None False 20 demo_rn))) = Some 60"
proof -
  let ?parse = "\<lambda>v. if v = toISOString 20 then Some 20 else None"
  let ?first = "calculateOffsetForFirstRun demo_rv ?parse None False 20 demo_rn"
  have h: "cf_redisEnabled (rn_cf demo_rn)" "getValue (rv_rd demo_rv) (rn_cf demo_rn) 20 None EVENT_QUEUE_RUN_TS False (rn_locks demo_rn) = None"
    "snd ?first = Some 100" "rn_cf (fst ?first) = rn_cf demo_rn" "rv_interval demo_rv = 100" by code_simp+
  have f: "?first = (fst ?first, Some 100)" using h(3) by (metis prod.collapse)
  have laws: "redis_laws (rv_rd demo_rv)" by (simp add: demo_rv_def demo_redis_laws)
  show ?thesis
    using instances_start_in_sync [OF h(1) laws _ h(2) f h(4) refl, of 60 None False] h(5) by auto
qed

end
