(* ===== verification/Outbox.thy ===== *)
theory Outbox
  imports PublishEvent
begin

text \<open>
  \<open>src/outbox/EventQueueGenericOutboxHandler.js\<close>: the processor that calls the handlers of a CAP service
  for the events of its outbox.  Handlers are known by the names they are registered for; a call of
  the service is what it returns or throws, a parameter of the definitions.

  Groups of definitions: which handlers exist, and clustering by action and by a property.  What is
  dispatched to the service, what the returned value means for the entries and the follow-up events of
  a saga are in \<open>OutboxResults\<close>.

  Proved: the cluster helpers partition the entries.
\<close>

subsection \<open>Names\<close>

definition ACTION_EXCEEDED :: string where "ACTION_EXCEEDED = ''eventQueueRetriesExceeded''"
definition ACTION_CLUSTER :: string where "ACTION_CLUSTER = ''eventQueueCluster''"
definition ACTION_CHECK_AND_ADJUST :: string where "ACTION_CHECK_AND_ADJUST = ''eventQueueCheckAndAdjustPayload''"

definition PROPAGATE_EVENT_QUEUE_ENTRIES :: "string list" where
  "PROPAGATE_EVENT_QUEUE_ENTRIES =
     [''ID'', ''lastAttempTimestamp'', ''payload'', ''referenceEntity'', ''referenceEntityKey'', ''status'']"

definition starts_with :: "string \<Rightarrow> string \<Rightarrow> bool" where
  "starts_with p s \<longleftrightarrow> take (length p) s = p"

definition ends_with :: "string \<Rightarrow> string \<Rightarrow> bool" where
  "ends_with p s \<longleftrightarrow> length p \<le> length s \<and> drop (length s - length p) s = p"

subsection \<open>Handlers of the service\<close>

text \<open>What the processor remembers of the service: the names of its handlers, whether there are cluster
  handlers, and whether a selected entry needs one.\<close>

record outbox =
  ob_onHandlers :: "string jsobj"
  ob_genericClusterHandler :: bool
  ob_specificClusterHandler :: bool
  ob_genericRelevant :: bool
  ob_specificRelevant :: bool

text \<open>The registration at the begin of \<open>getQueueEntriesAndSetToInProgress\<close>.\<close>

definition note_handler :: "outbox \<Rightarrow> string \<Rightarrow> outbox" where
  "note_handler ob nm =
     (let ob1 = (if starts_with ACTION_CLUSTER nm
                 then if length (split_char (CHR ''.'') nm) = 2 then ob\<lparr>ob_specificClusterHandler := True\<rparr>
                      else ob\<lparr>ob_genericClusterHandler := True\<rparr>
                 else ob)
      in ob1\<lparr>ob_onHandlers := obj_set nm nm (ob_onHandlers ob1)\<rparr>)"

definition register_handlers :: "string list \<Rightarrow> outbox \<Rightarrow> outbox" where
  "register_handlers names ob =
     foldl note_handler
       (ob\<lparr>ob_onHandlers := [], ob_genericClusterHandler := False, ob_specificClusterHandler := False\<rparr>) names"

text \<open>\<open>v.event\<close> as it is joined into a name\<close>

definition event_name :: "jsval \<Rightarrow> string" where
  "event_name payload = key_part (opt_get payload ''event'')"

definition hasEventSpecificClusterHandler :: "outbox \<Rightarrow> jsval \<Rightarrow> bool" where
  "hasEventSpecificClusterHandler ob payload =
     (case obj_get (ob_onHandlers ob) (join ''.'' [ACTION_CLUSTER, event_name payload]) of None \<Rightarrow> False | Some h \<Rightarrow> h \<noteq> [])"

text \<open>\<open>modifyQueueEntry\<close>, on the entry with its parsed payload.\<close>

definition note_cluster_relevance :: "jsval \<Rightarrow> outbox \<Rightarrow> outbox" where
  "note_cluster_relevance payload ob =
     (let specific = hasEventSpecificClusterHandler ob payload;
          ob1 = (if ob_specificClusterHandler ob \<and> specific then ob\<lparr>ob_specificRelevant := True\<rparr> else ob)
      in if ob_genericClusterHandler ob1 \<and> \<not> specific then ob1\<lparr>ob_genericRelevant := True\<rparr> else ob1)"

text \<open>\<open>#checkHandlerExists\<close>, for an event queue function and for a saga.\<close>

definition queue_handler :: "outbox \<Rightarrow> string \<Rightarrow> string \<Rightarrow> string option" where
  "queue_handler ob fn event =
     (case obj_get (ob_onHandlers ob) (join ''.'' [fn, event]) of
        Some h \<Rightarrow> if h \<noteq> [] then Some h else obj_get (ob_onHandlers ob) fn
      | None \<Rightarrow> obj_get (ob_onHandlers ob) fn)"

definition saga_base :: "string \<Rightarrow> string" where
  "saga_base event =
     (if ends_with SAGA_SUCCESS event \<or> ends_with SAGA_DONE event
      then hd (split_char (CHR ''/'') event) else event)"

definition saga_handler :: "outbox \<Rightarrow> string \<Rightarrow> string \<Rightarrow> string option" where
  "saga_handler ob event saga =
     (case obj_get (ob_onHandlers ob) (join ''/'' [saga_base event, saga]) of
        Some h \<Rightarrow> if h \<noteq> [] then Some h else obj_get (ob_onHandlers ob) saga
      | None \<Rightarrow> obj_get (ob_onHandlers ob) saga)"

subsection \<open>Clustering\<close>

type_synonym payload_map = "(event_row \<times> jsval) jsobj"
type_synonym cluster_map = "(event_row list \<times> jsval) jsobj"

definition add_group :: "string \<Rightarrow> string \<Rightarrow> event_row \<times> jsval \<Rightarrow> payload_map jsobj \<Rightarrow> payload_map jsobj" where
  "add_group action eventId d m =
     obj_set action (obj_set eventId d (case obj_get m action of None \<Rightarrow> [] | Some g \<Rightarrow> g)) m"

text \<open>Generic and specific events by action.\<close>

definition action_step :: "outbox \<Rightarrow> payload_map jsobj \<times> payload_map jsobj \<Rightarrow> string \<times> event_row \<times> jsval \<Rightarrow> payload_map jsobj \<times> payload_map jsobj" where
  "action_step ob acc x =
     (case acc of (gen, spec) \<Rightarrow> case x of (eventId, r, payload) \<Rightarrow>
        if hasEventSpecificClusterHandler ob (ev_payload r) \<and> ob_specificRelevant ob
        then (gen, add_group (event_name payload) eventId (r, payload) spec)
        else (add_group (event_name payload) eventId (r, payload) gen, spec))"

definition clusterByAction :: "outbox \<Rightarrow> payload_map \<Rightarrow> payload_map jsobj \<times> payload_map jsobj" where
  "clusterByAction ob m = foldl (action_step ob) ([], []) m"

text \<open>What a cluster handler may answer: \<open>None\<close> is no plain object; an entry whose \<open>queueEntries\<close> are no
  array has \<open>None\<close> there.\<close>

type_synonym cluster_answer = "(event_row list option \<times> jsval) jsobj option"

definition plain_object :: "jsval \<Rightarrow> bool" where
  "plain_object v = (case v of JObj ps \<Rightarrow> True | JErr n m st ps \<Rightarrow> True | JDate t \<Rightarrow> True | _ \<Rightarrow> False)"

definition validateCluster :: "cluster_answer \<Rightarrow> bool" where
  "validateCluster ans =
     (case ans of None \<Rightarrow> False | Some m \<Rightarrow> list_all (\<lambda>(k, qs, payload). qs \<noteq> None \<and> plain_object payload) m)"

definition answered :: "cluster_answer \<Rightarrow> cluster_map" where
  "answered ans =
     (case ans of None \<Rightarrow> [] | Some m \<Rightarrow> map (\<lambda>(k, qs, payload). (k, (case qs of None \<Rightarrow> [] | Some rs \<Rightarrow> rs), payload)) m)"

text \<open>\<open>ref[part]\<close> along a dotted path; \<open>None\<close> throws.\<close>

fun walk :: "jsval \<Rightarrow> string list \<Rightarrow> jsval option" where
  "walk v [] = Some v"
| "walk v (p # ps) = (case js_get v p of None \<Rightarrow> None | Some w \<Rightarrow> walk w ps)"

definition resolveRefBase :: "string \<Rightarrow> string \<Rightarrow> jsval \<Rightarrow> string option" where
  "resolveRefBase propertyName actionName startRef =
     map_option (\<lambda>ref. join hash_sep [actionName, key_part ref]) (walk startRef (split_char (CHR ''.'') propertyName))"

text \<open>\<open>clusterBase\<close> without its callback: \<open>start r payload\<close> is where the property is looked up.\<close>

fun cluster_entries_by ::
  "string \<Rightarrow> string \<Rightarrow> (event_row \<Rightarrow> jsval \<Rightarrow> jsval) \<Rightarrow> payload_map \<Rightarrow> cluster_map \<Rightarrow> cluster_map option" where
  "cluster_entries_by prop' action start [] acc = Some acc"
| "cluster_entries_by prop' action start ((i, r, payload) # m) acc =
     (case resolveRefBase prop' action (start r payload) of
        None \<Rightarrow> None
      | Some key \<Rightarrow>
          let cur = (case obj_get acc key of None \<Rightarrow> ([], payload) | Some c \<Rightarrow> c)
          in cluster_entries_by prop' action start m (obj_set key (fst cur @ [r], snd cur) acc))"

definition set_data :: "jsval \<Rightarrow> jsval \<Rightarrow> jsval" where
  "set_data d payload = JObj (obj_set ''data'' d (as_obj payload))"

text \<open>The callback of \<open>clusterBase\<close>: it gets the last part of the key and the data of the entries, and
  replaces the data of the cluster; nothing returned is an error.\<close>

fun apply_cluster_cb :: "string \<Rightarrow> (string \<Rightarrow> jsval list \<Rightarrow> jsval) \<Rightarrow> cluster_map \<Rightarrow> EventQueueError + cluster_map" where
  "apply_cluster_cb prop' cb [] = Inr []"
| "apply_cluster_cb prop' cb ((key, rs, payload) # m) =
     (let res = cb (last (split_hash key)) (map (\<lambda>r. opt_get (ev_payload r) ''data'') rs) in
      if \<not> truthy res then Inl (invalidClusterHandlerResult (JStr key) (JStr prop'))
      else case apply_cluster_cb prop' cb m of
             Inl err \<Rightarrow> Inl err | Inr m' \<Rightarrow> Inr ((key, rs, set_data res payload) # m'))"

definition row_value :: "event_row \<Rightarrow> jsval" where
  "row_value r = JObj [(''ID'', JStr (ev_ID r)), (''type'', JStr (ev_type r)), (''subType'', JStr (ev_subType r)),
     (''referenceEntity'', (case ev_referenceEntity r of None \<Rightarrow> JNull | Some s \<Rightarrow> JStr s)),
     (''referenceEntityKey'', (case ev_referenceEntityKey r of None \<Rightarrow> JNull | Some s \<Rightarrow> JStr s)),
     (''status'', JNum (ev_status r)), (''payload'', ev_payload r), (''attempts'', JNum (ev_attempts r)),
     (''namespace'', JStr (ev_namespace r))]"

definition clusterByPayloadProperty :: "string \<Rightarrow> payload_map \<Rightarrow> string \<Rightarrow> cluster_map option" where
  "clusterByPayloadProperty action m prop' = cluster_entries_by prop' action (\<lambda>r payload. payload) m []"

definition clusterByEventProperty :: "string \<Rightarrow> payload_map \<Rightarrow> string \<Rightarrow> cluster_map option" where
  "clusterByEventProperty action m prop' = cluster_entries_by prop' action (\<lambda>r payload. row_value r) m []"

definition clusterByDataProperty :: "string \<Rightarrow> payload_map \<Rightarrow> string \<Rightarrow> cluster_map option" where
  "clusterByDataProperty action m prop' = cluster_entries_by prop' action (\<lambda>r payload. opt_get payload ''data'') m []"

definition addToProcessingMap :: "cluster_map \<Rightarrow> processor \<Rightarrow> processor" where
  "addToProcessingMap m p =
     foldl (\<lambda>p (key, rs, payload). foldl (\<lambda>p r. addEntryToProcessingMap key r payload p) p rs) p m"

text \<open>Asking the service once per action; \<open>None\<close>: an answer is not valid.\<close>

fun ask_clusters :: "(string \<Rightarrow> payload_map \<Rightarrow> cluster_answer) \<Rightarrow> payload_map jsobj \<Rightarrow> cluster_map \<Rightarrow> cluster_map option" where
  "ask_clusters ask [] acc = Some acc"
| "ask_clusters ask ((action, g) # gs) acc =
     (if validateCluster (ask action g) then ask_clusters ask gs (obj_assign acc (answered (ask action g))) else None)"

definition outbox_clusterQueueEntries ::
  "(string \<Rightarrow> payload_map \<Rightarrow> cluster_answer) \<Rightarrow> (string \<Rightarrow> payload_map \<Rightarrow> cluster_answer) \<Rightarrow> outbox \<Rightarrow> payload_map \<Rightarrow> processor \<Rightarrow> processor" where
  "outbox_clusterQueueEntries askGeneric askSpecific ob m p =
     (if \<not> ob_genericRelevant ob \<and> \<not> ob_specificRelevant ob then clusterQueueEntries m p
      else case clusterByAction ob m of (gen, spec) \<Rightarrow>
        let p1 = (if ob_genericRelevant ob then p else foldl (\<lambda>p (a, g). clusterQueueEntries g p) p gen) in
        (case (if ob_genericRelevant ob then ask_clusters askGeneric gen [] else Some []) of
           None \<Rightarrow> clusterQueueEntries m p1
         | Some acc \<Rightarrow>
             (case ask_clusters askSpecific spec acc of
                None \<Rightarrow> clusterQueueEntries m p1
              | Some acc' \<Rightarrow> addToProcessingMap acc' p1)))"

subsection \<open>Lemmas\<close>

lemma register_handlers_get: "obj_get (ob_onHandlers (register_handlers names ob)) k = (if k \<in> set names then Some k else None)"
proof -
  have "obj_get (ob_onHandlers (foldl note_handler ob names)) k = (if k \<in> set names then Some k else obj_get (ob_onHandlers ob) k)" for ob
    by (induction names arbitrary: ob) (auto simp: note_handler_def Let_def)
  then show ?thesis by (simp add: register_handlers_def)
qed

lemma ends_with_append [simp]: "ends_with p (xs @ p)"
  by (simp add: ends_with_def)

lemma ends_with_self [simp]: "ends_with p p"
  by (simp add: ends_with_def)

lemma saga_handler_suffix:
  assumes "saga_handler (register_handlers names ob) event saga = Some h"
  shows "ends_with saga h"
  using assms ends_with_append [of saga "saga_base event @ ''/''"]
  by (auto simp: saga_handler_def register_handlers_get split: option.splits if_splits)

definition cluster_rows :: "cluster_map \<Rightarrow> event_row multiset" where
  "cluster_rows m = mset (concat (map (\<lambda>(k, rs, payload). rs) m))"

lemma cluster_rows_set:
  "cluster_rows (obj_set k (fst cur @ [r], snd cur) acc) = add_mset r (cluster_rows acc)"
  if "cur = (case obj_get acc k of None \<Rightarrow> ([], payload) | Some c \<Rightarrow> c)"
  using that by (induction acc) (auto simp: cluster_rows_def split: if_splits)

lemma cluster_entries_by_rows:
  "cluster_entries_by prop' action start m acc = Some c \<Longrightarrow>
     cluster_rows c = cluster_rows acc + mset (map (\<lambda>(i, r, payload). r) m)"
proof (induction prop' action start m acc rule: cluster_entries_by.induct)
  case (2 prop' action start i r payload m acc)
  obtain key where key: "resolveRefBase prop' action (start r payload) = Some key"
    using 2(2) by (auto split: option.splits)
  define cur where "cur = (case obj_get acc key of None \<Rightarrow> ([], payload) | Some c \<Rightarrow> c)"
  have "cluster_entries_by prop' action start m (obj_set key (fst cur @ [r], snd cur) acc) = Some c"
    using 2(2) key by (simp add: Let_def cur_def)
  from 2(1) [OF key refl, folded cur_def, OF this] cluster_rows_set [OF cur_def, of r]
  show ?case by simp
qed simp

text \<open>Every row of a cluster belongs under its key.\<close>

lemma cluster_entries_by_keys:
  assumes "cluster_entries_by prop' action start m acc = Some c"
    and "\<And>k rs pl r. (k, rs, pl) \<in> set acc \<Longrightarrow> r \<in> set rs \<Longrightarrow> r \<in> R k"
    and "\<And>i r pl k. (i, r, pl) \<in> set m \<Longrightarrow> resolveRefBase prop' action (start r pl) = Some k \<Longrightarrow> r \<in> R k"
    and "(k, rs, pl) \<in> set c" "r \<in> set rs"
  shows "r \<in> R k"
  using assms
proof (induction prop' action start m acc rule: cluster_entries_by.induct)
  case (1 prop' action start acc)
  then show ?case by auto
next
  case (2 prop' action start i r0 payload m acc)
  obtain key where key: "resolveRefBase prop' action (start r0 payload) = Some key"
    using 2(2) by (auto split: option.splits)
  define cur where "cur = (case obj_get acc key of None \<Rightarrow> ([], payload) | Some c \<Rightarrow> c)"
  have run: "cluster_entries_by prop' action start m (obj_set key (fst cur @ [r0], snd cur) acc) = Some c"
    using 2(2) key by (simp add: Let_def cur_def)
  have r0: "r0 \<in> R key" using 2(4) [of i r0 payload key] key by simp
  have cur: "x \<in> R key" if "x \<in> set (fst cur)" for x
    using that 2(3) [of key "fst cur" "snd cur" x] by (auto simp: cur_def dest: map_of_SomeD split: option.splits)
  have acc: "x \<in> R k'" if "(k', rs', pl') \<in> set (obj_set key (fst cur @ [r0], snd cur) acc)" "x \<in> set rs'" for k' rs' pl' x
    using obj_set_mem [OF that(1)] that(2) r0 cur 2(3) by auto
  have new: "x \<in> R k'" if "(i', x, pl') \<in> set m" "resolveRefBase prop' action (start x pl') = Some k'" for i' x pl' k'
    using 2(4) [of i' x pl' k'] that by simp
  show ?case
    by (rule 2(1) [OF key refl, folded cur_def, OF run]; use acc new 2(5,6) in blast)
qed

lemma cluster_helpers_keep_rows:
  assumes "c \<in> {clusterByPayloadProperty action m prop', clusterByEventProperty action m prop', clusterByDataProperty action m prop'}"
    and "c = Some res"
  shows "cluster_rows res = mset (map (\<lambda>(i, r, payload). r) m)"
  using assms cluster_entries_by_rows [of prop' action _ m "[]" res]
  by (auto simp: clusterByPayloadProperty_def clusterByEventProperty_def clusterByDataProperty_def cluster_rows_def)

text \<open>
  The helpers a cluster handler is given partition the entries: every entry of the action is in
  exactly one cluster, and the entries of a cluster have the same value of the property.
\<close>

theorem clusters_partition_entries:
  assumes "clusterByDataProperty action m prop' = Some res"
  shows "mset (concat (map (\<lambda>(k, rs, payload). rs) res)) = mset (map (\<lambda>(i, r, payload). r) m)
    \<and> (\<forall>k rs payload r. (k, rs, payload) \<in> set res \<and> r \<in> set rs \<longrightarrow>
        (\<exists>i pl. (i, r, pl) \<in> set m \<and> resolveRefBase prop' action (opt_get pl ''data'') = Some k))"
proof -
  have run: "cluster_entries_by prop' action (\<lambda>r payload. opt_get payload ''data'') m [] = Some res"
    using assms by (simp add: clusterByDataProperty_def)
  let ?R = "\<lambda>k. {r. \<exists>i pl. (i, r, pl) \<in> set m \<and> resolveRefBase prop' action (opt_get pl ''data'') = Some k}"
  have "r \<in> ?R k" if "(k, rs, payload) \<in> set res" "r \<in> set rs" for k rs payload r
    by (rule cluster_entries_by_keys [OF run _ _ that]) auto
  then have "\<forall>k rs payload r. (k, rs, payload) \<in> set res \<and> r \<in> set rs \<longrightarrow>
      (\<exists>i pl. (i, r, pl) \<in> set m \<and> resolveRefBase prop' action (opt_get pl ''data'') = Some k)" by blast
  moreover have "mset (concat (map (\<lambda>(k, rs, payload). rs) res)) = mset (map (\<lambda>(i, r, payload). r) m)"
    using cluster_helpers_keep_rows [of "Some res" action m prop' res] assms by (simp add: cluster_rows_def)
  ultimately show ?thesis by blast
qed

subsection \<open>Witness\<close>

definition demo_outbox_payload :: "string \<Rightarrow> jsval" where
  "demo_outbox_payload to = JObj [(''event'', JStr ''sendMail''), (''data'', JObj [(''to'', JStr to)])]"

definition demo_outbox_map :: payload_map where
  "demo_outbox_map = map (\<lambda>(i, to). (i, new_row i 0 ''CAP_OUTBOX'' ''Mail'' ''default'' None, demo_outbox_payload to))
     [(''1'', ''me''), (''2'', ''you''), (''3'', ''me'')]"

theorem clusters_partition_entries_witness:
  "mset (concat (map (\<lambda>(k, rs, payload). rs) (the (clusterByDataProperty ''sendMail'' demo_outbox_map ''to''))))
     = mset (map (\<lambda>(i, r, payload). r) demo_outbox_map)
   \<and> map fst (the (clusterByDataProperty ''sendMail'' demo_outbox_map ''to'')) = [''sendMail##me'', ''sendMail##you'']"
proof -
  have "clusterByDataProperty ''sendMail'' demo_outbox_map ''to'' = Some (the (clusterByDataProperty ''sendMail'' demo_outbox_map ''to''))"
    "map fst (the (clusterByDataProperty ''sendMail'' demo_outbox_map ''to'')) = [''sendMail##me'', ''sendMail##you'']" by code_simp+
  with clusters_partition_entries [OF this(1)] show ?thesis by blast
qed

end
