(* ===== verification/OutboxResults.thy ===== *)
theory OutboxResults
  imports Outbox
begin

text \<open>
  The second half of \<open>src/outbox/EventQueueGenericOutboxHandler.js\<close>: what is dispatched to the service, what
  its answer means for the entries (\<open>#determineResultStatus\<close>), and the follow-up events of a saga
  (\<open>#publishFollowupEvents\<close>).

  The service is a parameter: what it returns or throws for a request.  A status tuple is a JavaScript
  array of id and status or object, as \<open>setEventStatus\<close> of the base class takes it.

  Proved: a result that is no array gives every entry exactly one status of the allowed form; follow-up
  events never chain further than two steps, and the events a handler publishes itself are kept apart
  from them.
\<close>

subsection \<open>Dispatching\<close>

record dispatch =
  di_event :: jsval
  di_payload :: "jsval jsobj"
  di_user :: jsval
  di_send :: bool
  di_trigger :: jsval

definition triggered :: "jsval \<Rightarrow> jsval" where
  "triggered payload = opt_get (opt_get payload ''data'') ''triggerEvent''"

text \<open>\<open>#buildDispatchData\<close>: the trigger event is parsed and removed from the data; a text that cannot be
  parsed is only logged.  The request has neither the flag nor the user of the payload.\<close>

definition buildDispatchData :: "(string \<Rightarrow> jsval option) \<Rightarrow> bool \<Rightarrow> string \<Rightarrow> jsval \<Rightarrow> dispatch" where
  "buildDispatchData parse useEventQueueUser userId payload =
     (let tr = triggered payload;
          ps = (if truthy tr
                then obj_set ''data'' (JObj (obj_del ''triggerEvent'' (as_obj (opt_get payload ''data'')))) (as_obj payload)
                else as_obj payload)
      in \<lparr>di_event = opt_get payload ''event'',
          di_payload = obj_del ''contextUser'' (obj_del ''_fromSend'' ps),
          di_user = (if useEventQueueUser then JStr userId else opt_get payload ''contextUser''),
          di_send = truthy (opt_get payload ''_fromSend''),
          di_trigger = (if truthy tr then (case parse (key_part tr) of None \<Rightarrow> JUndef | Some v \<Rightarrow> v) else JUndef)\<rparr>)"

text \<open>\<open>checkEventAndGeneratePayload\<close>: a handler may replace the data or, by returning nothing, finish the
  entry (\<open>null\<close> is done without processing).\<close>

definition outbox_checkEvent :: "(string \<Rightarrow> dispatch \<Rightarrow> jsval + jsval) \<Rightarrow> (string \<Rightarrow> jsval option) \<Rightarrow> bool \<Rightarrow> string \<Rightarrow> outbox \<Rightarrow> event_row \<Rightarrow> jsval + jsval" where
  "outbox_checkEvent call parse useUser userId ob r =
     (case queue_handler ob ACTION_CHECK_AND_ADJUST (event_name (ev_payload r)) of
        None \<Rightarrow> Inr (ev_payload r)
      | Some h \<Rightarrow>
          (case call h (buildDispatchData parse useUser userId (ev_payload r)) of
             Inl err \<Rightarrow> Inl err
           | Inr d \<Rightarrow> Inr (if truthy d then set_data d (ev_payload r) else JNull)))"

text \<open>\<open>hookForExceededEvents\<close>: without a handler the hook of the base class does nothing.\<close>

definition outbox_hookForExceeded :: "(string \<Rightarrow> dispatch \<Rightarrow> jsval + jsval) \<Rightarrow> (string \<Rightarrow> jsval option) \<Rightarrow> bool \<Rightarrow> string \<Rightarrow> outbox \<Rightarrow> event_row \<Rightarrow> jsval + unit" where
  "outbox_hookForExceeded call parse useUser userId ob r =
     (case queue_handler ob ACTION_EXCEEDED (event_name (ev_payload r)) of
        None \<Rightarrow> Inr ()
      | Some h \<Rightarrow>
          (case call h (buildDispatchData parse useUser userId (ev_payload r)) of Inl err \<Rightarrow> Inl err | Inr v \<Rightarrow> Inr ()))"

subsection \<open>The meaning of a result\<close>

definition is_status :: "jsval \<Rightarrow> bool" where
  "is_status v \<longleftrightarrow> v \<in> JNum ` {Open, InProgress, Done, Error, Exceeded, Suspended}"

text \<open>\<open>v instanceof Object\<close> and \<open>Object.keys(v)\<close>\<close>

fun is_object :: "jsval \<Rightarrow> bool" where
  "is_object (JObj ps) = True"
| "is_object (JErr n m st ps) = True"
| "is_object (JDate t) = True"
| "is_object (JArr vs) = True"
| "is_object v = False"

fun own_keys :: "jsval \<Rightarrow> string list" where
  "own_keys (JObj ps) = map fst ps"
| "own_keys (JErr n m st ps) = map fst ps"
| "own_keys (JArr vs) = map show_nat [0..<length vs]"
| "own_keys v = []"

definition all_allowed :: "jsval \<Rightarrow> bool" where
  "all_allowed v = list_all (\<lambda>k. k \<in> set ALLOWED_FIELDS_FOR_UPDATE) (own_keys v)"

definition status_tuple :: "jsval \<Rightarrow> string \<Rightarrow> jsval" where
  "status_tuple v i = JArr [JStr i, v]"

definition status_obj :: "jsval \<Rightarrow> jsval" where
  "status_obj v = JObj [(''status'', v)]"

abbreviation done_tuples :: "string list \<Rightarrow> jsval list" where
  "done_tuples ids \<equiv> map (status_tuple (status_obj (JNum Done))) ids"

text \<open>An array of pairs with plain statuses.\<close>

fun wrap_tuples :: "jsval list \<Rightarrow> jsval list option" where
  "wrap_tuples [] = Some []"
| "wrap_tuples (t # ts) =
     (case tuple_parts t of
        None \<Rightarrow> None
      | Some (i, st) \<Rightarrow> map_option (\<lambda>r. JArr [i, status_obj st] # r) (wrap_tuples ts))"

text \<open>An array of objects: the id is taken from the object or, for a single entry, from the entry.  An
  object with further properties is reported as done and as itself.\<close>

definition object_tuples1 :: "string list \<Rightarrow> jsval \<Rightarrow> jsval list option" where
  "object_tuples1 ids v =
     (case js_get v ''ID'' of
        None \<Rightarrow> None
      | Some i \<Rightarrow>
          if \<not> is_object v \<or> \<not> truthy i \<and> length ids > 1 \<or> \<not> truthy i \<and> ids = [] then None
          else let i' = (if truthy i then i else JStr (hd ids));
                   ps = (case v of JObj ps \<Rightarrow> obj_del ''ID'' ps | JErr n m st ps \<Rightarrow> obj_del ''ID'' ps | _ \<Rightarrow> []);
                   allowed = (case v of JArr vs \<Rightarrow> vs = [] | _ \<Rightarrow> list_all (\<lambda>k. k \<in> set ALLOWED_FIELDS_FOR_UPDATE) (map fst ps));
                   ps' = (if obj_has ps ''status'' then ps else obj_set ''status'' (JNum Done) ps)
               in Some ((if allowed then [] else [JArr [i', status_obj (JNum Done)]]) @ [JArr [i', JObj ps']]))"

fun object_tuples :: "string list \<Rightarrow> jsval list \<Rightarrow> jsval list option" where
  "object_tuples ids [] = Some []"
| "object_tuples ids (v # vs) =
     (case object_tuples1 ids v of None \<Rightarrow> None | Some ts \<Rightarrow> map_option ((@) ts) (object_tuples ids vs))"

text \<open>\<open>result.some(...)\<close> over an array of other values\<close>

fun some_invalid :: "jsval list \<Rightarrow> bool option" where
  "some_invalid [] = Some False"
| "some_invalid (t # ts) =
     (case tuple_parts t of None \<Rightarrow> None | Some (i, st) \<Rightarrow> if is_status st then some_invalid ts else Some True)"

definition determineResultStatus :: "jsval \<Rightarrow> string list \<Rightarrow> jsval list option" where
  "determineResultStatus result ids =
     (if is_status result then Some (map (status_tuple (status_obj result)) ids)
      else case result of
        JArr rs \<Rightarrow>
          (case rs of
             JArr first # _ \<Rightarrow>
               (let inner = (if 1 < length first then first ! 1 else JUndef) in
                if is_object inner then Some (if all_allowed inner then rs else done_tuples ids) else wrap_tuples rs)
           | v # _ \<Rightarrow>
               if is_object v then object_tuples ids rs
               else map_option (\<lambda>bad. if bad then done_tuples ids else rs) (some_invalid rs)
           | [] \<Rightarrow> Some [])
      | v \<Rightarrow>
          if is_object v then Some (map (status_tuple (if all_allowed v then v else status_obj (JNum Done))) ids)
          else Some (done_tuples ids))"

definition error_obj :: "jsval \<Rightarrow> jsval" where
  "error_obj err = JObj [(''status'', JNum Error), (''error'', err)]"

text \<open>The tuples of \<open>processEvent\<close>; the text of a \<open>TypeError\<close> of the engine is left out.\<close>

definition result_tuples :: "jsval + jsval \<Rightarrow> string list \<Rightarrow> jsval list" where
  "result_tuples res ids =
     (case res of
        Inl err \<Rightarrow> map (status_tuple (error_obj err)) ids
      | Inr v \<Rightarrow>
          (case determineResultStatus v ids of
             None \<Rightarrow> map (status_tuple (error_obj (JErr ''TypeError'' [] [] []))) ids
           | Some ts \<Rightarrow> ts))"

subsection \<open>Follow-up events\<close>

record saga_req =
  sr_event :: string
  sr_data :: "jsval jsobj"
  sr_entries :: "event_row list"

text \<open>The context given to the follow-up event when a single entry was processed.\<close>

definition triggerEventPropagate :: "jsval \<Rightarrow> event_row \<Rightarrow> string" where
  "triggerEventPropagate result r =
     json (JObj ((''triggerEventResult'', result) # map (\<lambda>k. (k, opt_get (row_value r) k)) PROPAGATE_EVENT_QUEUE_ENTRIES))"

definition add_trigger :: "bool \<Rightarrow> jsval \<Rightarrow> saga_req \<Rightarrow> jsval jsobj \<Rightarrow> jsval jsobj" where
  "add_trigger single result req d =
     (if single then obj_set ''triggerEvent'' (JStr (triggerEventPropagate result (hd (sr_entries req)))) d else d)"

record saga_handlers =
  sh_succeeded :: "string option"
  sh_failed :: "string option"
  sh_done :: "string option"

definition handlers_of :: "outbox \<Rightarrow> string \<Rightarrow> saga_handlers" where
  "handlers_of ob event =
     \<lparr>sh_succeeded = saga_handler ob event SAGA_SUCCESS, sh_failed = saga_handler ob event SAGA_FAILED,
      sh_done = saga_handler ob event SAGA_DONE\<rparr>"

text \<open>One tuple: the data shared with the request, and the events sent.  \<open>data.error\<close> and the trigger stay
  in the object for the events that follow.\<close>

definition followup_step ::
  "saga_handlers \<Rightarrow> bool \<Rightarrow> jsval \<Rightarrow> saga_req \<Rightarrow> jsval jsobj \<Rightarrow> jsval \<Rightarrow> jsval jsobj \<times> (string \<times> jsval jsobj) list" where
  "followup_step sh single result req reqData res =
     (let nextData = opt_get res ''nextData''; shared = nullish nextData;
          d0 = (if shared then reqData else as_obj nextData);
          status = opt_get res ''status''; err = opt_get res ''error'';
          primary = \<not> ends_with SAGA_SUCCESS (sr_event req);
          (d1, e1) = (case sh_succeeded sh of
                        Some h \<Rightarrow> if status = JNum Done \<and> primary
                                  then let d = add_trigger single result req d0 in (d, [(h, d)]) else (d0, [])
                      | None \<Rightarrow> (d0, []));
          (d2, e2) = (case sh_failed sh of
                        Some h \<Rightarrow> if status = JNum Error
                                  then let d = add_trigger single result req
                                                 (if truthy err then obj_set ''error'' (JStr (error2String err)) d1 else d1)
                                       in (d, [(h, d)]) else (d1, [])
                      | None \<Rightarrow> (d1, []));
          (d3, e3) = (case sh_done sh of
                        Some h \<Rightarrow> if primary then let d = add_trigger single result req d2 in (d, [(h, d)]) else (d2, [])
                      | None \<Rightarrow> (d2, []))
      in (if shared then d3 else reqData, e1 @ e2 @ e3))"

fun followup_loop ::
  "saga_handlers \<Rightarrow> bool \<Rightarrow> jsval \<Rightarrow> saga_req \<Rightarrow> jsval list \<Rightarrow> jsval jsobj \<Rightarrow> (string \<times> jsval jsobj) list" where
  "followup_loop sh single result req [] d = []"
| "followup_loop sh single result req (res # rs) d =
     (case followup_step sh single result req d res of
        (d', es) \<Rightarrow> es @ followup_loop sh single result req rs d')"

text \<open>The events sent for the objects of the tuples.\<close>

definition followup_events :: "outbox \<Rightarrow> jsval \<Rightarrow> saga_req \<Rightarrow> jsval list \<Rightarrow> (string \<times> jsval jsobj) list" where
  "followup_events ob result req res =
     (let sh = handlers_of ob (sr_event req) in
      if sh_succeeded sh = None \<and> sh_failed sh = None \<and> sh_done sh = None then []
      else if ends_with SAGA_FAILED (sr_event req) \<or> ends_with SAGA_DONE (sr_event req) then []
      else followup_loop sh (length res = 1 \<and> length (sr_entries req) = 1) result req res (sr_data req))"

text \<open>What becomes of the transaction's collected events: \<open>queue\<close> is \<open>tx._eventQueue?.events\<close> before, \<open>sent\<close> are the
  events of the follow-ups, each with its name.  Yields \<open>nextSagaEvents\<close> and the queue after.\<close>

definition publishFollowupEvents ::
  "bool \<Rightarrow> saga_handlers \<Rightarrow> bool \<Rightarrow> 'e list option \<Rightarrow> (string \<times> 'e) list \<Rightarrow> (string \<times> 'e) list \<times> 'e list option" where
  "publishFollowupEvents insertBeforeCommit sh hasError queue sent =
     (let next = (if insertBeforeCommit then sent
                  else filter (\<lambda>(n, e). Some n = sh_failed sh \<or> hasError \<and> Some n = sh_done sh) sent)
      in (next, case queue of Some q \<Rightarrow> Some q | None \<Rightarrow> if sent = [] then None else Some []))"

subsection \<open>Lemmas\<close>

definition outcome_of :: "jsval + jsval \<Rightarrow> jsval" where
  "outcome_of res =
     (case res of
        Inl err \<Rightarrow> error_obj err
      | Inr v \<Rightarrow> if is_status v then status_obj v
                else if is_object v \<and> all_allowed v then v else status_obj (JNum Done))"

definition array_result :: "jsval + jsval \<Rightarrow> bool" where
  "array_result res = (case res of Inr (JArr vs) \<Rightarrow> True | _ \<Rightarrow> False)"

lemma result_tuples_uniform:
  "\<not> array_result res \<Longrightarrow> result_tuples res ids = map (status_tuple (outcome_of res)) ids"
  by (cases res; cases "projr res")
    (simp_all add: result_tuples_def outcome_of_def determineResultStatus_def array_result_def is_status_def)

lemma outcome_object: "\<not> array_result res \<Longrightarrow> is_object (outcome_of res) \<and> all_allowed (outcome_of res)"
  by (auto simp: outcome_of_def error_obj_def status_obj_def all_allowed_def ALLOWED_FIELDS_FOR_UPDATE_def split: sum.split)

lemma add_uniform_tuples:
  assumes "is_object v" "distinct ids" "set ids \<inter> set (obj_keys m) = {}"
  shows "add_tuples ds (map (status_tuple v) ids) m = (m @ map (\<lambda>i. (i, v)) ids, False)"
  using assms(2,3)
proof (induction ids arbitrary: m)
  case (Cons i ids)
  have fresh: "i \<notin> fst ` set m" using Cons.prems by auto
  then have "obj_get m i = None" by (simp add: map_of_eq_None_iff)
  then have "js_prop m i = JUndef" by (simp add: js_prop_def)
  moreover have "status_data v JUndef = v" using assms(1) by (cases v) (simp_all add: status_data_def)
  ultimately have "determineAndAddEventStatusToMap i v JUndef m = Some (m @ [(i, v)])"
    using fresh by (simp add: determineAndAddEventStatusToMap_def obj_set_fresh)
  moreover have "set ids \<inter> set (obj_keys (m @ [(i, v)])) = {}" using Cons.prems by auto
  ultimately show ?case using Cons by (simp add: status_tuple_def)
qed simp

text \<open>The names of the events sent for one tuple.\<close>

definition names_sent :: "saga_handlers \<Rightarrow> saga_req \<Rightarrow> jsval \<Rightarrow> string list" where
  "names_sent sh req res =
     (case sh_succeeded sh of Some h \<Rightarrow> if opt_get res ''status'' = JNum Done \<and> \<not> ends_with SAGA_SUCCESS (sr_event req) then [h] else [] | None \<Rightarrow> [])
   @ (case sh_failed sh of Some h \<Rightarrow> if opt_get res ''status'' = JNum Error then [h] else [] | None \<Rightarrow> [])
   @ (case sh_done sh of Some h \<Rightarrow> if \<not> ends_with SAGA_SUCCESS (sr_event req) then [h] else [] | None \<Rightarrow> [])"

lemma followup_step_names: "map fst (snd (followup_step sh single result req d res)) = names_sent sh req res"
  by (simp add: followup_step_def names_sent_def Let_def split: option.splits if_splits)

lemma followup_loop_names: "map fst (followup_loop sh single result req rs d) = concat (map (names_sent sh req) rs)"
proof (induction rs arbitrary: d)
  case (Cons res rs)
  then show ?case using followup_step_names [of sh single result req d res] by (simp add: split_beta)
qed simp

lemma names_sent_suffix:
  assumes "n \<in> set (names_sent (handlers_of (register_handlers names ob) (sr_event req)) req res)"
  shows "ends_with SAGA_FAILED n
    \<or> \<not> ends_with SAGA_SUCCESS (sr_event req) \<and> (ends_with SAGA_SUCCESS n \<or> ends_with SAGA_DONE n)"
  using assms saga_handler_suffix [of names ob "sr_event req"]
  by (auto simp: names_sent_def handlers_of_def split: option.splits if_splits)

lemma followup_names:
  assumes "n \<in> set (map fst (followup_events (register_handlers names ob) result req res))"
  shows "\<not> ends_with SAGA_FAILED (sr_event req) \<and> \<not> ends_with SAGA_DONE (sr_event req)
    \<and> (ends_with SAGA_FAILED n
       \<or> \<not> ends_with SAGA_SUCCESS (sr_event req) \<and> (ends_with SAGA_SUCCESS n \<or> ends_with SAGA_DONE n))"
proof -
  let ?sh = "handlers_of (register_handlers names ob) (sr_event req)"
  have ne: "followup_events (register_handlers names ob) result req res \<noteq> []" using assms by auto
  then have no: "\<not> ends_with SAGA_FAILED (sr_event req)" "\<not> ends_with SAGA_DONE (sr_event req)"
    by (auto simp: followup_events_def Let_def split: if_splits)
  with ne have "map fst (followup_events (register_handlers names ob) result req res) = concat (map (names_sent ?sh req) res)"
    unfolding followup_events_def Let_def by (auto simp: followup_loop_names split: if_splits)
  then obtain r where "n \<in> set (names_sent ?sh req r)" using assms by auto
  from names_sent_suffix [OF this] no show ?thesis by blast
qed

subsection \<open>Properties\<close>

text \<open>
  Whatever a service handler returns or throws, as long as it is no array: every entry of the
  cluster gets exactly one status object with only allowed fields, namely the returned status or
  object, done for any other value, and error when it threw.
\<close>

theorem every_entry_gets_the_result:
  assumes "\<not> array_result res" "distinct ids"
  shows "setEventStatus_on ds ids (JArr (result_tuples res ids)) [] = map (\<lambda>i. (i, outcome_of res)) ids
    \<and> is_object (outcome_of res) \<and> all_allowed (outcome_of res)"
  using add_uniform_tuples [of "outcome_of res" ids "[]" ds] outcome_object [OF assms(1)] assms(2)
  by (simp add: setEventStatus_on_def result_tuples_uniform [OF assms(1)])

text \<open>
  C26. Sagas end: a follow-up of a follow-up has no follow-up, whatever handlers a service registers,
  whatever they return and however the events are clustered.
\<close>

theorem saga_chain_ends:
  assumes "ob = register_handlers names ob0"
    and "sr_event req1 \<in> set (map fst (followup_events ob result0 req0 res0))"
    and "sr_event req2 \<in> set (map fst (followup_events ob result1 req1 res1))"
  shows "followup_events ob result2 req2 res2 = []"
proof -
  from followup_names [OF assms(2) [unfolded assms(1)]] followup_names [OF assms(3) [unfolded assms(1)]]
  have "ends_with SAGA_FAILED (sr_event req2)" by blast
  then show ?thesis by (simp add: followup_events_def Let_def)
qed

text \<open>
  The events a handler publishes in its transaction stay there, the follow-up events are kept apart
  for the transaction that stores the status; when an entry failed and the transaction is rolled back
  the events for the failed and the done handler are among them in either insertion mode.
\<close>

theorem followups_are_kept_apart:
  assumes "publishFollowupEvents before sh hasError (Some q) sent = (next, q')"
  shows "q' = Some q \<and> set next \<subseteq> set sent
    \<and> (\<forall>n e. (n, e) \<in> set sent \<and> hasError \<and> Some n \<in> {sh_failed sh, sh_done sh} \<longrightarrow> (n, e) \<in> set next)"
  using assms by (auto simp: publishFollowupEvents_def Let_def split: if_splits)

subsection \<open>Witnesses\<close>

theorem every_entry_gets_the_result_witness:
  "setEventStatus_on (\<lambda>t. []) [''1'', ''2''] (JArr (result_tuples (Inr (JStr ''ok'')) [''1'', ''2''])) []
     = [(''1'', status_obj (JNum Done)), (''2'', status_obj (JNum Done))]"
proof -
  have "outcome_of (Inr (JStr ''ok'')) = status_obj (JNum Done)" by (simp add: outcome_of_def is_status_def image_iff)
  then show ?thesis
    using every_entry_gets_the_result [of "Inr (JStr ''ok'')" "[''1'', ''2'']" "\<lambda>t. []"] by (simp add: array_result_def)
qed

definition demo_saga :: outbox where
  "demo_saga = register_handlers [''order'', ''order/#succeeded'', ''#failed'', ''#done'']
     \<lparr>ob_onHandlers = [], ob_genericClusterHandler = False, ob_specificClusterHandler = False, ob_genericRelevant = False,
      ob_specificRelevant = False\<rparr>"

definition demo_req :: "string \<Rightarrow> saga_req" where
  "demo_req ev = \<lparr>sr_event = ev, sr_data = [], sr_entries = [new_row ''1'' 0 ''CAP_OUTBOX'' ''Order'' ''default'' None]\<rparr>"

theorem saga_chain_ends_witness:
  "map fst (followup_events demo_saga JUndef (demo_req ''order'') [status_obj (JNum Done)]) = [''order/#succeeded'', ''#done'']
   \<and> map fst (followup_events demo_saga JUndef (demo_req ''order/#succeeded'') [status_obj (JNum Error)]) = [''#failed'']
   \<and> followup_events demo_saga JUndef (demo_req ''#failed'') [status_obj (JNum Error)] = []"
proof -
  have v: "map fst (followup_events demo_saga JUndef (demo_req ''order'') [status_obj (JNum Done)]) = [''order/#succeeded'', ''#done'']"
    "map fst (followup_events demo_saga JUndef (demo_req ''order/#succeeded'') [status_obj (JNum Error)]) = [''#failed'']" by code_simp+
  have "sr_event (demo_req ''order/#succeeded'') \<in> set (map fst (followup_events demo_saga JUndef (demo_req ''order'') [status_obj (JNum Done)]))"
    "sr_event (demo_req ''#failed'') \<in> set (map fst (followup_events demo_saga JUndef (demo_req ''order/#succeeded'') [status_obj (JNum Error)]))"
    unfolding v by (simp_all add: demo_req_def)
  from saga_chain_ends [OF demo_saga_def this, of JUndef "[status_obj (JNum Error)]"] v show ?thesis by blast
qed

theorem followups_are_kept_apart_witness:
  "publishFollowupEvents False \<lparr>sh_succeeded = None, sh_failed = Some ''#failed'', sh_done = None\<rparr> True (Some [1::nat]) [(''#failed'', 2)]
   = ([(''#failed'', 2)], Some [1])"
proof -
  let ?sh = "\<lparr>sh_succeeded = None, sh_failed = Some ''#failed'', sh_done = None\<rparr>"
  have r: "publishFollowupEvents False ?sh True (Some [1::nat]) [(''#failed'', 2)] = ([(''#failed'', 2)], Some [1])"
    by (simp add: publishFollowupEvents_def)
  from followups_are_kept_apart [OF r] r show ?thesis by simp
qed

end
