(* ===== verification/OutboxPublish.thy ===== *)
theory OutboxPublish
  imports OutboxResults
begin

text \<open>
  \<open>src/outbox/eventQueueAsOutbox.js\<close>: a service whose calls go through the event queue.  A request is turned
  into an event whose payload is its JSON text and published in the caller's transaction, or, without
  persistence, handed to the service once the transaction has succeeded.

  The request is the record of what the function reads of it; the transaction's headers, properties
  and user are the context.

  Proved: what is sent arrives: the handler of the claimed entry is called for the same event with the
  same data and for the user of the request, as a request or an event as it was sent.
\<close>

definition CDS_EVENT_TYPE :: string where "CDS_EVENT_TYPE = ''CAP_OUTBOX''"

definition EVENT_QUEUE_SPECIFIC_FIELDS :: "string list" where
  "EVENT_QUEUE_SPECIFIC_FIELDS = [''startAfter'', ''referenceEntity'', ''referenceEntityKey'', ''namespace'']"

definition TO_COPY :: "string list" where
  "TO_COPY = [''inbound'', ''event'', ''data'', ''queue'', ''results'', ''method'', ''path'', ''params'', ''entity'', ''service'']"

record out_request =
  oq_props :: "jsval jsobj" \<comment> \<open>the properties of the request, \<open>event\<close> and \<open>data\<close> among them\<close>
  oq_headers :: "jsval jsobj"
  oq_reply :: bool
  oq_fromSend :: jsval
  oq_query :: jsval

record out_context =
  oc_user :: string
  oc_headers :: "jsval jsobj"
  oc_props :: "jsval jsobj"

text \<open>\<open>toLocaleLowerCase\<close> of header names, which are ASCII\<close>

definition lower_char :: "char \<Rightarrow> char" where
  "lower_char c = (let n = (of_char c :: nat) in if 65 \<le> n \<and> n \<le> 90 then char_of (n + 32) else c)"

definition lower :: "string \<Rightarrow> string" where
  "lower s = map lower_char s"

text \<open>The properties of the context whose names are configured.\<close>

definition propagated :: "jsval \<Rightarrow> jsval jsobj \<Rightarrow> jsval jsobj" where
  "propagated names ctx =
     foldl (\<lambda>acc nm. if obj_has ctx (key_part nm) then obj_set (key_part nm) (js_prop ctx (key_part nm)) acc else acc) []
       (as_list names)"

definition getPropagatedHeaders :: "event_obj \<Rightarrow> out_context \<Rightarrow> out_request \<Rightarrow> jsval jsobj" where
  "getPropagatedHeaders cfg oc oq = obj_assign (propagated (js_prop cfg ''propagateHeaders'') (oc_headers oc)) (oq_headers oq)"

definition getPropagateContextProperties :: "event_obj \<Rightarrow> out_context \<Rightarrow> jsval jsobj" where
  "getPropagateContextProperties cfg oc = propagated (js_prop cfg ''propagateContextProperties'') (oc_props oc)"

text \<open>The field of the queue entry a header stands for.\<close>

definition header_field :: "string \<Rightarrow> string option" where
  "header_field h = find (\<lambda>f. lower h = ''x-eventqueue-'' @ lower f) EVENT_QUEUE_SPECIFIC_FIELDS"

definition specific_step :: "jsval jsobj \<times> jsval jsobj \<Rightarrow> string \<times> jsval \<Rightarrow> jsval jsobj \<times> jsval jsobj" where
  "specific_step acc h =
     (case acc of (vals, hs) \<Rightarrow> case h of (nm, v) \<Rightarrow>
        (case header_field nm of None \<Rightarrow> (vals, hs) | Some f \<Rightarrow> (obj_set f v vals, obj_del nm hs)))"

definition specific_values :: "jsval jsobj \<Rightarrow> jsval jsobj \<Rightarrow> jsval jsobj \<times> jsval jsobj" where
  "specific_values reqHeaders eventHeaders = foldl specific_step ([], eventHeaders) reqHeaders"

definition copy_props :: "out_request \<Rightarrow> jsval jsobj \<Rightarrow> jsval jsobj" where
  "copy_props oq e =
     foldl (\<lambda>e nm. if truthy (js_prop (oq_props oq) nm) then obj_set nm (js_prop (oq_props oq) nm) e else e) e TO_COPY"

definition from_send :: "out_request \<Rightarrow> jsval jsobj" where
  "from_send oq =
     (if truthy (oq_fromSend oq) then as_obj (oq_fromSend oq)
      else if oq_reply oq then [(''_fromSend'', JBool True)] else [])"

text \<open>The event: user, kind of call, headers, context properties, the copied properties; a query takes the
  place of the data.\<close>

definition event_of_request :: "out_context \<Rightarrow> out_request \<Rightarrow> jsval jsobj \<Rightarrow> jsval jsobj \<Rightarrow> jsval jsobj" where
  "event_of_request oc oq eventHeaders contextProperties =
     (let e0 = obj_assign (obj_assign (obj_assign [(''contextUser'', JStr (oc_user oc))] (from_send oq))
                 [(''headers'', JObj eventHeaders)]) contextProperties;
          e1 = copy_props oq e0
      in if truthy (oq_query oq)
         then obj_del ''data'' (obj_set ''query''
                (JObj (obj_del ''target'' (obj_del ''__target'' (obj_del ''_target'' (as_obj (oq_query oq)))))) e1)
         else e1)"

text \<open>\<open>_mapToEventAndPublish\<close>: the object handed to \<open>publishEvent\<close> and its options.\<close>

definition mapToEvent :: "out_context \<Rightarrow> out_request \<Rightarrow> string \<Rightarrow> string \<Rightarrow> jsval jsobj \<Rightarrow> jsval jsobj \<Rightarrow> event_obj \<times> publish_options" where
  "mapToEvent oc oq ns subType eventHeaders contextProperties =
     (case specific_values (oq_headers oq) eventHeaders of
        (vals, hs) \<Rightarrow>
          (obj_assign
             [(''type'', JStr CDS_EVENT_TYPE), (''subType'', JStr subType),
              (''payload'', JStr (json (JObj (event_of_request oc oq hs contextProperties)))),
              (''namespace'', coalesce (js_prop vals ''namespace'') (JStr ns))] vals,
           default_options\<lparr>po_allowNotExistingConfiguration := truthy (js_prop vals ''namespace'')\<rparr>))"

text \<open>\<open>outboxedSrv.handle\<close>: the registration of a service without configuration, and what is done with the
  request.\<close>

datatype handled = Publish event_obj publish_options | InMemory | Failed

definition outboxed_config :: "config_env \<Rightarrow> string \<Rightarrow> string \<Rightarrow> jsval \<Rightarrow> jsval jsobj \<Rightarrow> config \<Rightarrow> config_error + config \<times> string \<times> event_obj option" where
  "outboxed_config ce srv event srvOptions customOpts cf =
     (let subType = (if getCdsOutboxEventSpecificConfig cf srv (Some event) \<noteq> None then join ''.'' [srv, event] else srv) in
      case findBaseCAPServiceWithoutNamespace subType cf of
        Some c \<Rightarrow> Inr (cf, subType, Some c)
      | None \<Rightarrow>
          (case addCAPServiceWithoutEnvConfig ce subType srvOptions customOpts cf of
             Inl err \<Rightarrow> Inl err
           | Inr cf' \<Rightarrow> Inr (cf', subType, findBaseCAPServiceWithoutNamespace subType cf')))"

definition outboxed_handle ::
  "config_env \<Rightarrow> string \<Rightarrow> jsval \<Rightarrow> jsval jsobj \<Rightarrow> out_context \<Rightarrow> out_request \<Rightarrow> config \<Rightarrow> config \<times> handled" where
  "outboxed_handle ce srv srvOptions customOpts oc oq cf =
     (case outboxed_config ce srv (key_part (js_prop (oq_props oq) ''event'')) srvOptions customOpts cf of
        Inl err \<Rightarrow> (cf, Failed)
      | Inr (cf', subType, None) \<Rightarrow> (cf', Failed)
      | Inr (cf', subType, Some srvConfig) \<Rightarrow>
          let ns = key_part (js_prop srvConfig ''namespace'') in
          (case getEventConfig CDS_EVENT_TYPE subType ns cf' of
             None \<Rightarrow> (cf', Failed)
           | Some opts \<Rightarrow>
               if js_prop opts ''kind'' \<in> {JStr ''persistent-outbox'', JStr ''persistent-queue''}
               then (cf', case mapToEvent oc oq ns subType (getPropagatedHeaders opts oc oq) (getPropagateContextProperties opts oc) of
                            (e, po) \<Rightarrow> Publish e po)
               else (cf', InMemory)))"

text \<open>Without persistence: the service is called once the transaction has succeeded; \<open>srvCheck\<close> is
  \<open>isUnrecoverableError\<close> of the service, \<open>JUndef\<close> when it has none.\<close>

definition isStandardError :: "jsval \<Rightarrow> bool" where
  "isStandardError err =
     (case err of JErr n m st ps \<Rightarrow> n \<in> {''TypeError'', ''ReferenceError'', ''SyntaxError'', ''RangeError'', ''URIError''} | _ \<Rightarrow> False)"

definition isUnrecoverable :: "(jsval \<Rightarrow> jsval) \<Rightarrow> jsval \<Rightarrow> bool" where
  "isUnrecoverable srvCheck err =
     (let u = srvCheck err; u' = (if u = JUndef then opt_get err ''unrecoverable'' else u) in truthy u' \<or> isStandardError err)"

datatype in_memory = Delivered | LoggedOnly | ExitProcess

definition in_memory_call :: "(jsval \<Rightarrow> jsval) \<Rightarrow> event_obj \<Rightarrow> jsval + jsval \<Rightarrow> in_memory" where
  "in_memory_call srvCheck outboxOpts res =
     (case res of
        Inr v \<Rightarrow> Delivered
      | Inl err \<Rightarrow> if isUnrecoverable srvCheck err \<and> js_prop outboxOpts ''crashOnError'' \<noteq> JBool False then ExitProcess else LoggedOnly)"

subsection \<open>Outboxed and unboxed services\<close>

text \<open>Services are references.  \<open>sv_outboxed\<close> and \<open>sv_unboxed\<close> are the own properties of the two symbols; an
  outboxed service inherits from the original one.\<close>

record services =
  sv_next :: nat
  sv_outboxed :: "nat \<rightharpoonup> nat"
  sv_unboxed :: "nat \<rightharpoonup> nat"

definition former :: "services \<Rightarrow> nat \<Rightarrow> nat option" where
  "former s srv =
     (case sv_outboxed s srv of
        Some out \<Rightarrow> Some out
      | None \<Rightarrow> (case sv_unboxed s srv of Some orig \<Rightarrow> sv_outboxed s orig | None \<Rightarrow> None))"

definition unboxed :: "services \<Rightarrow> nat \<Rightarrow> nat" where
  "unboxed s srv = (case sv_unboxed s srv of Some orig \<Rightarrow> orig | None \<Rightarrow> srv)"

definition outboxed :: "bool \<Rightarrow> nat \<Rightarrow> services \<Rightarrow> services \<times> nat" where
  "outboxed customOpts srv s =
     (case former s srv of
        Some out \<Rightarrow> if \<not> customOpts then (s, out)
                    else (s\<lparr>sv_next := sv_next s + 1, sv_unboxed := (sv_unboxed s)(sv_next s \<mapsto> unboxed s srv)\<rparr>, sv_next s)
      | None \<Rightarrow> (s\<lparr>sv_next := sv_next s + 1, sv_unboxed := (sv_unboxed s)(sv_next s \<mapsto> unboxed s srv),
                   sv_outboxed := (sv_outboxed s)(srv \<mapsto> sv_next s)\<rparr>, sv_next s))"

text \<open>References are allocated in order, and only originals are unboxed to.\<close>

definition services_ok :: "services \<Rightarrow> bool" where
  "services_ok s \<longleftrightarrow>
     (\<forall>srv out. sv_outboxed s srv = Some out \<longrightarrow> srv < sv_next s \<and> out < sv_next s \<and> sv_unboxed s out = Some (unboxed s srv))
   \<and> (\<forall>srv orig. sv_unboxed s srv = Some orig \<longrightarrow> srv < sv_next s \<and> orig < sv_next s \<and> sv_unboxed s orig = None)"

subsection \<open>Lemmas\<close>

lemma js_prop_assign:
  "js_prop (obj_assign base ps) k = (case obj_get (rev ps) k of None \<Rightarrow> js_prop base k | Some v \<Rightarrow> v)"
  by (simp add: js_prop_def obj_assign_get split: option.splits)

lemma opt_get_obj [simp]: "opt_get (JObj ps) k = js_prop ps k"
  by (simp add: opt_get_def)

lemma specific_values_keys:
  assumes "specific_values reqHeaders eventHeaders = (vals, hs)"
  shows "set (obj_keys vals) \<subseteq> set EVENT_QUEUE_SPECIFIC_FIELDS"
proof -
  have "set (obj_keys (fst (foldl specific_step acc reqHeaders))) \<subseteq> set (obj_keys (fst acc)) \<union> set EVENT_QUEUE_SPECIFIC_FIELDS" for acc
  proof (induction reqHeaders arbitrary: acc)
    case (Cons h reqHeaders)
    have "set (obj_keys (fst (specific_step acc h))) \<subseteq> set (obj_keys (fst acc)) \<union> set EVENT_QUEUE_SPECIFIC_FIELDS"
      by (auto simp: specific_step_def header_field_def find_Some_iff split: prod.split option.split)
    with Cons [of "specific_step acc h"] show ?case by auto
  qed simp
  from this [of "([], eventHeaders)"] assms show ?thesis by (simp add: specific_values_def)
qed

lemma copy_props_prop:
  "js_prop (copy_props oq e) k =
     (if k \<in> set TO_COPY \<and> truthy (js_prop (oq_props oq) k) then js_prop (oq_props oq) k else js_prop e k)"
proof -
  have "js_prop (foldl (\<lambda>e nm. if truthy (js_prop (oq_props oq) nm) then obj_set nm (js_prop (oq_props oq) nm) e else e) e names) k
      = (if k \<in> set names \<and> truthy (js_prop (oq_props oq) k) then js_prop (oq_props oq) k else js_prop e k)" for names
    by (induction names arbitrary: e) auto
  then show ?thesis by (simp add: copy_props_def)
qed

text \<open>The payload and the names of the published event.\<close>

lemma mapToEvent_props:
  assumes "mapToEvent oc oq ns subType eh cp = (e, po)" and sv: "specific_values (oq_headers oq) eh = (vals, hs)"
  shows "js_prop e ''payload'' = JStr (json (JObj (event_of_request oc oq hs cp)))"
    and "js_prop e ''type'' = JStr CDS_EVENT_TYPE" and "js_prop e ''subType'' = JStr subType"
proof -
  have "obj_get (rev vals) k = None" if "k \<notin> set EVENT_QUEUE_SPECIFIC_FIELDS" for k
    using specific_values_keys [OF sv] that by (auto simp: map_of_eq_None_iff)
  then have none: "obj_get (rev vals) ''payload'' = None" "obj_get (rev vals) ''type'' = None" "obj_get (rev vals) ''subType'' = None"
    by (simp_all add: EVENT_QUEUE_SPECIFIC_FIELDS_def)
  show "js_prop e ''payload'' = JStr (json (JObj (event_of_request oc oq hs cp)))"
    "js_prop e ''type'' = JStr CDS_EVENT_TYPE" "js_prop e ''subType'' = JStr subType"
    using assms none by (auto simp: mapToEvent_def js_prop_assign simp del: json.simps)
qed

lemma event_of_request_prop:
  assumes "\<not> truthy (oq_query oq)"
  shows "js_prop (event_of_request oc oq hs cp) k =
     (if k \<in> set TO_COPY \<and> truthy (js_prop (oq_props oq) k) then js_prop (oq_props oq) k
      else case obj_get (rev cp) k of Some v \<Rightarrow> v
      | None \<Rightarrow> if k = ''headers'' then JObj hs
                else case obj_get (rev (from_send oq)) k of Some v \<Rightarrow> v
                | None \<Rightarrow> if k = ''contextUser'' then JStr (oc_user oc) else JUndef)"
  using assms by (simp add: event_of_request_def Let_def copy_props_prop js_prop_assign split: option.split)

lemma published_row:
  assumes "prepare_event pe po e = Inr e'" "js_prop e ''payload'' = JStr s" "pf_parseJson pf s = Some v"
  shows "ev_payload (modifyQueueEntry pf (claim_entry now (inserted_row parse i t e'))) = v"
    and "ev_type (modifyQueueEntry pf (claim_entry now (inserted_row parse i t e'))) = key_part (js_prop e ''type'')"
    and "ev_subType (modifyQueueEntry pf (claim_entry now (inserted_row parse i t e'))) = key_part (js_prop e ''subType'')"
  using prepare_eventD [OF assms(1)] assms(2,3)
  by (simp_all add: publish_props inserted_row_def new_row_def modifyQueueEntry_def claim_entry_def parse_or_keep_def
      payload_text_def value_column_def)

text \<open>
  C27. What is sent through the outbox arrives.  A request of an outboxed service becomes an event; once
  it is published, inserted and claimed, the handler of the entry is called for the same event with
  the same data, headers and propagated context properties, for the user who sent it and as a
  request exactly when it was one; the entry belongs to the service of the request.  (The text of the
  event has to be read back by \<open>JSON.parse\<close>; the context properties must not use the names of the
  event's own fields, and the data carries no trigger event.)
\<close>

theorem outboxed_request_arrives:
  assumes "mapToEvent oc oq ns subType eh cp = (e, po)" and "prepare_event pe po e = Inr e'"
    and sv: "specific_values (oq_headers oq) eh = (vals, hs)"
    and "pf_parseJson pf (json (JObj (event_of_request oc oq hs cp))) = Some (JObj (event_of_request oc oq hs cp))"
    and q: "\<not> truthy (oq_query oq)" "\<not> truthy (oq_fromSend oq)"
    and pr: "truthy (js_prop (oq_props oq) ''event'')" "truthy (js_prop (oq_props oq) ''data'')"
    and tr: "\<not> truthy (opt_get (js_prop (oq_props oq) ''data'') ''triggerEvent'')"
    and cp: "distinct (obj_keys cp)" "set (obj_keys cp) \<inter> ({''contextUser'', ''_fromSend'', ''headers''} \<union> set TO_COPY) = {}"
    and r: "r = modifyQueueEntry pf (claim_entry now (inserted_row (pf_parseDate pf) i t e'))"
    and d: "d = buildDispatchData parse False userId (ev_payload r)"
  shows "di_event d = js_prop (oq_props oq) ''event'' \<and> js_prop (di_payload d) ''data'' = js_prop (oq_props oq) ''data''
    \<and> js_prop (di_payload d) ''headers'' = JObj hs \<and> (\<forall>(k, v) \<in> set cp. js_prop (di_payload d) k = v)
    \<and> di_user d = JStr (oc_user oc) \<and> di_send d = oq_reply oq
    \<and> ev_type r = CDS_EVENT_TYPE \<and> ev_subType r = subType"
proof -
  let ?e = "event_of_request oc oq hs cp"
  note row = published_row [OF assms(2) mapToEvent_props(1) [OF assms(1) sv] assms(4), of now "pf_parseDate pf" i t, folded r]
  have cpN: "obj_get (rev cp) k = None" if "k \<in> {''contextUser'', ''_fromSend'', ''headers''} \<union> set TO_COPY" for k
  proof -
    have "k \<notin> set (obj_keys cp)" using cp(2) that by blast
    then show ?thesis by (simp add: map_of_eq_None_iff)
  qed
  have names: "js_prop ?e ''event'' = js_prop (oq_props oq) ''event''" "js_prop ?e ''data'' = js_prop (oq_props oq) ''data''"
    using pr by (simp_all add: event_of_request_prop [OF q(1)] TO_COPY_def)
  have own: "js_prop ?e ''contextUser'' = JStr (oc_user oc)" "js_prop ?e ''headers'' = JObj hs"
    "truthy (js_prop ?e ''_fromSend'') = oq_reply oq"
    using cpN q(2) by (simp_all add: event_of_request_prop [OF q(1)] TO_COPY_def from_send_def)
  have keys: "k \<notin> {''contextUser'', ''_fromSend'', ''headers''} \<union> set TO_COPY" if "(k, v) \<in> set cp" for k v
  proof -
    have "k \<in> set (obj_keys cp)" using that by (metis fst_conv image_eqI set_map)
    then show ?thesis using cp(2) by blast
  qed
  have ctx: "js_prop ?e k = v" if "(k, v) \<in> set cp" for k v
  proof -
    have "k \<notin> set TO_COPY" "k \<noteq> ''headers''" using keys [OF that] by blast+
    moreover have "obj_get (rev cp) k = Some v" using map_of_is_SomeI [of "rev cp" k v] that cp(1) by (simp flip: rev_map)
    ultimately show ?thesis by (simp add: event_of_request_prop [OF q(1)])
  qed
  have d': "d = \<lparr>di_event = js_prop ?e ''event'', di_payload = obj_del ''contextUser'' (obj_del ''_fromSend'' ?e),
      di_user = js_prop ?e ''contextUser'', di_send = truthy (js_prop ?e ''_fromSend''), di_trigger = JUndef\<rparr>"
    using tr by (simp add: d row(1) buildDispatchData_def Let_def triggered_def names)
  have "js_prop (di_payload d) k = v" if "(k, v) \<in> set cp" for k v
    using ctx [OF that] keys [OF that] by (simp add: d')
  then have "\<forall>(k, v) \<in> set cp. js_prop (di_payload d) k = v" by blast
  moreover have "ev_type r = CDS_EVENT_TYPE" "ev_subType r = subType"
    using row(2,3) mapToEvent_props(2,3) [OF assms(1) sv] by (simp_all add: key_part_def join_part_def)
  ultimately show ?thesis using names own by (simp add: d')
qed

subsection \<open>Witness\<close>

definition demo_out_ctx :: out_context where
  "demo_out_ctx = \<lparr>oc_user = ''me'', oc_headers = [], oc_props = [(''locale'', JStr ''de'')]\<rparr>"

definition demo_out_req :: out_request where
  "demo_out_req = \<lparr>oq_props = [(''event'', JStr ''ship''), (''data'', JObj [(''order'', JNum 4)])],
     oq_headers = [(''X-EventQueue-referenceEntity'', JStr ''Order''), (''trace'', JStr ''t1'')],
     oq_reply = True, oq_fromSend = JUndef, oq_query = JUndef\<rparr>"

abbreviation demo_out_cp :: "jsval jsobj" where
  "demo_out_cp \<equiv> [(''locale'', JStr ''de'')]"

definition demo_out_event :: "jsval jsobj" where
  "demo_out_event = event_of_request demo_out_ctx demo_out_req [(''trace'', JStr ''t1'')] demo_out_cp"

definition demo_out_pf :: platform where
  "demo_out_pf = demo_pf\<lparr>pf_parseJson := (\<lambda>s. if s = json (JObj demo_out_event) then Some (JObj demo_out_event) else None)\<rparr>"

definition demo_out_pe :: publish_env where
  "demo_out_pe = demo_pe\<lparr>pe_cf := demo_publish_cfg\<lparr>cf_eventMap := [(''default##CAP_OUTBOX##Shipping'', [(''type'', JStr ''CAP_OUTBOX'')])]\<rparr>\<rparr>"

definition demo_out_published :: event_obj where
  "demo_out_published = fst (mapToEvent demo_out_ctx demo_out_req ''default'' ''Shipping'' (oq_headers demo_out_req) demo_out_cp)"

definition demo_out_row :: event_row where
  "demo_out_row = modifyQueueEntry demo_out_pf (claim_entry 9 (inserted_row (pf_parseDate demo_out_pf) ''i1'' 5
     (projr (prepare_event demo_out_pe default_options demo_out_published))))"

abbreviation demo_out_dispatch :: dispatch where
  "demo_out_dispatch \<equiv> buildDispatchData (pf_parseJson demo_out_pf) False ''tech'' (ev_payload demo_out_row)"

theorem outboxed_request_arrives_witness:
  "di_event demo_out_dispatch = JStr ''ship'' \<and> di_user demo_out_dispatch = JStr ''me'' \<and> di_send demo_out_dispatch
   \<and> ev_subType demo_out_row = ''Shipping'' \<and> ev_referenceEntity demo_out_row = Some ''Order''"
proof -
  have 1: "mapToEvent demo_out_ctx demo_out_req ''default'' ''Shipping'' (oq_headers demo_out_req) demo_out_cp
      = (demo_out_published, default_options)" by code_simp
  have 2: "prepare_event demo_out_pe default_options demo_out_published
      = Inr (projr (prepare_event demo_out_pe default_options demo_out_published))" by code_simp
  have 3: "specific_values (oq_headers demo_out_req) (oq_headers demo_out_req)
      = ([(''referenceEntity'', JStr ''Order'')], [(''trace'', JStr ''t1'')])" by code_simp
  have 4: "pf_parseJson demo_out_pf (json (JObj (event_of_request demo_out_ctx demo_out_req [(''trace'', JStr ''t1'')] demo_out_cp)))
      = Some (JObj (event_of_request demo_out_ctx demo_out_req [(''trace'', JStr ''t1'')] demo_out_cp))"
    by (simp add: demo_out_pf_def demo_out_event_def del: json.simps)
  have 5: "\<not> truthy (oq_query demo_out_req)" "\<not> truthy (oq_fromSend demo_out_req)"
    "truthy (js_prop (oq_props demo_out_req) ''event'')" "truthy (js_prop (oq_props demo_out_req) ''data'')"
    "\<not> truthy (opt_get (js_prop (oq_props demo_out_req) ''data'') ''triggerEvent'')"
    "distinct (obj_keys demo_out_cp)"
    "set (obj_keys demo_out_cp) \<inter> ({''contextUser'', ''_fromSend'', ''headers''} \<union> set TO_COPY) = {}" by code_simp+
  have "ev_referenceEntity demo_out_row = Some ''Order''" "js_prop (oq_props demo_out_req) ''event'' = JStr ''ship''"
    "oc_user demo_out_ctx = ''me''" "oq_reply demo_out_req" by code_simp+
  with outboxed_request_arrives [OF 1 2 3 4 5 demo_out_row_def refl] show ?thesis by simp
qed

end
