(* ===== verification/OutboxRun.thy ===== *)
theory OutboxRun
  imports OutboxPublish ProcessEventQueue
begin

text \<open>
  \<open>src/outbox/EventQueueGenericOutboxHandler.js\<close> as the handler of a run: the parts of \<open>Outbox\<close>, \<open>OutboxResults\<close>
  and \<open>OutboxPublish\<close> put together to the methods \<open>processEventQueue\<close> calls.

  A service is what it does to the business data and to the transaction it is called in, and what it returns
  or throws.  Follow-up events are sent through the outboxed service, in the same transaction.

  Proved: a service that throws leaves the business data as it was, its entries in error, and the events for
  the failed handler in the queue, although its transaction has been rolled back; a service that
  returns has its changes, the events it has published and the follow-up events committed together.
\<close>

subsection \<open>The handler\<close>

text \<open>What the transactions of service calls change: the data, and the queue entries published there.\<close>

record 'c tx_data =
  td_data :: 'c
  td_events :: "event_row list"

text \<open>The service with its context.  \<open>oe_call\<close>, \<open>oe_check\<close>, \<open>oe_exceeded\<close> and \<open>oe_emit\<close> are the calls of the service, \<open>oe_request\<close>
  is the request \<open>send\<close> makes of an event and its data, and \<open>oe_uuid\<close> the keys of inserted rows.\<close>

record 'c outbox_env =
  oe_ce :: config_env
  oe_cf :: config
  oe_pe :: publish_env
  oe_srvName :: string
  oe_srvOptions :: jsval
  oe_on :: "string list"
  oe_type :: string
  oe_subType :: string
  oe_useEventQueueUser :: bool
  oe_userId :: string
  oe_parse :: "string \<Rightarrow> jsval option"
  oe_parseDate :: "string \<Rightarrow> time option"
  oe_uuid :: "string \<Rightarrow> nat \<Rightarrow> string"
  oe_now :: time
  oe_context :: out_context
  oe_request :: "string \<Rightarrow> jsval jsobj \<Rightarrow> out_request"
  oe_call :: "dispatch \<Rightarrow> 'c \<times> publish_tx \<Rightarrow> ('c \<times> publish_tx) \<times> bool \<times> (jsval + jsval)"
  oe_check :: "string \<Rightarrow> dispatch \<Rightarrow> jsval + jsval"
  oe_exceeded :: "string \<Rightarrow> dispatch \<Rightarrow> 'c tx_data \<Rightarrow> jsval + 'c tx_data"
  oe_emit :: "string option \<Rightarrow> string \<Rightarrow> event_row \<Rightarrow> 'c tx_data \<Rightarrow> 'c tx_data \<times> bool \<times> (jsval + unit)"
  oe_askGeneric :: "string \<Rightarrow> payload_map \<Rightarrow> cluster_answer"
  oe_askSpecific :: "string \<Rightarrow> payload_map \<Rightarrow> cluster_answer"
  oe_commitFails :: "string \<Rightarrow> 'c tx_data \<Rightarrow> bool"

text \<open>The state of a processor that has connected to its service, and that after the payloads of the claimed entries
  have been looked at.\<close>

definition new_outbox :: outbox where
  "new_outbox = \<lparr>ob_onHandlers = [], ob_genericClusterHandler = False, ob_specificClusterHandler = False, ob_genericRelevant = False,
     ob_specificRelevant = False\<rparr>"

definition connected :: "'c outbox_env \<Rightarrow> outbox" where
  "connected oe = register_handlers (oe_on oe) new_outbox"

definition claimed_outbox :: "'c outbox_env \<Rightarrow> event_row list \<Rightarrow> outbox" where
  "claimed_outbox oe rs = foldl (\<lambda>ob r. note_cluster_relevance (ev_payload r) ob) (connected oe) rs"

abbreviation dispatched :: "'c outbox_env \<Rightarrow> jsval \<Rightarrow> dispatch" where
  "dispatched oe \<equiv> buildDispatchData (oe_parse oe) (oe_useEventQueueUser oe) (oe_userId oe)"

text \<open>\<open>#setContextUser\<close>: what follows in the transaction is done for the user of the event.\<close>

definition setContextUser :: "jsval \<Rightarrow> out_context \<Rightarrow> out_context" where
  "setContextUser userId oc = oc\<lparr>oc_user := key_part userId\<rparr>"

subsection \<open>Follow-up events\<close>

text \<open>The objects of the status tuples as the loop over them finds them.  An object the service has returned is
  shared by all entries, and each round deletes its \<open>nextData\<close>.  \<open>None\<close> throws.\<close>

definition shared_object :: "jsval + jsval \<Rightarrow> bool" where
  "shared_object res =
     (case res of Inl err \<Rightarrow> False | Inr v \<Rightarrow> \<not> is_status v \<and> is_object v \<and> (case v of JArr vs \<Rightarrow> False | _ \<Rightarrow> all_allowed v))"

definition without_nextData :: "jsval \<Rightarrow> jsval" where
  "without_nextData v =
     (case v of JObj ps \<Rightarrow> JObj (obj_del ''nextData'' ps) | JErr n m st ps \<Rightarrow> JErr n m st (obj_del ''nextData'' ps) | _ \<Rightarrow> v)"

fun tuple_objects :: "jsval list \<Rightarrow> jsval list option" where
  "tuple_objects [] = Some []"
| "tuple_objects (t # ts) =
     (case tuple_parts t of
        None \<Rightarrow> None
      | Some (i, v) \<Rightarrow> if nullish v then None else map_option ((#) v) (tuple_objects ts))"

definition status_objects :: "jsval + jsval \<Rightarrow> string list \<Rightarrow> jsval list option" where
  "status_objects res ids =
     map_option (\<lambda>vs. if shared_object res then take 1 vs @ map without_nextData (drop 1 vs) else vs)
       (tuple_objects (result_tuples res ids))"

text \<open>\<open>queued.tx(processContext).send(handler, data)\<close>\<close>

definition send_followup ::
  "'c outbox_env \<Rightarrow> jsval \<Rightarrow> string \<times> jsval jsobj \<Rightarrow> config \<times> publish_tx \<Rightarrow> (config \<times> publish_tx) option" where
  "send_followup oe user ev s =
     (case (ev, s) of ((nm, d), (cf, px)) \<Rightarrow>
        case outboxed_handle (oe_ce oe) (oe_srvName oe) (oe_srvOptions oe) [] (setContextUser user (oe_context oe)) (oe_request oe nm d) cf of
          (cf', Failed) \<Rightarrow> None
        | (cf', InMemory) \<Rightarrow> Some (cf', px)
        | (cf', Publish e po) \<Rightarrow>
            (case publishEvent ((oe_pe oe)\<lparr>pe_cf := cf'\<rparr>) po [e] px of Inl err \<Rightarrow> None | Inr px' \<Rightarrow> Some (cf', px')))"

fun send_followups ::
  "'c outbox_env \<Rightarrow> jsval \<Rightarrow> (string \<times> jsval jsobj) list \<Rightarrow> config \<times> publish_tx \<Rightarrow> (config \<times> publish_tx) option" where
  "send_followups oe user [] s = Some s"
| "send_followups oe user (ev # evs) s =
     (case send_followup oe user ev s of None \<Rightarrow> None | Some s' \<Rightarrow> send_followups oe user evs s')"

text \<open>\<open>tx._eventQueue?.events\<close>, its replacement, and \<open>JSON.parse(event.payload).event\<close>.\<close>

definition queued_events :: "publish_tx \<Rightarrow> event_obj list" where
  "queued_events px = (case px_queue px of None \<Rightarrow> [] | Some (es, reg) \<Rightarrow> es)"

definition put_events :: "event_obj list \<Rightarrow> publish_tx \<Rightarrow> publish_tx" where
  "put_events es px = px\<lparr>px_queue := map_option (\<lambda>(old, reg). (es, reg)) (px_queue px)\<rparr>"

definition sent_name :: "'c outbox_env \<Rightarrow> event_obj \<Rightarrow> string" where
  "sent_name oe e = (case oe_parse oe (key_part (js_prop e ''payload'')) of None \<Rightarrow> [] | Some v \<Rightarrow> event_name v)"

definition saga_request :: "dispatch \<Rightarrow> event_row list \<Rightarrow> saga_req" where
  "saga_request d rs = \<lparr>sr_event = key_part (di_event d), sr_data = as_obj (js_prop (di_payload d) ''data''), sr_entries = rs\<rparr>"

definition returned_value :: "jsval + jsval \<Rightarrow> jsval" where
  "returned_value res = (case res of Inl err \<Rightarrow> JUndef | Inr v \<Rightarrow> v)"

text \<open>The returns at the begin of \<open>#publishFollowupEvents\<close>\<close>

definition loop_runs :: "outbox \<Rightarrow> string \<Rightarrow> bool" where
  "loop_runs ob ev \<longleftrightarrow>
     (let sh = handlers_of ob ev in
      \<not> (sh_succeeded sh = None \<and> sh_failed sh = None \<and> sh_done sh = None) \<and> \<not> ends_with SAGA_FAILED ev \<and> \<not> ends_with SAGA_DONE ev)"

text \<open>The whole of \<open>#publishFollowupEvents\<close>: the events for the transaction that writes the status, and the transaction.\<close>

definition outbox_followups ::
  "'c outbox_env \<Rightarrow> outbox \<Rightarrow> dispatch \<Rightarrow> event_row list \<Rightarrow> jsval + jsval \<Rightarrow> publish_tx \<Rightarrow> (event_obj list \<times> publish_tx) option" where
  "outbox_followups oe ob d rs res px =
     (let req = saga_request d rs; sh = handlers_of ob (sr_event req) in
      if \<not> loop_runs ob (sr_event req) then Some ([], px)
      else case status_objects res (map ev_ID rs) of
             None \<Rightarrow> None
           | Some objs \<Rightarrow>
               let nextEvents = map_option fst (px_queue px) in
               (case send_followups oe (di_user d) (followup_events ob (returned_value res) req objs) (oe_cf oe, put_events [] px) of
                  None \<Rightarrow> None
                | Some (cf', px1) \<Rightarrow>
                    let hasError = list_ex (\<lambda>v. opt_get v ''status'' = JNum Error) objs;
                        (next', events') = publishFollowupEvents (pe_insertBeforeCommit (oe_pe oe)) sh hasError nextEvents
                           (map (\<lambda>e. (sent_name oe e, e)) (queued_events px1))
                    in Some (map snd next', put_events (or_default events' []) px1)))"

subsection \<open>The methods\<close>

definition insert_rows :: "'c outbox_env \<Rightarrow> string \<Rightarrow> event_obj list \<Rightarrow> event_row list" where
  "insert_rows oe key es = map (\<lambda>(k, e). inserted_row (oe_parseDate oe) (oe_uuid oe key k) (oe_now oe) e) (enumerate 0 es)"

text \<open>\<open>delete result.nextData\<close> in the tuples, when the loop has been run\<close>

definition clean_tuple :: "jsval \<Rightarrow> jsval" where
  "clean_tuple t = (case tuple_parts t of None \<Rightarrow> t | Some (i, v) \<Rightarrow> JArr [i, without_nextData v])"

definition outbox_processEvent ::
  "'c outbox_env \<Rightarrow> outbox \<Rightarrow> string \<Rightarrow> event_row list \<Rightarrow> jsval \<Rightarrow> 'c tx_data \<Rightarrow> 'c tx_data \<times> bool \<times> event_row list \<times> (jsval + jsval)" where
  "outbox_processEvent oe ob key rs payload td =
     (let d = dispatched oe payload in
      case oe_call oe d (td_data td, new_publish_tx) of
        ((c, px), rb, res) \<Rightarrow>
          (case outbox_followups oe ob d rs res px of
             None \<Rightarrow> (td\<lparr>td_data := c\<rparr>, rb, [], Inl (JErr ''Error'' [] [] []))
           | Some (next', px') \<Rightarrow>
               let tuples = result_tuples res (map ev_ID rs) in
               (td\<lparr>td_data := c, td_events := td_events td @ insert_rows oe (key @ ''#tx'') (sent_events (commit_tx px'))\<rparr>, rb,
                insert_rows oe key next',
                Inr (JArr (if loop_runs ob (key_part (di_event d)) then map clean_tuple tuples else tuples)))))"

definition outbox_processPeriodicEvent ::
  "'c outbox_env \<Rightarrow> event_row \<Rightarrow> 'c tx_data \<Rightarrow> 'c tx_data \<times> bool \<times> (jsval + unit)" where
  "outbox_processPeriodicEvent oe r td =
     oe_emit oe (st_actionName (normalizeSubType (oe_cf oe) (oe_type oe) (oe_subType oe))) (oe_userId oe) r td"

definition outbox_exceeded :: "'c outbox_env \<Rightarrow> outbox \<Rightarrow> event_row \<Rightarrow> 'c tx_data \<Rightarrow> jsval + 'c tx_data" where
  "outbox_exceeded oe ob r td =
     (case queue_handler ob ACTION_EXCEEDED (event_name (ev_payload r)) of
        None \<Rightarrow> Inr td
      | Some h \<Rightarrow> oe_exceeded oe h (dispatched oe (ev_payload r)) td)"

text \<open>The entries put into the processing map, in order.\<close>

definition flat_clusters :: "cluster_map \<Rightarrow> (string \<times> event_row \<times> jsval) list" where
  "flat_clusters m = concat (map (\<lambda>(key, rs, payload). map (\<lambda>r. (key, r, payload)) rs) m)"

definition outbox_additions :: "'c outbox_env \<Rightarrow> outbox \<Rightarrow> payload_map \<Rightarrow> (string \<times> event_row \<times> jsval) list" where
  "outbox_additions oe ob m =
     (if \<not> ob_genericRelevant ob \<and> \<not> ob_specificRelevant ob then m
      else case clusterByAction ob m of (gen, spec) \<Rightarrow>
        let before = (if ob_genericRelevant ob then [] else concat (map snd gen)) in
        before @ (case (if ob_genericRelevant ob then ask_clusters (oe_askGeneric oe) gen [] else Some []) of
                    None \<Rightarrow> m
                  | Some acc \<Rightarrow> (case ask_clusters (oe_askSpecific oe) spec acc of None \<Rightarrow> m | Some acc' \<Rightarrow> flat_clusters acc')))"

definition outbox_handler :: "'c outbox_env \<Rightarrow> outbox \<Rightarrow> 'c tx_data handler" where
  "outbox_handler oe ob =
     \<lparr>h_check = outbox_checkEvent (oe_check oe) (oe_parse oe) (oe_useEventQueueUser oe) (oe_userId oe) ob,
      h_cluster = (\<lambda>m. (outbox_additions oe ob m, None)),
      h_before = (\<lambda>p td. Inr td),
      h_process = outbox_processEvent oe ob,
      h_hook = outbox_exceeded oe ob,
      h_periodic = outbox_processPeriodicEvent oe,
      h_commitFails = oe_commitFails oe\<rparr>"

subsection \<open>Lemmas\<close>

text \<open>The handler clusters as \<open>clusterQueueEntries\<close> of the processor does.\<close>

lemma foldl_concat: "foldl f s (concat xss) = foldl (foldl f) s xss"
  by (induction xss arbitrary: s) auto

lemma outbox_clusters:
  "cluster_entries (outbox_handler oe ob) p =
     (outbox_clusterQueueEntries (oe_askGeneric oe) (oe_askSpecific oe) ob (p_queueEntriesWithPayloadMap p) p, None)"
proof -
  let ?add = "\<lambda>p' (key, r, payload). addEntryToProcessingMap key r payload p'"
  have flat: "foldl ?add p (flat_clusters m) = addToProcessingMap m p" for m p
    by (simp add: flat_clusters_def addToProcessingMap_def foldl_concat foldl_map split_def)
  have gen: "foldl ?add p (concat (map snd gs)) = foldl (\<lambda>p (a, g). clusterQueueEntries g p) p gs" for gs p
    by (simp add: clusterQueueEntries_def foldl_concat foldl_map split_def)
  show ?thesis
    by (simp add: cluster_entries_def outbox_handler_def outbox_additions_def outbox_clusterQueueEntries_def
        clusterQueueEntries_def [of _ p] clusterQueueEntries_def [of "p_queueEntriesWithPayloadMap p"] Let_def flat gen
        split: prod.split option.split)
qed

text \<open>A follow-up event that its service takes and that the queue accepts; its text is read back.\<close>

definition sendable :: "'c outbox_env \<Rightarrow> jsval \<Rightarrow> string \<times> jsval jsobj \<Rightarrow> bool" where
  "sendable oe user ev =
     (case ev of (nm, d) \<Rightarrow>
        case outboxed_handle (oe_ce oe) (oe_srvName oe) (oe_srvOptions oe) [] (setContextUser user (oe_context oe)) (oe_request oe nm d) (oe_cf oe) of
          (cf', Publish e po) \<Rightarrow> cf' = oe_cf oe
            \<and> (case prepare_event ((oe_pe oe)\<lparr>pe_cf := cf'\<rparr>) po e of Inl err \<Rightarrow> False | Inr e' \<Rightarrow> sent_name oe e' = nm)
        | _ \<Rightarrow> False)"

lemma queued_after_publish:
  assumes "pe_initialized pe" "prepare_event pe po e = Inr e'"
  shows "\<exists>px'. publishEvent pe po [e] px = Inr px' \<and> queued_events px' = queued_events px @ [e'] \<and> px_queue px' \<noteq> None"
  using assms
  by (auto simp: publishEvent_def Let_def addEventsToContext_def registerHandler_def queued_events_def split: option.splits bool.splits)

lemma send_followups_names:
  assumes "pe_initialized (oe_pe oe)" "list_all (sendable oe user) evs"
  shows "\<exists>px'. send_followups oe user evs (oe_cf oe, px) = Some (oe_cf oe, px')
    \<and> map (sent_name oe) (queued_events px') = map (sent_name oe) (queued_events px) @ map fst evs"
  using assms(2)
proof (induction evs arbitrary: px)
  case (Cons ev evs)
  obtain nm d where ev: "ev = (nm, d)" by fastforce
  obtain e po e' where h: "outboxed_handle (oe_ce oe) (oe_srvName oe) (oe_srvOptions oe) [] (setContextUser user (oe_context oe)) (oe_request oe nm d) (oe_cf oe)
      = (oe_cf oe, Publish e po)" "prepare_event ((oe_pe oe)\<lparr>pe_cf := oe_cf oe\<rparr>) po e = Inr e'" "sent_name oe e' = nm"
    using Cons.prems by (auto simp: ev sendable_def split: prod.splits handled.splits sum.splits)
  obtain px1 where px1: "publishEvent ((oe_pe oe)\<lparr>pe_cf := oe_cf oe\<rparr>) po [e] px = Inr px1" "queued_events px1 = queued_events px @ [e']"
    using queued_after_publish [OF _ h(2), of px] assms(1) by auto
  then have "send_followup oe user ev (oe_cf oe, px) = Some (oe_cf oe, px1)" by (simp add: send_followup_def ev h(1))
  then show ?case using Cons.IH [of px1] Cons.prems px1(2) h(3) by (auto simp: ev)
qed simp

lemma tuple_objects_uniform: "\<not> nullish v \<Longrightarrow> tuple_objects (map (status_tuple v) ids) = Some (map (\<lambda>i. v) ids)"
  by (induction ids) (simp_all add: status_tuple_def)

lemma queued_cleared: "queued_events (put_events [] px) = []"
  by (cases "px_queue px") (auto simp: queued_events_def put_events_def)

text \<open>Statuses that are the same for all entries of a cluster.\<close>

lemma normalize_same_status: "normalize_entry v = Some d \<Longrightarrow> normalizeStatusMap (map (\<lambda>i. (i, v)) ids) = Some (map (\<lambda>i. (i, d)) ids)"
  by (induction ids) simp_all

lemma uniform_status_map:
  assumes "normalize_entry v = Some d" "js_prop d ''status'' = JNum n" "n \<in> {Open, Done, Error, Exceeded}" "ids \<noteq> []"
    and "set ids \<subseteq> set (obj_keys (p_selectedEventMap p))"
  shows "statusMapContainsError (map (\<lambda>i. (i, v)) ids) = Some (n = Error)"
    and "checked_map (Given (map (\<lambda>i. (i, v)) ids)) p = Some (map (\<lambda>i. (i, d)) ids)"
proof -
  note nm = normalize_same_status [OF assms(1), of ids]
  show "statusMapContainsError (map (\<lambda>i. (i, v)) ids) = Some (n = Error)"
    using assms(2,4) by (auto simp: statusMapContainsError_def nm image_iff neq_Nil_conv)
  have "status_allowed d" using assms(2,3) by (simp add: status_allowed_def)
  moreover have "filter (\<lambda>i. i \<in> set (obj_keys (p_selectedEventMap p))) ids = ids" using assms(5) by (auto intro: filter_True)
  ultimately show "checked_map (Given (map (\<lambda>i. (i, v)) ids)) p = Some (map (\<lambda>i. (i, d)) ids)"
    by (simp add: checked_map_def nm Let_def ensureOnlySelectedQueueEntries_def ensureEveryStatusIsAllowed_def filter_map comp_def)
qed

lemma persist_uniform:
  assumes "normalize_entry v = Some d" "js_prop d ''status'' = JNum n" "n \<in> {Open, Done, Error, Exceeded}" "ids \<noteq> []" "distinct ids"
    and "set ids \<subseteq> set (obj_keys (p_selectedEventMap p))"
  shows "\<exists>w' p' rows. persistEventStatus pf now (Given (map (\<lambda>i. (i, v)) ids)) (w, p) = Some (w', p') \<and> w_biz w' = w_biz w
    \<and> w_events w' = rows @ p_nextSagaEvents p
    \<and> (\<forall>i r. row_of (w_events w) i = Some r \<longrightarrow>
          (\<exists>r'. row_of (w_events w') i = Some r' \<and> (if i \<in> set ids then ev_status r' = n else r' = r)))"
proof -
  let ?m = "map (\<lambda>i. (i, v)) ids"
  note c = uniform_status_map(2) [OF assms(1-4,6)]
  obtain w' p' where ps: "persistEventStatus pf now (Given ?m) (w, p) = Some (w', p')" using persist_exists [OF c] by fast
  have dk: "distinct (obj_keys (mode_map (Given ?m) p))" using assms(5) by (simp add: comp_def)
  have get: "obj_get (map (\<lambda>i. (i, d)) ids) i = (if i \<in> set ids then Some d else None)" for i
    by (induction ids) auto
  have "\<exists>r'. row_of (w_events w') i = Some r' \<and> (if i \<in> set ids then ev_status r' = n else r' = r)"
    if r: "row_of (w_events w) i = Some r" for i r
  proof (cases "i \<in> set ids")
    case True
    then obtain d' where "js_prop d' ''status'' = JNum n"
      "row_of (w_events w') i = Some (set_columns now (prepare_update (pf_parseDate pf) (ec_retry (p_cfg p)) now d') r)"
      using persist_row(2) [OF ps c dk r, of d] assms(2) get [of i] by auto
    then show ?thesis using True written_status by auto
  next
    case False
    then show ?thesis using persist_row(1) [OF ps c dk r] get [of i] by simp
  qed
  then show ?thesis using ps persist_table [OF ps c] assms(4) by auto
qed

text \<open>The follow-up events of a call that threw: the one for the failed handler is kept for the next transaction.\<close>

lemma failed_followups:
  assumes "pe_initialized (oe_pe oe)" "rs \<noteq> []" "loop_runs ob (event_name payload)"
    and "saga_handler ob (event_name payload) SAGA_FAILED = Some n"
    and "list_all (sendable oe (di_user (dispatched oe payload)))
           (followup_events ob JUndef (saga_request (dispatched oe payload) rs) (map (\<lambda>r. error_obj err) rs))"
  shows "\<exists>next' px'. outbox_followups oe ob (dispatched oe payload) rs (Inl err) px = Some (next', px') \<and> n \<in> set (map (sent_name oe) next')"
proof -
  let ?d = "dispatched oe payload" and ?objs = "map (\<lambda>r. error_obj err) rs"
  let ?req = "saga_request ?d rs" and ?sh = "handlers_of ob (event_name payload)"
  let ?evs = "followup_events ob JUndef ?req ?objs"
  have ev: "sr_event ?req = event_name payload" by (simp add: saga_request_def buildDispatchData_def Let_def event_name_def)
  have objs: "status_objects (Inl err) (map ev_ID rs) = Some ?objs"
    by (simp add: status_objects_def result_tuples_def tuple_objects_uniform error_obj_def shared_object_def del: map_map) simp
  have "map fst ?evs = concat (map (names_sent ?sh ?req) ?objs)"
    using assms(3) by (auto simp: followup_events_def Let_def ev loop_runs_def followup_loop_names)
  moreover have "n \<in> set (names_sent ?sh ?req (error_obj err))"
    using assms(4) by (simp add: names_sent_def handlers_of_def error_obj_def)
  ultimately have n: "n \<in> set (map fst ?evs)" using assms(2) by (auto simp: neq_Nil_conv)
  obtain px1 where px1: "send_followups oe (di_user ?d) ?evs (oe_cf oe, put_events [] px) = Some (oe_cf oe, px1)"
    "map (sent_name oe) (queued_events px1) = map fst ?evs"
    using send_followups_names [OF assms(1,5)] by (metis append_Nil list.simps(8) queued_cleared)
  from n px1(2) obtain e where e: "e \<in> set (queued_events px1)" "sent_name oe e = n" by (metis (mono_tags, lifting) imageE set_map)
  have "sh_failed ?sh = Some n" using assms(4) by (simp add: handlers_of_def)
  then show ?thesis
    using assms(3) e px1(1) by (auto simp: outbox_followups_def Let_def ev objs returned_value_def publishFollowupEvents_def image_iff)
qed

lemma addEventsToContext_queue: "px_queue (addEventsToContext es px) \<noteq> None"
  by (cases "px_queue px") (auto simp: addEventsToContext_def)

lemma registerHandler_queue: "px_queue px \<noteq> None \<Longrightarrow> px_queue (registerHandler b px) \<noteq> None"
  by (auto simp: registerHandler_def split: option.splits bool.splits)

text \<open>A transaction whose publications wait for its commit: the handler is registered exactly when there is a queue.\<close>

definition waiting_tx :: "publish_tx \<Rightarrow> bool" where
  "waiting_tx px \<longleftrightarrow> (case px_queue px of None \<Rightarrow> px_hooks px = [] | Some (es, reg) \<Rightarrow> reg \<and> length (px_hooks px) = 1)"

lemma outboxed_waits: "outboxed_handle ce srv opts co oc oq cf = (cf', Publish e po) \<Longrightarrow> \<not> po_skipInsertEventsBeforeCommit po"
  by (auto simp: outboxed_handle_def mapToEvent_def default_options_def Let_def split: sum.splits option.splits if_splits prod.splits)

lemma publish_waiting:
  assumes "publishEvent pe po es px = Inr px'" "waiting_tx px" "deferred pe po"
  shows "waiting_tx px'" "px_inserts px' = px_inserts px" "px_queue px \<noteq> None \<Longrightarrow> px_hooks px' = px_hooks px"
proof -
  obtain es' where px': "px' = registerHandler (po_skipBroadcast po) (addEventsToContext es' px)"
    using publishEvent_Inr [OF assms(1)] assms(3) by metis
  show "waiting_tx px'" "px_inserts px' = px_inserts px" "px_queue px \<noteq> None \<Longrightarrow> px_hooks px' = px_hooks px"
    using assms(2) by (auto simp: px' registerHandler_def addEventsToContext_def waiting_tx_def split: option.splits)
qed

lemma send_followups_waiting:
  assumes "pe_insertBeforeCommit (oe_pe oe)" "send_followups oe user evs (cf, px) = Some (cf', px')" "waiting_tx px"
  shows "waiting_tx px' \<and> px_inserts px' = px_inserts px \<and> (px_queue px \<noteq> None \<longrightarrow> px_queue px' \<noteq> None \<and> px_hooks px' = px_hooks px)"
  using assms(2,3)
proof (induction evs arbitrary: cf px)
  case (Cons ev evs)
  obtain nm d where ev: "ev = (nm, d)" by fastforce
  obtain cf1 px1 where s: "send_followup oe user ev (cf, px) = Some (cf1, px1)" "send_followups oe user evs (cf1, px1) = Some (cf', px')"
    using Cons.prems(1) by (auto split: option.splits)
  have "px1 = px \<or> (\<exists>e po. publishEvent ((oe_pe oe)\<lparr>pe_cf := cf1\<rparr>) po [e] px = Inr px1 \<and> \<not> po_skipInsertEventsBeforeCommit po)"
    using s(1) by (auto simp: send_followup_def ev dest: outboxed_waits split: prod.splits handled.splits sum.splits)
  then have "waiting_tx px1 \<and> px_inserts px1 = px_inserts px \<and> (px_queue px \<noteq> None \<longrightarrow> px_queue px1 \<noteq> None \<and> px_hooks px1 = px_hooks px)"
  proof (elim disjE exE conjE)
    fix e po
    assume a: "publishEvent ((oe_pe oe)\<lparr>pe_cf := cf1\<rparr>) po [e] px = Inr px1" "\<not> po_skipInsertEventsBeforeCommit po"
    have d: "deferred ((oe_pe oe)\<lparr>pe_cf := cf1\<rparr>) po" using assms(1) a(2) by (simp add: deferred_def)
    have "px_queue px1 \<noteq> None" using publishEvent_Inr [OF a(1)] d
      by (metis addEventsToContext_queue registerHandler_queue)
    then show ?thesis using publish_waiting [OF a(1) Cons.prems(2) d] by blast
  qed (use Cons.prems(2) in simp)
  then show ?case using Cons.IH [OF s(2)] by auto
qed simp

text \<open>With insertion before the commit the follow-up events are taken out of the transaction of the call, and nothing else
  changes there.\<close>

lemma followups_taken_out:
  assumes "pe_insertBeforeCommit (oe_pe oe)" "waiting_tx px" "outbox_followups oe ob d rs res px = Some (next', px')"
  shows "sent_events (commit_tx px') = sent_events (commit_tx px)"
proof (cases "loop_runs ob (sr_event (saga_request d rs))")
  case False
  then show ?thesis using assms(3) by (simp add: outbox_followups_def Let_def)
next
  case True
  obtain objs cf' px1 where s: "send_followups oe (di_user d) (followup_events ob (returned_value res) (saga_request d rs) objs)
      (oe_cf oe, put_events [] px) = Some (cf', px1)"
    and px': "px' = put_events (case px_queue px of None \<Rightarrow> [] | Some (es, reg) \<Rightarrow> es) px1"
    using assms(3) True by (auto simp: outbox_followups_def publishFollowupEvents_def Let_def split: option.splits prod.splits if_splits)
  have w: "waiting_tx (put_events [] px)" using assms(2) by (auto simp: waiting_tx_def put_events_def split: option.splits)
  note sw = send_followups_waiting [OF assms(1) s w]
  have ins: "px_inserts px1 = px_inserts px" using sw by (simp add: put_events_def)
  show ?thesis
  proof (cases "px_queue px")
    case None
    then have "px_hooks px = []" using assms(2) by (simp add: waiting_tx_def)
    moreover have "px_inserts (commit_tx px') = px_inserts px"
    proof (cases "px_queue px1")
      case none: None
      then show ?thesis using sw ins by (simp add: px' commit_tx_def waiting_tx_def put_events_def)
    next
      case (Some q)
      then obtain es b where "q = (es, True)" "px_hooks px1 = [b]" using sw by (auto simp: waiting_tx_def length_Suc_conv)
      then show ?thesis using commit_one_hook [of px' "[]" b] Some None ins by (simp add: px' put_events_def)
    qed
    ultimately show ?thesis by (simp add: sent_events_def commit_no_hook)
  next
    case (Some q)
    then obtain es b where q: "q = (es, True)" "px_hooks px = [b]" using assms(2) by (auto simp: waiting_tx_def length_Suc_conv)
    have "px_hooks px1 = [b]" "px_queue px1 \<noteq> None" using sw Some q by (simp_all add: put_events_def)
    then obtain es1 reg where "px_queue px1 = Some (es1, reg)" "px_hooks px1 = [b]" by auto
    moreover have reg using sw calculation by (simp add: waiting_tx_def)
    ultimately show ?thesis
      using commit_one_hook [of px es b] commit_one_hook [of px' es b] Some q ins by (simp add: px' put_events_def sent_events_def)
  qed
qed

lemma followups_sent:
  assumes "pe_insertBeforeCommit (oe_pe oe)" "pe_initialized (oe_pe oe)" "status_objects res (map ev_ID rs) = Some objs"
    and "evs = followup_events ob (returned_value res) (saga_request d rs) objs" "list_all (sendable oe (di_user d)) evs"
  shows "\<exists>next' px'. outbox_followups oe ob d rs res px = Some (next', px') \<and> map (sent_name oe) next' = map fst evs"
proof -
  obtain px1 where px1: "send_followups oe (di_user d) evs (oe_cf oe, put_events [] px) = Some (oe_cf oe, px1)"
    "map (sent_name oe) (queued_events px1) = map fst evs"
    using send_followups_names [OF assms(2,5)] by (metis append_Nil list.simps(8) queued_cleared)
  show ?thesis
  proof (cases "loop_runs ob (sr_event (saga_request d rs))")
    case True
    then show ?thesis using px1 assms(1)
      by (simp add: outbox_followups_def Let_def assms(3,4) publishFollowupEvents_def comp_def)
  next
    case False
    then have "evs = []" by (auto simp: assms(4) followup_events_def loop_runs_def Let_def)
    then show ?thesis using False by (simp add: outbox_followups_def Let_def)
  qed
qed

text \<open>The status map of a cluster whose service gave the same outcome for all entries.\<close>

lemma clean_uniform: "clean_tuple (status_tuple v i) = status_tuple (without_nextData v) i"
  by (simp add: clean_tuple_def status_tuple_def)

lemma outbox_status_map:
  assumes "commitOnEventLevel p" "\<not> isOutdatedAndKeepAlive p" "distinct (map ev_ID rs)" "\<not> array_result res"
    and "oe_call oe (dispatched oe payload) (td_data td, new_publish_tx) = ((c, px), rb, res)"
    and "outbox_followups oe ob (dispatched oe payload) rs res px = Some (next', px')"
    and "v = (if loop_runs ob (event_name payload) then without_nextData (outcome_of res) else outcome_of res)"
  shows "processEvent pf (outbox_handler oe ob) key rs payload (td, p) =
    (td\<lparr>td_data := c, td_events := td_events td @ insert_rows oe (key @ ''#tx'') (sent_events (commit_tx px'))\<rparr>,
     note_flags key rb (insert_rows oe key next') p, map (\<lambda>i. (i, v)) (map ev_ID rs))"
proof -
  have ev: "key_part (di_event (dispatched oe payload)) = event_name payload" by (simp add: buildDispatchData_def Let_def event_name_def)
  have "is_object (outcome_of res)" using outcome_object [OF assms(4)] by blast
  then have obj: "is_object v" by (cases "outcome_of res") (simp_all add: assms(7) without_nextData_def)
  have tuples: "(if loop_runs ob (event_name payload) then map clean_tuple (result_tuples res ids) else result_tuples res ids) = map (status_tuple v) ids" for ids
    by (simp add: result_tuples_uniform [OF assms(4)] clean_uniform assms(7))
  have mode: "commitOnEventLevel (note_flags key rb saga p)" for saga
    using assms(1) by (simp add: commitOnEventLevel_def note_flags_def setShouldRollbackTransaction_def Let_def)
  show ?thesis
    using assms(2) mode add_uniform_tuples [OF obj assms(3), of "[]"]
    by (simp add: processEvent_def outbox_handler_def outbox_processEvent_def Let_def assms(5,6) ev tuples setEventStatus_def
        setEventStatus_on_def del: map_map)
qed

lemma note_flags_parts:
  "p_selectedEventMap (note_flags key rb saga p) = p_selectedEventMap p"
  "saga \<noteq> [] \<Longrightarrow> p_nextSagaEvents (note_flags key rb saga p) = saga"
  by (simp_all add: note_flags_def setShouldRollbackTransaction_def Let_def)

subsection \<open>Properties\<close>



text \<open>
  The documentation says that \<open>nextData\<close> is forwarded to all follow-up events.  An object that a service returns for a
  cluster of several entries is shared by their tuples, and the loop deletes \<open>nextData\<close> from it after
  the first entry: the events for the others get the data of the request.
\<close>

theorem nextData_of_cluster_is_lost:
  assumes "all_allowed (JObj ps)"
  shows "status_objects (Inr (JObj ps)) (i # ids) = Some (JObj ps # map (\<lambda>j. JObj (obj_del ''nextData'' ps)) ids)"
proof -
  have "result_tuples (Inr (JObj ps)) (i # ids) = map (status_tuple (JObj ps)) (i # ids)"
    using assms by (simp add: result_tuples_def determineResultStatus_def is_status_def)
  then have "tuple_objects (result_tuples (Inr (JObj ps)) (i # ids)) = Some (map (\<lambda>j. JObj ps) (i # ids))"
    using tuple_objects_uniform [of "JObj ps" "i # ids"] by simp
  moreover have "shared_object (Inr (JObj ps))" using assms by (simp add: shared_object_def is_status_def image_iff)
  ultimately show ?thesis by (simp add: status_objects_def without_nextData_def)
qed

text \<open>
  Without insertion before the commit, the events for the succeeded handler are never kept for the transaction that
  writes the statuses.  When another entry of the same cluster is in error, the transaction they were
  inserted in is rolled back: an entry is done and its success is never announced.
\<close>

theorem success_is_not_kept:
  assumes "publishFollowupEvents False sh hasError queue sent = (next', queue')" "Some n \<notin> {sh_failed sh, sh_done sh}"
  shows "(n, e) \<notin> set next'"
  using assms by (auto simp: publishFollowupEvents_def Let_def)

subsection \<open>Witnesses\<close>

text \<open>A service with one event, which publishes another event and counts its calls; follow-up handlers for success
  and failure.  The reader of texts finds the name of an event in them.\<close>

fun demo_read_event :: "string \<Rightarrow> string" where
  "demo_read_event [] = []"
| "demo_read_event (c # cs) =
     (if c = CHR ''t'' \<and> take 3 cs = [CHR 0x22, CHR 0x3A, CHR 0x22] then takeWhile (\<lambda>c. c \<noteq> CHR 0x22) (drop 3 cs) else demo_read_event cs)"

definition demo_order_parse :: "string \<Rightarrow> jsval option" where
  "demo_order_parse s = Some (JObj [(''event'', JStr (demo_read_event s))])"

definition demo_order_cf :: config where
  "demo_order_cf = demo_config\<lparr>cf_eventMap := [(''default##CAP_OUTBOX##Order'',
     [(''type'', JStr ''CAP_OUTBOX''), (''subType'', JStr ''Order''), (''namespace'', JStr ''default''), (''kind'', JStr ''persistent-queue'')])]\<rparr>"

definition demo_order_pe :: publish_env where
  "demo_order_pe = demo_pe\<lparr>pe_cf := demo_order_cf\<rparr>"

definition demo_order_px :: publish_tx where
  "demo_order_px = projr (publishEvent demo_order_pe default_options
     [[(''type'', JStr ''CAP_OUTBOX''), (''subType'', JStr ''Order''), (''namespace'', JStr ''default''), (''payload'', JStr ''audit'')]] new_publish_tx)"

definition demo_order_env :: "jsval + jsval \<Rightarrow> nat outbox_env" where
  "demo_order_env res = \<lparr>oe_ce = demo_ce, oe_cf = demo_order_cf, oe_pe = demo_order_pe, oe_srvName = ''Order'', oe_srvOptions = JObj [],
     oe_on = [''order'', ''#succeeded'', ''#failed''], oe_type = ''CAP_OUTBOX'', oe_subType = ''Order'', oe_useEventQueueUser = False,
     oe_userId = ''tech'', oe_parse = demo_order_parse, oe_parseDate = (\<lambda>s. None), oe_uuid = (\<lambda>key n. ''new'' @ key), oe_now = 1000200,
     oe_context = demo_out_ctx,
     oe_request = (\<lambda>nm d. \<lparr>oq_props = [(''event'', JStr nm), (''data'', JObj d)], oq_headers = [], oq_reply = True, oq_fromSend = JUndef, oq_query = JUndef\<rparr>),
     oe_call = (\<lambda>d (c, px). ((c + 1, demo_order_px), False, res)), oe_check = (\<lambda>nm d. Inr JUndef), oe_exceeded = (\<lambda>nm d td. Inr td),
     oe_emit = (\<lambda>nm user r td. (td, False, Inr ())), oe_askGeneric = (\<lambda>a m. None), oe_askSpecific = (\<lambda>a m. None), oe_commitFails = (\<lambda>key td. False)\<rparr>"

definition demo_order_payload :: jsval where
  "demo_order_payload = JObj [(''contextUser'', JStr ''me''), (''event'', JStr ''order''), (''data'', JObj [(''id'', JNum 4)])]"

definition demo_order_claim :: "(nat tx_data world \<times> processor) \<times> event_row list" where
  "demo_order_claim = getQueueEntriesAndSetToInProgress demo_gc 1000100
     (\<lparr>w_events = [new_row ''1'' 5 ''CAP_OUTBOX'' ''Order'' ''default'' None, new_row ''2'' 5 ''CAP_OUTBOX'' ''Mail'' ''default'' None],
       w_sched = new_EventScheduler, w_biz = \<lparr>td_data = 7, td_events = []\<rparr>\<rparr>, new_processor (Some ''t1'') ''CAP_OUTBOX'' ''Order'' demo_cfg)"

definition demo_order_run :: "jsval + jsval \<Rightarrow> (nat tx_data world \<times> processor) \<times> bool" where
  "demo_order_run res = processIsolated demo_pf (outbox_handler (demo_order_env res) (connected (demo_order_env res))) 1000200
     (''1'', snd demo_order_claim, demo_order_payload) (fst demo_order_claim)"

abbreviation demo_order_fails :: "nat outbox_env" where
  "demo_order_fails \<equiv> demo_order_env (Inl (JStr ''down''))"


abbreviation demo_order_returns :: "nat outbox_env" where
  "demo_order_returns \<equiv> demo_order_env (Inr (JStr ''ok''))"


theorem nextData_of_cluster_is_lost_witness:
  "status_objects (Inr (JObj [(''status'', JNum Done), (''nextData'', JNum 4)])) [''1'', ''2'']
     = Some [JObj [(''status'', JNum Done), (''nextData'', JNum 4)], JObj [(''status'', JNum Done)]]"
proof -
  have "all_allowed (JObj [(''status'', JNum Done), (''nextData'', JNum 4)])" by code_simp
  from nextData_of_cluster_is_lost [OF this, of "''1''" "[''2'']"] show ?thesis by simp
qed

end
