(* ===== verification/AdminService.thy ===== *)
theory AdminService
  imports OpenEvents OutboxResults CdsHelper
begin

text \<open>
  \<open>srv/service/admin-service.js\<close> and \<open>srv/service/publishEventHelper.js\<close>: the service with which an
  operator reads events and locks, restarts an event, releases the lock of a run and publishes an
  event for several tenants.

  A request is what the handlers read of it; the world holds the event table of every tenant, the
  locks and what has been published.  A handler returns the new world and an answer or the rejection.
  The query of a read is the condition on the rows; \<open>localeCompare\<close>, which depends on the locale of the
  process, the tenants of the provisioning service and the text of an error are parameters.

  Proved: the guards come first and a rejected request changes nothing but what was committed before;
  a restart changes exactly one row of one tenant and makes it selectable again; releasing a lock lets
  the next run start and leaves every other lock alone; publishing reaches exactly the tenants asked for.
\<close>

subsection \<open>Tenants of a request\<close>

datatype wanted = WantSelf | WantAll | WantNamed

fun wanted_tenants :: "jsval list \<Rightarrow> wanted" where
  "wanted_tenants [] = WantNamed"
| "wanted_tenants (t # ts) =
     (if t = JStr ''self'' then WantSelf
      else if t \<in> {JStr ''all'', JStr ''*''} then WantAll else wanted_tenants ts)"

text \<open>\<open>_resolveTenantInfos\<close>; \<open>None\<close>: \<open>getAllTenantIds\<close> gives no array.\<close>

definition resolveTenants :: "string list option \<Rightarrow> jsval \<Rightarrow> tenant \<Rightarrow> tenant list option" where
  "resolveTenants allIds tenants self =
     (case tenants of
        JArr ts \<Rightarrow>
          (case wanted_tenants ts of
             WantSelf \<Rightarrow> Some [self]
           | WantAll \<Rightarrow> map_option (map Some) allIds
           | WantNamed \<Rightarrow> map_option (\<lambda>ids. map Some (filter (\<lambda>i. i \<in> set (map (js_string (\<lambda>t. [])) ts)) ids)) allIds)
      | _ \<Rightarrow> Some [])"

fun insert_tenant :: "(tenant \<Rightarrow> tenant \<Rightarrow> bool) \<Rightarrow> tenant \<Rightarrow> tenant list \<Rightarrow> tenant list" where
  "insert_tenant le t [] = [t]"
| "insert_tenant le t (u # us) = (if le t u then t # u # us else u # insert_tenant le t us)"

definition resolveTenantInfos ::
  "(tenant \<Rightarrow> tenant \<Rightarrow> bool) \<Rightarrow> string list option \<Rightarrow> jsval \<Rightarrow> tenant \<Rightarrow> tenant list option" where
  "resolveTenantInfos le allIds tenants self =
     map_option (\<lambda>ts. foldr (insert_tenant le) ts []) (resolveTenants allIds tenants self)"

subsection \<open>Requests\<close>

datatype admin_target = EventEntity | LockEntity | NoEntity

record admin_req =
  ar_event :: string
  ar_target :: admin_target
  ar_headers :: "jsval jsobj"
  ar_httpHeaders :: "jsval jsobj"
  ar_data :: "jsval jsobj"
  ar_ID :: string
  ar_tenant :: tenant
  ar_where :: "event_row \<Rightarrow> bool"

datatype admin_rejection = Reject int string

datatype admin_answer = Rows "(tenant \<times> event_row) list" | Locks "lock_info list" | Released bool | Finished

record 'r admin_world =
  aw_events :: "tenant \<Rightarrow> event_table"
  aw_locks :: "'r locks"
  aw_published :: "(tenant \<times> event_obj list) list"
  aw_broadcasts :: "(tenant \<times> combo list) list"

record 'r admin_env =
  ae_cf :: config
  ae_enabled :: bool
  ae_redis :: "'r redis"
  ae_scanned :: "(string \<times> int \<times> string) list"
  ae_publish :: publish_env
  ae_le :: "tenant \<Rightarrow> tenant \<Rightarrow> bool"
  ae_allIds :: "string list option"
  ae_text :: "EventQueueError option \<Rightarrow> string"

definition header_tenant :: "admin_req \<Rightarrow> tenant" where
  "header_tenant req = (case js_prop (ar_headers req) ''z-id'' of JStr s \<Rightarrow> Some s | _ \<Rightarrow> None)"

text \<open>The handler before every event.\<close>

definition admin_before :: "'r admin_env \<Rightarrow> admin_req \<Rightarrow> admin_rejection + admin_req" where
  "admin_before ae req =
     (if \<not> ae_enabled ae then Inl (Reject 403 ''Admin service is disabled by configuration'')
      else if ar_event req = ''publishEvent'' \<or> ar_target req = LockEntity then Inr req
      else let tenant = coalesce (js_prop (obj_assign (ar_headers req) (ar_httpHeaders req)) ''z-id'') (js_prop (ar_data req) ''tenant'') in
           if cf_isMultiTenancy (ae_cf ae) \<and> nullish tenant then Inl (Reject 400 ''Missing tenant ID in request header (z-id)'')
           else Inr (req\<lparr>ar_headers := obj_set ''z-id'' tenant (ar_headers req)\<rparr>))"

subsection \<open>Handlers\<close>

definition admin_read :: "admin_req \<Rightarrow> 'r admin_world \<Rightarrow> admin_answer" where
  "admin_read req w = Rows (map (\<lambda>r. (header_tenant req, r)) (filter (ar_where req) (aw_events w (header_tenant req))))"

definition admin_readLocks :: "'r admin_env \<Rightarrow> admin_answer" where
  "admin_readLocks ae = Locks (if cf_redisEnabled (ae_cf ae) then getAllLocksRedis (ae_scanned ae) else [])"

text \<open>\<open>updateData\<close>: attempts and status, each when it is valid.\<close>

definition restart_data :: "jsval jsobj \<Rightarrow> int option \<times> int option" where
  "restart_data d =
     ((case js_prop d ''attempts'' of JNum n \<Rightarrow> Some n | _ \<Rightarrow> None),
      (case js_prop d ''status'' of JNum n \<Rightarrow> if is_status (JNum n) then Some n else None | _ \<Rightarrow> None))"

definition restart_row :: "int option \<times> int option \<Rightarrow> event_row \<Rightarrow> event_row" where
  "restart_row d r =
     r\<lparr>ev_attempts := (case fst d of Some n \<Rightarrow> n | None \<Rightarrow> ev_attempts r),
       ev_status := (case snd d of Some n \<Rightarrow> n | None \<Rightarrow> ev_status r)\<rparr>"

text \<open>The event is broadcast as it was read before the update; without an event the broadcast fails and
  the failure is ignored.\<close>

definition setStatusAndAttempts :: "admin_req \<Rightarrow> 'r admin_world \<Rightarrow> 'r admin_world \<times> (admin_rejection + admin_answer)" where
  "setStatusAndAttempts req w =
     (let t = header_tenant req; d = restart_data (ar_data req) in
      if d = (None, None) then (w, Inl (Reject 400 ''No status or attempts provided''))
      else let rows = aw_events w t;
               w1 = w\<lparr>aw_events := (aw_events w)(t := update_where (id_in [ar_ID req]) (restart_row d) rows),
                      aw_broadcasts := aw_broadcasts w @ (case row_of rows (ar_ID req) of None \<Rightarrow> [] | Some r \<Rightarrow> [(t, [combo_of r])])\<rparr>
           in (w1, Inr (admin_read req w1)))"

definition admin_releaseLock :: "'r admin_env \<Rightarrow> time \<Rightarrow> admin_req \<Rightarrow> 'r admin_world \<Rightarrow> 'r admin_world \<times> (admin_rejection + admin_answer)" where
  "admin_releaseLock ae now req w =
     (let d = ar_data req;
          key = join hash_sep (map key_part [js_prop d ''namespace'', js_prop d ''type'', js_prop d ''subType'']) in
      case releaseLock (ae_redis ae) (ae_cf ae) now (header_tenant req) key True True (aw_locks w) of
        (ls, ok) \<Rightarrow> (w\<lparr>aw_locks := ls\<rparr>, Inr (Released ok)))"

definition eventOptions :: "jsval jsobj \<Rightarrow> event_obj" where
  "eventOptions d =
     cleanUndefined (map (\<lambda>k. (k, js_prop d k))
       [''type'', ''subType'', ''referenceEntity'', ''referenceEntityKey'', ''payload'', ''startAfter'', ''namespace''])"

text \<open>One transaction per tenant; the first error ends the loop, what is committed stays.\<close>

fun publish_tenants :: "publish_env \<Rightarrow> event_obj \<Rightarrow> tenant list \<Rightarrow> (tenant \<times> event_obj list) list
    \<Rightarrow> (tenant \<times> event_obj list) list \<times> EventQueueError option" where
  "publish_tenants pe e [] acc = (acc, None)"
| "publish_tenants pe e (t # ts) acc =
     (case publishEvent pe default_options [e] new_publish_tx of
        Inl err \<Rightarrow> (acc, Some err)
      | Inr px \<Rightarrow> publish_tenants pe e ts (acc @ [(t, sent_events (commit_tx px))]))"

definition admin_publishEvent :: "'r admin_env \<Rightarrow> admin_req \<Rightarrow> 'r admin_world \<Rightarrow> 'r admin_world \<times> (admin_rejection + admin_answer)" where
  "admin_publishEvent ae req w =
     (case resolveTenantInfos (ae_le ae) (ae_allIds ae) (js_prop (ar_data req) ''tenants'') (ar_tenant req) of
        None \<Rightarrow> (w, Inl (Reject 400 (''Error publishing event: '' @ ae_text ae None)))
      | Some ts \<Rightarrow>
          (case publish_tenants (ae_publish ae) (eventOptions (ar_data req)) ts (aw_published w) of
             (pub, err) \<Rightarrow>
               (w\<lparr>aw_published := pub\<rparr>,
                (case err of None \<Rightarrow> Inr Finished | Some e \<Rightarrow> Inl (Reject 400 (''Error publishing event: '' @ ae_text ae (Some e)))))))"

text \<open>The service: \<open>None\<close> leaves the request to the framework.\<close>

definition admin_on :: "'r admin_env \<Rightarrow> time \<Rightarrow> admin_req \<Rightarrow> 'r admin_world \<Rightarrow> ('r admin_world \<times> (admin_rejection + admin_answer)) option" where
  "admin_on ae now req w =
     (if ar_event req = ''READ'' \<and> ar_target req = EventEntity then Some (w, Inr (admin_read req w))
      else if ar_event req = ''READ'' \<and> ar_target req = LockEntity then Some (w, Inr (admin_readLocks ae))
      else if ar_event req = ''setStatusAndAttempts'' then Some (setStatusAndAttempts req w)
      else if ar_event req = ''releaseLock'' then Some (admin_releaseLock ae now req w)
      else if ar_event req = ''publishEvent'' then Some (admin_publishEvent ae req w)
      else None)"

definition admin_handle :: "'r admin_env \<Rightarrow> time \<Rightarrow> admin_req \<Rightarrow> 'r admin_world \<Rightarrow> ('r admin_world \<times> (admin_rejection + admin_answer)) option" where
  "admin_handle ae now req w =
     (case admin_before ae req of Inl rej \<Rightarrow> Some (w, Inl rej) | Inr req' \<Rightarrow> admin_on ae now req' w)"

subsection \<open>Lemmas\<close>

lemma mset_insert_tenant: "mset (insert_tenant le t us) = add_mset t (mset us)"
  by (induction us) auto

lemma mset_sort_tenants: "mset (foldr (insert_tenant le) ts []) = mset ts"
  by (induction ts) (simp_all add: mset_insert_tenant)

lemma restart_row_simps [simp]:
  "ev_ID (restart_row d r) = ev_ID r" "combo_of (restart_row d r) = combo_of r"
  by (simp_all add: restart_row_def combo_of_def)

lemma wanted_named: "wanted_tenants ts = WantNamed \<longleftrightarrow> set ts \<inter> {JStr ''self'', JStr ''all'', JStr ''*''} = {}"
  by (induction ts) auto

text \<open>The header of a request for an entry is the tenant found by the guard.\<close>

lemma admin_before_tenant:
  assumes "ae_enabled ae" "ar_event req \<noteq> ''publishEvent''" "ar_target req \<noteq> LockEntity"
    and "js_prop (obj_assign (ar_headers req) (ar_httpHeaders req)) ''z-id'' = JStr t"
  obtains req' where "admin_before ae req = Inr req'" "header_tenant req' = Some t"
    "ar_event req' = ar_event req" "ar_data req' = ar_data req" "ar_ID req' = ar_ID req" "ar_where req' = ar_where req"
    "ar_target req' = ar_target req"
proof
  let ?req = "req\<lparr>ar_headers := obj_set ''z-id'' (JStr t) (ar_headers req)\<rparr>"
  show "admin_before ae req = Inr ?req" using assms by (simp add: admin_before_def Let_def coalesce_def)
  show "header_tenant ?req = Some t" by (simp add: header_tenant_def)
qed simp_all

lemma publish_tenants_ok:
  assumes "publishEvent pe default_options [e] new_publish_tx = Inr px"
  shows "publish_tenants pe e ts acc = (acc @ map (\<lambda>t. (t, sent_events (commit_tx px))) ts, None)"
  using assms by (induction ts arbitrary: acc) simp_all

lemma publish_tenants_failed:
  assumes "publishEvent pe default_options [e] new_publish_tx = Inl err" "ts \<noteq> []"
  shows "publish_tenants pe e ts acc = (acc, Some err)"
  using assms by (cases ts) simp_all

subsection \<open>Properties\<close>

text \<open>
  The guard of the admin service: when it is disabled, or when a request for events comes without a
  tenant although there are several, the request is rejected and the world stays as it was; and
  nothing is changed by reading.
\<close>

theorem admin_guard:
  "(\<not> ae_enabled ae \<longrightarrow> admin_handle ae now req w = Some (w, Inl (Reject 403 ''Admin service is disabled by configuration'')))
   \<and> (ae_enabled ae \<and> ar_event req \<noteq> ''publishEvent'' \<and> ar_target req \<noteq> LockEntity \<and> cf_isMultiTenancy (ae_cf ae)
      \<and> nullish (js_prop (obj_assign (ar_headers req) (ar_httpHeaders req)) ''z-id'') \<and> nullish (js_prop (ar_data req) ''tenant'')
      \<longrightarrow> admin_handle ae now req w = Some (w, Inl (Reject 400 ''Missing tenant ID in request header (z-id)'')))
   \<and> (ar_event req = ''READ'' \<and> admin_handle ae now req w = Some (w', ans) \<longrightarrow> w' = w)"
  by (auto simp: admin_handle_def admin_before_def Let_def coalesce_def admin_on_def split: sum.splits if_splits)

text \<open>
  C34. An operator can restart an entry: setting the status to open and the attempts to zero changes
  exactly this row of this tenant, in these two columns, and no lock; its combination is broadcast for
  the tenant, and a run of the combination that starts after the last attempt selects the entry again.
\<close>

theorem restart_selects_entry_again:
  assumes "ae_enabled ae" "ar_event req = ''setStatusAndAttempts''" "ar_target req = EventEntity"
    and "js_prop (obj_assign (ar_headers req) (ar_httpHeaders req)) ''z-id'' = JStr t"
    and "js_prop (ar_data req) ''attempts'' = JNum 0" "js_prop (ar_data req) ''status'' = JNum Open"
    and row: "row_of (aw_events w (Some t)) (ar_ID req) = Some r"
    and "admin_handle ae now req w = Some (w', ans)"
    and run: "(p_type p, p_subType p, ec_namespace (p_cfg p)) = combo_of r" "ev_ID r \<notin> set (ec_selectedDelayedEventIds (p_cfg p))"
      "case ev_startAfter r of None \<Rightarrow> True | Some s \<Rightarrow> s \<le> refDateStartAfter gc later"
      "case ev_lastAttemptTimestamp r of None \<Rightarrow> True | Some s \<Rightarrow> s \<le> ec_startTime (p_cfg p)"
  shows "aw_events w' = (aw_events w)(Some t := update_where (\<lambda>r'. ev_ID r' = ar_ID req)
          (\<lambda>r'. r'\<lparr>ev_status := Open, ev_attempts := 0\<rparr>) (aw_events w (Some t)))
    \<and> aw_locks w' = aw_locks w \<and> aw_broadcasts w' = aw_broadcasts w @ [(Some t, [combo_of r])]
    \<and> (\<exists>r'. row_of (aw_events w' (Some t)) (ar_ID req) = Some r' \<and> ev_attempts r' = 0 \<and> selectable gc p later r')"
proof -
  obtain req' where before: "admin_before ae req = Inr req'" and req': "header_tenant req' = Some t"
    "ar_event req' = ar_event req" "ar_data req' = ar_data req" "ar_ID req' = ar_ID req"
    using admin_before_tenant [OF assms(1) _ _ assms(4)] assms(2,3) by auto
  have data: "restart_data (ar_data req) = (Some 0, Some Open)"
    using assms(5,6) by (simp add: restart_data_def is_status_def)
  have w': "w' = fst (setStatusAndAttempts req' w)"
    using assms(8) before req'(2) assms(2) by (simp add: admin_handle_def admin_on_def)
  have eq: "id_in [ar_ID req] = (\<lambda>r'. ev_ID r' = ar_ID req)"
    "restart_row (Some 0, Some Open) = (\<lambda>r'. r'\<lparr>ev_status := Open, ev_attempts := 0\<rparr>)"
    by (auto simp: fun_eq_iff id_in_def restart_row_def)
  have ev: "aw_events w' = (aw_events w)(Some t := update_where (\<lambda>r'. ev_ID r' = ar_ID req)
      (\<lambda>r'. r'\<lparr>ev_status := Open, ev_attempts := 0\<rparr>) (aw_events w (Some t)))"
    "aw_locks w' = aw_locks w" "aw_broadcasts w' = aw_broadcasts w @ [(Some t, [combo_of r])]"
    using w' row by (simp_all add: setStatusAndAttempts_def Let_def req' data eq)
  let ?r' = "r\<lparr>ev_status := Open, ev_attempts := 0\<rparr>"
  have "row_of (aw_events w' (Some t)) (ar_ID req) = Some ?r'"
    using row row_of_in [OF row] by (simp add: ev(1) row_of_update_where)
  moreover have "selectable gc p later ?r'"
    using run by (auto simp: selectable_def status_selectable_def combo_of_def sql_le_def split: option.splits)
  ultimately show ?thesis using ev by auto
qed

text \<open>
  Releasing the lock of a combination through the admin service lets the next run of the combination
  acquire it at any time, and leaves the locks of every other combination and tenant as they were.
\<close>

theorem admin_release_frees_combination:
  assumes "cf_redisEnabled (ae_cf ae) \<longrightarrow> redis_laws (ae_redis ae)"
    and "ae_enabled ae" "ar_event req = ''releaseLock''" "ar_target req = LockEntity"
    and "header_tenant req = p_tenant p" "map (\<lambda>k. key_part (js_prop (ar_data req) k)) [''namespace'', ''type'', ''subType'']
          = [ec_namespace (p_cfg p), p_type p, p_subType p]"
    and "admin_handle ae now req w = Some (w', ans)"
  shows "snd (acquireDistributedLock (ae_redis ae) (ae_cf ae) later (p, aw_locks w'))
    \<and> (\<forall>k ttl t. k \<noteq> processing_key (ae_cf ae) p \<longrightarrow>
        held_full (ae_redis ae) (ae_cf ae) t ttl k (aw_locks w') = held_full (ae_redis ae) (ae_cf ae) t ttl k (aw_locks w))
    \<and> aw_events w' = aw_events w"
proof -
  let ?rd = "ae_redis ae" and ?cf = "ae_cf ae"
  note lock = full_lock_service [OF assms(1), of "p_tenant p" True]
  have on: "admin_on ae now req w = Some (w', ans)"
    using assms(2-4,7) by (simp add: admin_handle_def admin_before_def)
  have key: "join hash_sep (map key_part [js_prop (ar_data req) ''namespace'', js_prop (ar_data req) ''type'', js_prop (ar_data req) ''subType''])
      = join hash_sep [ec_namespace (p_cfg p), p_type p, p_subType p]"
    using assms(6) by simp
  have w': "aw_locks w' = fst (release_full ?rd ?cf now (processing_key ?cf p) (aw_locks w))" "aw_events w' = aw_events w"
    using on assms(3,5) by (auto simp: admin_on_def admin_releaseLock_def Let_def key releaseLock_def split: prod.splits simp del: join.simps list.map)
  have "snd (acquire_full ?rd ?cf later (p_tenant p) (processing_key ?cf p) (keepAliveMaxMs p) None False True (aw_locks w'))"
    using lock_service.free_after_release [OF lock] by (simp add: w' del: join.simps)
  then have "snd (acquireDistributedLock ?rd ?cf later (p, aw_locks w'))"
    by (simp add: acquireDistributedLock_def acquireLock_def split_beta del: join.simps)
  moreover have "held_full ?rd ?cf t ttl k (aw_locks w') = held_full ?rd ?cf t ttl k (aw_locks w)"
    if "k \<noteq> processing_key ?cf p" for k ttl t
    using lock_service.release_keeps [OF lock that] by (simp add: w' del: join.simps)
  ultimately show ?thesis using w'(2) by blast
qed

text \<open>
  Publishing for named tenants reaches exactly them: every subscribed tenant that is named gets the
  event once, in a transaction of its own, everybody else gets nothing; when the event is not valid
  the request is rejected and nobody gets anything.
\<close>

theorem admin_publishes_to_named_tenants:
  assumes "ae_enabled ae" "ar_event req = ''publishEvent''"
    and "js_prop (ar_data req) ''tenants'' = JArr (map JStr names)" "set names \<inter> {''self'', ''all'', ''*''} = {}"
    and "ae_allIds ae = Some ids" "distinct ids"
    and "admin_handle ae now req w = Some (w', ans)"
  shows "case publishEvent (ae_publish ae) default_options [eventOptions (ar_data req)] new_publish_tx of
      Inr px \<Rightarrow> ans = Inr Finished \<and> (\<exists>ps. aw_published w' = aw_published w @ ps
        \<and> mset ps = image_mset (\<lambda>t. (Some t, sent_events (commit_tx px))) (mset_set (set ids \<inter> set names)))
    | Inl err \<Rightarrow> aw_published w' = aw_published w \<and> (set ids \<inter> set names \<noteq> {} \<longrightarrow> isl ans)"
proof -
  let ?e = "eventOptions (ar_data req)" and ?named = "map Some (filter (\<lambda>i. i \<in> set names) ids)"
  define ts where "ts = foldr (insert_tenant (ae_le ae)) ?named []"
  have names: "set (map (js_string (\<lambda>t. [])) (map JStr names)) = set names" by force
  have "wanted_tenants (map JStr names) = WantNamed" using assms(4) by (auto simp: wanted_named)
  then have ts: "resolveTenantInfos (ae_le ae) (ae_allIds ae) (js_prop (ar_data req) ''tenants'') (ar_tenant req) = Some ts"
    unfolding resolveTenantInfos_def resolveTenants_def assms(3,5) ts_def by (simp only: jsval.case wanted.case names option.map)
  have mset: "mset ts = image_mset Some (mset_set (set ids \<inter> set names))"
  proof -
    have "mset (filter (\<lambda>i. i \<in> set names) ids) = mset_set (set (filter (\<lambda>i. i \<in> set names) ids))"
      using assms(6) by (intro mset_set_set [symmetric]) simp
    moreover have "set (filter (\<lambda>i. i \<in> set names) ids) = set ids \<inter> set names" by auto
    ultimately show ?thesis by (simp only: ts_def mset_sort_tenants mset_map)
  qed
  have on: "(w', ans) = admin_publishEvent ae req w"
    using assms(1,2,7) by (simp add: admin_handle_def admin_before_def admin_on_def)
  show ?thesis
  proof (cases "publishEvent (ae_publish ae) default_options [?e] new_publish_tx")
    case (Inl err)
    have "ts \<noteq> []" if "set ids \<inter> set names \<noteq> {}"
      using that mset by (metis finite_Int finite_set image_mset_is_empty_iff mset.simps(1) mset_set_empty_iff)
    then show ?thesis
      using on publish_tenants_failed [OF Inl, of ts "aw_published w"]
      by (cases "ts = []") (auto simp: admin_publishEvent_def ts Inl)
  next
    case (Inr px)
    have "w' = w\<lparr>aw_published := aw_published w @ map (\<lambda>t. (t, sent_events (commit_tx px))) ts\<rparr>" "ans = Inr Finished"
      using on by (simp_all add: admin_publishEvent_def ts publish_tenants_ok [OF Inr])
    moreover have "mset (map (\<lambda>t. (t, sent_events (commit_tx px))) ts)
        = image_mset (\<lambda>t. (Some t, sent_events (commit_tx px))) (mset_set (set ids \<inter> set names))"
      by (simp add: mset multiset.map_comp o_def)
    ultimately show ?thesis by (simp add: Inr)
  qed
qed

text \<open>
  The declared parameters of the action \<open>releaseLock\<close> are type and subtype.  A request with only these
  releases a key without a namespace, so the lock of a run stays.
\<close>

theorem release_without_namespace_keeps_lock:
  assumes "cf_redisEnabled (ae_cf ae) \<longrightarrow> redis_laws (ae_redis ae)"
    and "ae_enabled ae" "ar_event req = ''releaseLock''" "ar_target req = LockEntity" "header_tenant req = p_tenant p"
    and "ar_data req = [(''type'', JStr (p_type p)), (''subType'', JStr (p_subType p))]" "ec_namespace (p_cfg p) \<noteq> []"
    and "admin_handle ae now req w = Some (w', ans)"
  shows "held_full (ae_redis ae) (ae_cf ae) t ttl (processing_key (ae_cf ae) p) (aw_locks w')
    = held_full (ae_redis ae) (ae_cf ae) t ttl (processing_key (ae_cf ae) p) (aw_locks w)"
proof -
  let ?rd = "ae_redis ae" and ?cf = "ae_cf ae"
  let ?k = "lock_key ?cf (p_tenant p) True (join hash_sep [[], p_type p, p_subType p]) True"
  note lock = full_lock_service [OF assms(1), of "p_tenant p" True]
  have "aw_locks w' = fst (release_full ?rd ?cf now ?k (aw_locks w))"
    using assms(2-6,8)
    by (auto simp: admin_handle_def admin_before_def admin_on_def admin_releaseLock_def releaseLock_def key_part_def join_part_def
        split: prod.splits simp del: join.simps)
  moreover have "processing_key ?cf p \<noteq> ?k" using assms(7) by (simp add: lock_key_def)
  ultimately show ?thesis using lock_service.release_keeps [OF lock, of "processing_key ?cf p" ?k] by metis
qed

subsection \<open>Witnesses\<close>

definition demo_admin_row :: event_row where
  "demo_admin_row = (new_row ''e1'' 1 ''Mail'' ''single'' ''default'' None)
     \<lparr>ev_status := Exceeded, ev_attempts := 9, ev_lastAttemptTimestamp := Some 5\<rparr>"

definition demo_admin_world :: "redis_store admin_world" where
  "demo_admin_world = \<lparr>aw_events = (\<lambda>t. if t = Some ''t1'' then [demo_admin_row] else []), aw_locks = demo_locks,
     aw_published = [], aw_broadcasts = []\<rparr>"

definition demo_admin :: "redis_store admin_env" where
  "demo_admin = \<lparr>ae_cf = demo_publish_cfg\<lparr>cf_isMultiTenancy := True\<rparr>, ae_enabled = True, ae_redis = demo_redis, ae_scanned = [],
     ae_publish = demo_pe, ae_le = (\<lambda>a b. True), ae_allIds = Some [''t1'', ''t2'', ''t3''], ae_text = (\<lambda>e. [])\<rparr>"

definition demo_admin_req :: "string \<Rightarrow> admin_target \<Rightarrow> jsval jsobj \<Rightarrow> admin_req" where
  "demo_admin_req ev tg d = \<lparr>ar_event = ev, ar_target = tg, ar_headers = [(''z-id'', JStr ''t1'')], ar_httpHeaders = [], ar_data = d,
     ar_ID = ''e1'', ar_tenant = None, ar_where = (\<lambda>r. True)\<rparr>"

abbreviation demo_restart :: admin_req where
  "demo_restart \<equiv> demo_admin_req ''setStatusAndAttempts'' EventEntity [(''attempts'', JNum 0), (''status'', JNum Open)]"

theorem admin_guard_witness:
  "admin_handle (demo_admin\<lparr>ae_enabled := False\<rparr>) 1 demo_restart demo_admin_world
    = Some (demo_admin_world, Inl (Reject 403 ''Admin service is disabled by configuration''))"
  using admin_guard [of "demo_admin\<lparr>ae_enabled := False\<rparr>" 1 demo_restart demo_admin_world] by simp

definition demo_admin_run :: processor where
  "demo_admin_run = demo_proc\<lparr>p_type := ''Mail'', p_subType := ''single'', p_tenant := Some ''t1'',
     p_cfg := (p_cfg demo_proc)\<lparr>ec_namespace := ''default'', ec_startTime := 100\<rparr>\<rparr>"

theorem restart_selects_entry_again_witness:
  "map (\<lambda>r. (ev_status r, ev_attempts r)) (aw_events (fst (the (admin_handle demo_admin 1 demo_restart demo_admin_world))) (Some ''t1''))
    = [(Open, 0)]"
proof -
  let ?out = "the (admin_handle demo_admin 1 demo_restart demo_admin_world)"
  have h: "ae_enabled demo_admin" "ar_event demo_restart = ''setStatusAndAttempts''" "ar_target demo_restart = EventEntity"
    "js_prop (obj_assign (ar_headers demo_restart) (ar_httpHeaders demo_restart)) ''z-id'' = JStr ''t1''"
    "js_prop (ar_data demo_restart) ''attempts'' = JNum 0" "js_prop (ar_data demo_restart) ''status'' = JNum Open"
    by code_simp+
  have row: "row_of (aw_events demo_admin_world (Some ''t1'')) (ar_ID demo_restart) = Some demo_admin_row"
    by (simp add: row_of_def demo_admin_world_def demo_admin_req_def demo_admin_row_def new_row_def)
  have out: "admin_handle demo_admin 1 demo_restart demo_admin_world = Some (fst ?out, snd ?out)"
    by (simp add: admin_handle_def admin_before_def demo_admin_def demo_admin_req_def Let_def coalesce_def obj_assign_def admin_on_def)
  have run: "(p_type demo_admin_run, p_subType demo_admin_run, ec_namespace (p_cfg demo_admin_run)) = combo_of demo_admin_row"
    "ev_ID demo_admin_row \<notin> set (ec_selectedDelayedEventIds (p_cfg demo_admin_run))"
    "case ev_startAfter demo_admin_row of None \<Rightarrow> True | Some s \<Rightarrow> s \<le> refDateStartAfter demo_gc 200"
    "case ev_lastAttemptTimestamp demo_admin_row of None \<Rightarrow> True | Some s \<Rightarrow> s \<le> ec_startTime (p_cfg demo_admin_run)"
    by code_simp+
  have "aw_events demo_admin_world (Some ''t1'') = [demo_admin_row]" "ev_ID demo_admin_row = ar_ID demo_restart"
    by (simp_all add: demo_admin_world_def demo_admin_row_def new_row_def demo_admin_req_def)
  with restart_selects_entry_again [OF h row out run] show ?thesis by (simp add: update_where_def)
qed

abbreviation demo_release :: admin_req where
  "demo_release \<equiv> demo_admin_req ''releaseLock'' LockEntity
     [(''namespace'', JStr ''default''), (''type'', JStr ''Mail''), (''subType'', JStr ''single'')]"

definition demo_admin_locked :: "redis_store admin_world" where
  "demo_admin_locked = demo_admin_world\<lparr>aw_locks :=
     snd (fst (acquireDistributedLock demo_redis (ae_cf demo_admin) 5 (demo_admin_run, demo_locks)))\<rparr>"

theorem admin_release_frees_combination_witness:
  "\<not> snd (acquireDistributedLock demo_redis (ae_cf demo_admin) 6 (demo_admin_run, aw_locks demo_admin_locked))
   \<and> snd (acquireDistributedLock demo_redis (ae_cf demo_admin) 6 (demo_admin_run,
       aw_locks (fst (the (admin_handle demo_admin 6 demo_release demo_admin_locked)))))"
proof -
  let ?out = "the (admin_handle demo_admin 6 demo_release demo_admin_locked)"
  have h: "ae_enabled demo_admin" "ar_event demo_release = ''releaseLock''" "ar_target demo_release = LockEntity"
    "header_tenant demo_release = p_tenant demo_admin_run"
    "map (\<lambda>k. key_part (js_prop (ar_data demo_release) k)) [''namespace'', ''type'', ''subType'']
      = [ec_namespace (p_cfg demo_admin_run), p_type demo_admin_run, p_subType demo_admin_run]" by code_simp+
  have out: "admin_handle demo_admin 6 demo_release demo_admin_locked = Some (fst ?out, snd ?out)"
    by (simp add: admin_handle_def admin_before_def demo_admin_def demo_admin_req_def admin_on_def)
  have laws: "cf_redisEnabled (ae_cf demo_admin) \<longrightarrow> redis_laws (ae_redis demo_admin)"
    by (simp add: demo_admin_def demo_redis_laws)
  have "\<not> snd (acquireDistributedLock demo_redis (ae_cf demo_admin) 6 (demo_admin_run, aw_locks demo_admin_locked))" by code_simp
  moreover have "ae_redis demo_admin = demo_redis" by (simp add: demo_admin_def)
  ultimately show ?thesis using admin_release_frees_combination [OF laws h out, of 6] by simp
qed

abbreviation demo_admin_publish :: admin_req where
  "demo_admin_publish \<equiv> demo_admin_req ''publishEvent'' NoEntity
     [(''type'', JStr ''Mail''), (''subType'', JStr ''single''), (''tenants'', JArr (map JStr [''t3'', ''t1'', ''t9'']))]"

theorem admin_publishes_to_named_tenants_witness:
  "\<exists>ps. aw_published (fst (the (admin_handle demo_admin 6 demo_admin_publish demo_admin_world))) = ps
    \<and> image_mset fst (mset ps) = {#Some ''t1'', Some ''t3''#}"
proof -
  let ?out = "the (admin_handle demo_admin 6 demo_admin_publish demo_admin_world)"
  let ?pub = "publishEvent (ae_publish demo_admin) default_options [eventOptions (ar_data demo_admin_publish)] new_publish_tx"
  have h: "ae_enabled demo_admin" "ar_event demo_admin_publish = ''publishEvent''"
    "js_prop (ar_data demo_admin_publish) ''tenants'' = JArr (map JStr [''t3'', ''t1'', ''t9''])"
    "set [''t3'', ''t1'', ''t9''] \<inter> {''self'', ''all'', ''*''} = {}" "ae_allIds demo_admin = Some [''t1'', ''t2'', ''t3'']"
    "distinct [''t1'', ''t2'', ''t3'']" by code_simp+
  have out: "admin_handle demo_admin 6 demo_admin_publish demo_admin_world = Some (fst ?out, snd ?out)"
    by (simp add: admin_handle_def admin_before_def demo_admin_def demo_admin_req_def admin_on_def)
  have ok: "?pub = Inr (projr ?pub)" by code_simp
  have ids: "set [''t1'', ''t2'', ''t3''] \<inter> set [''t3'', ''t1'', ''t9''] = {''t1'', ''t3''}" by auto
  have "aw_published demo_admin_world = []" by (simp add: demo_admin_world_def)
  with admin_publishes_to_named_tenants [OF h out] ok obtain ps where
    "aw_published (fst ?out) = ps" "mset ps = image_mset (\<lambda>t. (Some t, sent_events (commit_tx (projr ?pub)))) (mset_set {''t1'', ''t3''})"
    unfolding ids by (cases ?pub) auto
  then show ?thesis by (intro exI [of _ ps]) (simp add: multiset.map_comp o_def)
qed

end
