(* ===== verification/Initialize.thy ===== *)
theory Initialize
  imports Runner OutboxPublish
begin

text \<open>
  \<open>src/initialize.js\<close>, with \<open>src/shared/redis/index.js\<close> for unsubscribed tenants and \<open>src/shared/env.js\<close>.

  The variables of the configuration are kept by the names the setters write, \<open>vars_config\<close> is the
  configuration record of the other components made of them.  What happens outside the module is an
  effect: handlers registered on \<open>cds\<close>, properties patched, a runner started.  Reading the file, the
  parsers and the connection check are parameters.

  Proved: which value a variable gets; a second call does nothing, also after a failed first one; the
  started runner fits Redis and multi tenancy; the cleanup for development leaves no lock and no entry
  in progress; an unsubscribed tenant is known to every instance.
\<close>

subsection \<open>Variables\<close>

definition CONFIG_VARS :: "(string \<times> jsval \<times> string option) list" where
  "CONFIG_VARS =
     [(''configFilePath'', JNull, None), (''events'', JNull, Some ''configEvents''),
      (''periodicEvents'', JNull, Some ''configPeriodicEvents''), (''registerAsEventProcessor'', JBool True, None),
      (''processEventsAfterPublish'', JBool True, None), (''isEventQueueActive'', JBool True, None),
      (''runInterval'', JNum (25 * 60 * 1000), None), (''disableRedis'', JBool True, None),
      (''updatePeriodicEvents'', JBool True, None), (''thresholdLoggingEventProcessing'', JNum 50, None),
      (''useAsCAPOutbox'', JBool False, None), (''useAsCAPQueue'', JBool False, None), (''userId'', JNull, None),
      (''cleanupLocksAndEventsForDev'', JBool False, None), (''redisOptions'', JObj [], None),
      (''insertEventsBeforeCommit'', JBool True, None), (''enableTelemetry'', JBool True, None),
      (''cronTimezone'', JNull, None), (''randomOffsetPeriodicEvents'', JNull, None),
      (''publishEventBlockList'', JBool True, None), (''crashOnRedisUnavailable'', JBool False, None),
      (''enableAdminService'', JBool False, None), (''disableProcessingOfSuspendedTenants'', JBool True, None),
      (''namespace'', JStr ''default'', None), (''processingNamespaces'', JArr [JStr ''default''], None),
      (''collectEventQueueMetrics'', JBool False, None)]"

definition outbox_names :: "string set" where
  "outbox_names = {''useAsCAPOutbox'', ''useAsCAPQueue''}"

text \<open>The setters of \<open>config.js\<close>: the run interval is checked, the outbox flag cannot be taken back and is
  shared by both names.  (The copy of the events through JSON is the same value.)\<close>

definition set_var :: "string \<Rightarrow> jsval \<Rightarrow> jsval jsobj \<Rightarrow> config_error + jsval jsobj" where
  "set_var nm v vars =
     (if nm = ''runInterval''
      then (case v of
              JNum n \<Rightarrow> if n \<le> 10 * 1000 then Inl (Thrown (invalidInterval JUndef JUndef JUndef)) else Inr (obj_set nm v vars)
            | _ \<Rightarrow> Inl (Thrown (invalidInterval JUndef JUndef JUndef)))
      else if nm \<in> outbox_names
      then Inr (if truthy (js_prop vars ''useAsCAPOutbox'') then vars else obj_set ''useAsCAPOutbox'' v vars)
      else Inr (obj_set nm v vars))"

definition chosen :: "jsval jsobj \<Rightarrow> jsval jsobj \<Rightarrow> string \<Rightarrow> jsval \<Rightarrow> jsval" where
  "chosen options env nm d = coalesce (js_prop options nm) (coalesce (js_prop env nm) d)"

fun mix_vars :: "jsval jsobj \<Rightarrow> jsval jsobj \<Rightarrow> (string \<times> jsval \<times> string option) list \<Rightarrow> jsval jsobj \<Rightarrow> jsval jsobj \<times> config_error option" where
  "mix_vars options env [] vars = (vars, None)"
| "mix_vars options env ((nm, d, mapping) # vs) vars =
     (case set_var (case mapping of None \<Rightarrow> nm | Some m \<Rightarrow> m) (chosen options env nm d) vars of
        Inl err \<Rightarrow> (vars, Some err)
      | Inr vars' \<Rightarrow> mix_vars options env vs vars')"

definition mixConfigVarsWithEnv :: "jsval jsobj \<Rightarrow> jsval jsobj \<Rightarrow> jsval jsobj \<Rightarrow> jsval jsobj \<times> config_error option" where
  "mixConfigVarsWithEnv options env vars = mix_vars options env CONFIG_VARS vars"

definition vars_config :: "jsval jsobj \<Rightarrow> config \<Rightarrow> config" where
  "vars_config vars cf =
     cf\<lparr>cf_namespace := key_part (js_prop vars ''namespace''),
        cf_processingNamespaces := map key_part (as_list (js_prop vars ''processingNamespaces'')),
        cf_disableRedis := truthy (js_prop vars ''disableRedis''),
        cf_runInterval := (case js_prop vars ''runInterval'' of JNum n \<Rightarrow> Some n | _ \<Rightarrow> None),
        cf_cronTimezone := js_prop vars ''cronTimezone'',
        cf_configEvents := as_obj (js_prop vars ''configEvents''),
        cf_configPeriodicEvents := as_obj (js_prop vars ''configPeriodicEvents'')\<rparr>"

definition hasConfigEvents :: "jsval jsobj \<Rightarrow> bool" where
  "hasConfigEvents vars \<longleftrightarrow> as_obj (js_prop vars ''configEvents'') \<noteq> [] \<or> as_obj (js_prop vars ''configPeriodicEvents'') \<noteq> []"

subsection \<open>The configuration file\<close>

datatype file_error = CannotRead | CannotParse | UnsupportedExtension

record init_env =
  ie_eventQueue :: "jsval jsobj" \<comment> \<open>\<open>cds.env.eventQueue\<close>\<close>
  ie_ce :: config_env
  ie_read :: "jsval \<Rightarrow> string option"
  ie_yaml :: "string \<Rightarrow> jsval option"
  ie_json :: "string \<Rightarrow> jsval option"
  ie_redisUp :: bool
  ie_development :: bool

definition parse_file :: "init_env \<Rightarrow> jsval \<Rightarrow> file_error + jsval" where
  "parse_file ie path =
     (case ie_read ie path of
        None \<Rightarrow> Inl CannotRead
      | Some text \<Rightarrow>
          let p = lower (key_part path);
              parsed = (\<lambda>r. case r of None \<Rightarrow> Inl CannotParse | Some v \<Rightarrow> Inr v) in
          if ends_with ''.yaml'' p \<or> ends_with ''.yml'' p then parsed (ie_yaml ie text)
          else if ends_with ''.json'' p then parsed (ie_json ie text)
          else Inl UnsupportedExtension)"

definition readConfigFromFile :: "init_env \<Rightarrow> jsval jsobj \<Rightarrow> file_error + jsval" where
  "readConfigFromFile ie vars =
     (let path = js_prop vars ''configFilePath'' in
      case parse_file ie path of
        Inr v \<Rightarrow> Inr v
      | Inl err \<Rightarrow>
          if \<not> truthy path \<and> (truthy (js_prop vars ''useAsCAPOutbox'') \<or> hasConfigEvents vars) then Inr (JObj []) else Inl err)"

text \<open>\<open>fileContent.events ??= []\<close>\<close>

definition file_events :: "string \<Rightarrow> jsval \<Rightarrow> event_obj list" where
  "file_events k content = map as_obj (as_list (coalesce (opt_get content k) (JArr [])))"

subsection \<open>Initialization\<close>

datatype init_effect = HideAdminService | OnConnect | PatchOutbox | ShutdownHandler | Metrics | Ready

datatype init_error = VarError config_error | RedisError EventQueueError | FileError file_error | ContentError config_error

record init_state =
  is_initialized :: bool
  is_vars :: "jsval jsobj"
  is_cf :: config
  is_effects :: "init_effect list"

definition add_effects :: "init_effect list \<Rightarrow> init_state \<Rightarrow> init_state" where
  "add_effects es st = st\<lparr>is_effects := is_effects st @ es\<rparr>"

text \<open>From the file on.\<close>

definition load_content :: "init_env \<Rightarrow> init_state \<Rightarrow> init_state \<times> init_error option" where
  "load_content ie st =
     (case readConfigFromFile ie (is_vars st) of
        Inl err \<Rightarrow> (st, Some (FileError err))
      | Inr content \<Rightarrow>
          (case mixFileContentWithEnv (ie_ce ie) (file_events ''events'' content) (file_events ''periodicEvents'' content) (is_cf st) of
             Inl err \<Rightarrow> (st, Some (ContentError err))
           | Inr cf \<Rightarrow>
               (add_effects ((if truthy (js_prop (is_vars st) ''useAsCAPOutbox'') then [PatchOutbox] else []) @ [ShutdownHandler, Metrics, Ready])
                  (st\<lparr>is_cf := cf\<rparr>), None)))"

definition initialize :: "init_env \<Rightarrow> jsval jsobj \<Rightarrow> init_state \<Rightarrow> init_state \<times> init_error option" where
  "initialize ie options st =
     (if is_initialized st then (st, None)
      else let st0 = st\<lparr>is_initialized := True\<rparr> in
        (case mixConfigVarsWithEnv options (ie_eventQueue ie) (is_vars st0) of
           (vars, Some err) \<Rightarrow> (st0\<lparr>is_vars := vars\<rparr>, Some (VarError err))
         | (vars, None) \<Rightarrow>
             let cf = checkRedisEnabled (vars_config vars (is_cf st0));
                 st1 = add_effects ((if truthy (js_prop vars ''enableAdminService'') then [] else [HideAdminService]) @ [OnConnect])
                         (st0\<lparr>is_vars := vars\<rparr>)
             in if cf_redisEnabled cf
                then let st2 = st1\<lparr>is_cf := cf\<lparr>cf_redisEnabled := ie_redisUp ie\<rparr>\<rparr> in
                     if \<not> ie_redisUp ie \<and> truthy (js_prop vars ''crashOnRedisUnavailable'')
                     then (st2, Some (RedisError (redisConnectionFailure JUndef))) else load_content ie st2
                else load_content ie (st1\<lparr>is_cf := cf\<rparr>)))"

subsection \<open>Start of the processing\<close>

datatype runner_kind = MultiTenancyRedis | SingleTenantRedis | MultiTenancyDb | SingleTenantDb

datatype start_effect =
  RegisterDbHandler | CleanupForDev | RegisterUnsubscribe | AttachRedisUnsubscribe | RedisSubscribe | StartRunner runner_kind

definition registerEventProcessors :: "jsval jsobj \<Rightarrow> config \<Rightarrow> start_effect list" where
  "registerEventProcessors vars cf =
     [RegisterUnsubscribe] @ (if cf_redisEnabled cf then [AttachRedisUnsubscribe] else [])
     @ (if \<not> truthy (js_prop vars ''registerAsEventProcessor'') then []
        else if cf_redisEnabled cf
        then [RedisSubscribe, StartRunner (if cf_isMultiTenancy cf then MultiTenancyRedis else SingleTenantRedis)]
        else [StartRunner (if cf_isMultiTenancy cf then MultiTenancyDb else SingleTenantDb)])"

text \<open>The handler of \<open>connect\<close>; the processors are registered once the initialization has finished.\<close>

definition on_connect :: "string \<Rightarrow> init_state \<Rightarrow> start_effect list" where
  "on_connect service st =
     (if OnConnect \<notin> set (is_effects st) \<or> service \<noteq> ''db'' then []
      else (if truthy (js_prop (is_vars st) ''processEventsAfterPublish'') then [RegisterDbHandler] else [])
         @ (if truthy (js_prop (is_vars st) ''cleanupLocksAndEventsForDev'') then [CleanupForDev] else [])
         @ (if Ready \<in> set (is_effects st) then registerEventProcessors (is_vars st) (is_cf st) else []))"

text \<open>\<open>_scheduleFunction\<close> of the runner: without events nothing is scheduled; otherwise the first tick happens
  after the offset, and from then on the interval runner ticks on its grid.\<close>

definition scheduleFunction :: "config \<Rightarrow> time \<Rightarrow> int \<Rightarrow> time option" where
  "scheduleFunction cf now offset = (if cf_eventMap cf = [] then None else Some (now + offset))"

text \<open>\<open>registerEventQueueDbHandler\<close>: the flags of the module and the handlers registered.\<close>

datatype db_handler = AfterCreate | AfterUpdate

record registered_handlers =
  rg_eventQueueDbHandler :: bool
  rg_updateDbHandler :: bool

definition registerEventQueueDbHandler :: "jsval jsobj \<Rightarrow> config \<Rightarrow> registered_handlers \<Rightarrow> registered_handlers \<times> db_handler list" where
  "registerEventQueueDbHandler vars cf rg =
     (if rg_eventQueueDbHandler rg then (rg, [])
      else if rg_updateDbHandler rg \<or> \<not> truthy (js_prop vars ''collectEventQueueMetrics'') \<or> \<not> cf_redisEnabled cf
      then (rg\<lparr>rg_eventQueueDbHandler := True\<rparr>, [AfterCreate])
      else (\<lparr>rg_eventQueueDbHandler = True, rg_updateDbHandler = True\<rparr>, [AfterCreate, AfterUpdate]))"

text \<open>\<open>cds-plugin.js\<close>: whether the plugin initializes the event queue, and which error it passes on.\<close>

definition plugin_initializes :: "bool \<Rightarrow> bool \<Rightarrow> bool \<Rightarrow> init_env \<Rightarrow> bool" where
  "plugin_initializes legacy isBuild isServe ie \<longleftrightarrow> \<not> (legacy \<and> isBuild \<or> \<not> legacy \<and> \<not> isServe) \<and> ie_eventQueue ie \<noteq> []"

definition plugin_error :: "init_state \<times> init_error option \<Rightarrow> init_error option" where
  "plugin_error res =
     (case res of
        (st, Some (RedisError err)) \<Rightarrow>
          if isRedisConnectionFailure (Some err) \<and> truthy (js_prop (is_vars st) ''crashOnRedisUnavailable'') then Some (RedisError err) else None
      | _ \<Rightarrow> None)"

text \<open>\<open>registerCleanupForDevDb\<close>, for the tables of every tenant; without multi tenancy there is one.\<close>

definition cleanup_row :: "event_row \<Rightarrow> event_row" where
  "cleanup_row r = (if ev_status r = InProgress then r\<lparr>ev_status := Error\<rparr> else r)"

definition registerCleanupForDevDb ::
  "bool \<Rightarrow> config \<Rightarrow> string list \<Rightarrow> (tenant \<Rightarrow> event_table \<times> lock_row list) \<Rightarrow> (tenant \<Rightarrow> event_table \<times> lock_row list)" where
  "registerCleanupForDevDb development cf tenantIds db =
     (if \<not> development then db
      else foldl (\<lambda>db t. db(t := (map cleanup_row (fst (db t)), []))) db (if cf_isMultiTenancy cf then map Some tenantIds else [None]))"

subsection \<open>Unsubscribed tenants\<close>

definition REDIS_OFFBOARD_TENANT_CHANNEL :: string where
  "REDIS_OFFBOARD_TENANT_CHANNEL = ''REDIS_OFFBOARD_TENANT_CHANNEL''"

definition unsubscribe_message :: "string \<Rightarrow> string" where
  "unsubscribe_message tenantId = json (JObj [(''tenantId'', JStr tenantId)])"

text \<open>The message published with Redis, or the change of the own configuration.\<close>

definition handleUnsubscribe :: "string \<Rightarrow> config \<Rightarrow> config \<times> string option" where
  "handleUnsubscribe tenantId cf =
     (if cf_redisEnabled cf then (cf, Some (unsubscribe_message tenantId)) else (executeUnsubscribeHandlers tenantId cf, None))"

text \<open>The subscribed handler; a message that cannot be parsed is only logged.\<close>

definition receiveUnsubscribe :: "(string \<Rightarrow> jsval option) \<Rightarrow> string \<Rightarrow> config \<Rightarrow> config" where
  "receiveUnsubscribe parse msg cf =
     (case parse msg of
        Some v \<Rightarrow> (case js_get v ''tenantId'' of Some t \<Rightarrow> executeUnsubscribeHandlers (js_string (\<lambda>d. []) t) cf | None \<Rightarrow> cf)
      | None \<Rightarrow> cf)"

subsection \<open>Environment\<close>

record env =
  en_vcapApplication :: jsval
  en_instance :: "int option" \<comment> \<open>\<open>None\<close> is not a number\<close>

definition new_Env :: "(string \<Rightarrow> jsval option) \<Rightarrow> string option \<Rightarrow> string option \<Rightarrow> env" where
  "new_Env parse vcap index =
     \<lparr>en_vcapApplication = (case vcap of None \<Rightarrow> JObj [] | Some s \<Rightarrow> (case parse s of None \<Rightarrow> JObj [] | Some v \<Rightarrow> v)),
      en_instance = to_number (case index of None \<Rightarrow> JUndef | Some s \<Rightarrow> JStr s)\<rparr>"

definition applicationName :: "env \<Rightarrow> jsval" where
  "applicationName e = opt_get (en_vcapApplication e) ''application_name''"

definition redisRequires :: "jsval jsobj \<Rightarrow> jsval" where
  "redisRequires req = (let r = js_prop req ''redis-eventQueue'' in if truthy r then r else js_prop req ''redis'')"

definition checkRedisIsBound :: "jsval jsobj \<Rightarrow> bool" where
  "checkRedisIsBound req = truthy (opt_get (redisRequires req) ''credentials'')"

subsection \<open>Lemmas\<close>

definition target_name :: "string \<times> jsval \<times> string option \<Rightarrow> string" where
  "target_name v = (case v of (nm, d, mapping) \<Rightarrow> case mapping of None \<Rightarrow> nm | Some m \<Rightarrow> m)"

lemma set_var_Inr:
  assumes "set_var nm v vars = Inr vars'"
  shows "vars' = (if nm \<in> outbox_names then (if truthy (js_prop vars ''useAsCAPOutbox'') then vars else obj_set ''useAsCAPOutbox'' v vars)
    else obj_set nm v vars)"
proof (cases "nm = ''runInterval''")
  case True
  then have "vars' = obj_set nm v vars" using assms by (simp add: set_var_def split: jsval.splits if_splits)
  then show ?thesis using True by (simp add: outbox_names_def)
next
  case False
  then show ?thesis using assms by (simp add: set_var_def split: if_splits)
qed

lemma set_var_other: "set_var nm v vars = Inr vars' \<Longrightarrow> k \<noteq> nm \<Longrightarrow> k \<notin> outbox_names \<Longrightarrow> js_prop vars' k = js_prop vars k"
  using set_var_Inr [of nm v vars vars'] by (auto simp: outbox_names_def)

lemma set_var_same: "set_var nm v vars = Inr vars' \<Longrightarrow> nm \<notin> outbox_names \<Longrightarrow> js_prop vars' nm = v"
  using set_var_Inr [of nm v vars vars'] by simp

lemma set_var_outbox:
  assumes "set_var nm v vars = Inr vars'"
  shows "truthy (js_prop vars' ''useAsCAPOutbox'') \<longleftrightarrow> truthy (js_prop vars ''useAsCAPOutbox'') \<or> nm \<in> outbox_names \<and> truthy v"
proof (cases "nm \<in> outbox_names")
  case True
  then show ?thesis unfolding set_var_Inr [OF assms] by simp
next
  case False
  then have "nm \<noteq> ''useAsCAPOutbox''" by (auto simp: outbox_names_def)
  with False show ?thesis unfolding set_var_Inr [OF assms] by simp
qed

lemma mix_vars_keep:
  assumes "mix_vars options env vs vars = (vars', None)" "k \<notin> target_name ` set vs" "k \<notin> outbox_names"
  shows "js_prop vars' k = js_prop vars k"
  using assms
proof (induction vs arbitrary: vars)
  case (Cons v vs)
  obtain nm d mp where v: "v = (nm, d, mp)" by (metis surj_pair)
  obtain vars1 where 1: "set_var (target_name v) (chosen options env nm d) vars = Inr vars1" "mix_vars options env vs vars1 = (vars', None)"
    using Cons.prems(1) by (auto simp: v target_name_def split: sum.splits)
  then show ?case using Cons.IH [OF 1(2)] Cons.prems(2,3) set_var_other [OF 1(1), of k] by simp
qed simp

lemma mix_vars_get:
  assumes "mix_vars options env vs vars = (vars', None)" "distinct (map target_name vs)" "(nm, d, mp) \<in> set vs"
    and "target_name (nm, d, mp) \<notin> outbox_names"
  shows "js_prop vars' (target_name (nm, d, mp)) = chosen options env nm d"
  using assms
proof (induction vs arbitrary: vars)
  case (Cons v vs)
  obtain nm1 d1 mp1 where v: "v = (nm1, d1, mp1)" by (metis surj_pair)
  obtain vars1 where 1: "set_var (target_name v) (chosen options env nm1 d1) vars = Inr vars1" "mix_vars options env vs vars1 = (vars', None)"
    using Cons.prems(1) by (auto simp: v target_name_def split: sum.splits)
  show ?case
  proof (cases "(nm, d, mp) = v")
    case True
    then have "target_name (nm, d, mp) \<notin> target_name ` set vs" using Cons.prems(2) by auto
    from mix_vars_keep [OF 1(2) this Cons.prems(4)] show ?thesis
      using set_var_same [OF 1(1)] Cons.prems(4) True v by auto
  next
    case False
    then show ?thesis using Cons.IH [OF 1(2)] Cons.prems by auto
  qed
qed simp

lemma mix_vars_outbox:
  assumes "mix_vars options env vs vars = (vars', None)"
  shows "truthy (js_prop vars' ''useAsCAPOutbox'') \<longleftrightarrow> truthy (js_prop vars ''useAsCAPOutbox'')
    \<or> (\<exists>(nm, d, mp) \<in> set vs. target_name (nm, d, mp) \<in> outbox_names \<and> truthy (chosen options env nm d))"
  using assms
proof (induction vs arbitrary: vars)
  case (Cons v vs)
  obtain nm d mp where v: "v = (nm, d, mp)" by (metis surj_pair)
  obtain vars1 where 1: "set_var (target_name v) (chosen options env nm d) vars = Inr vars1" "mix_vars options env vs vars1 = (vars', None)"
    using Cons.prems(1) by (auto simp: v target_name_def split: sum.splits)
  show ?case using Cons.IH [OF 1(2)] set_var_outbox [OF 1(1)] by (auto simp: v)
qed simp

lemma distinct_targets: "distinct (map target_name CONFIG_VARS)"
  by code_simp

lemma load_content_initialized: "load_content ie st = (st', err) \<Longrightarrow> is_initialized st' = is_initialized st"
  by (auto simp: load_content_def add_effects_def split: sum.splits)

lemma initialize_initialized: "initialize ie options st = (st', err) \<Longrightarrow> is_initialized st'"
  by (auto simp: initialize_def add_effects_def Let_def split: if_splits prod.splits option.splits dest!: load_content_initialized)

lemma mixFile_fields:
  assumes "mixFileContentWithEnv ce evs pevs cf = Inr cf'"
  shows "cf_redisEnabled cf' = cf_redisEnabled cf" "cf_isMultiTenancy cf' = cf_isMultiTenancy cf"
  using assms by (auto simp: mixFileContentWithEnv_def set_fileContent_def split: sum.splits)

lemma load_content_ok:
  assumes "load_content ie st = (st', None)"
  shows "is_vars st' = is_vars st" "cf_redisEnabled (is_cf st') = cf_redisEnabled (is_cf st)"
    "cf_isMultiTenancy (is_cf st') = cf_isMultiTenancy (is_cf st)" "set (is_effects st) \<union> {Ready} \<subseteq> set (is_effects st')"
  using assms by (auto simp: load_content_def add_effects_def mixFile_fields split: sum.splits)

text \<open>What a successful initialization leaves.\<close>

lemma initialize_ok:
  assumes "initialize ie options st = (st', None)" "\<not> is_initialized st"
  shows "mixConfigVarsWithEnv options (ie_eventQueue ie) (is_vars st) = (is_vars st', None)"
    and "cf_redisEnabled (is_cf st') \<longleftrightarrow> \<not> truthy (js_prop (is_vars st') ''disableRedis'') \<and> cf_redisBound (is_cf st) \<and> ie_redisUp ie"
    and "cf_isMultiTenancy (is_cf st') = cf_isMultiTenancy (is_cf st)" and "{OnConnect, Ready} \<subseteq> set (is_effects st')"
proof -
  obtain vars where vars: "mixConfigVarsWithEnv options (ie_eventQueue ie) (is_vars st) = (vars, None)"
    using assms by (auto simp: initialize_def Let_def split: prod.splits option.splits)
  define cf where "cf = checkRedisEnabled (vars_config vars (is_cf st))"
  define st1 where "st1 = add_effects ((if truthy (js_prop vars ''enableAdminService'') then [] else [HideAdminService]) @ [OnConnect])
    (st\<lparr>is_initialized := True, is_vars := vars\<rparr>)"
  have cf: "cf_redisEnabled cf \<longleftrightarrow> \<not> truthy (js_prop vars ''disableRedis'') \<and> cf_redisBound (is_cf st)"
    "cf_isMultiTenancy cf = cf_isMultiTenancy (is_cf st)"
    by (simp_all add: cf_def checkRedisEnabled_def vars_config_def)
  obtain st2 where st2: "load_content ie st2 = (st', None)" "is_vars st2 = vars" "OnConnect \<in> set (is_effects st2)"
    "cf_redisEnabled (is_cf st2) \<longleftrightarrow> cf_redisEnabled cf \<and> ie_redisUp ie" "cf_isMultiTenancy (is_cf st2) = cf_isMultiTenancy cf"
  proof (cases "cf_redisEnabled cf")
    case True
    then have "load_content ie (st1\<lparr>is_cf := cf\<lparr>cf_redisEnabled := ie_redisUp ie\<rparr>\<rparr>) = (st', None)"
      using assms vars by (simp add: initialize_def Let_def flip: cf_def st1_def split: if_splits)
    then show ?thesis by (rule that) (simp_all add: st1_def add_effects_def True)
  next
    case False
    then have "load_content ie (st1\<lparr>is_cf := cf\<rparr>) = (st', None)"
      using assms vars by (simp add: initialize_def Let_def flip: cf_def st1_def)
    then show ?thesis by (rule that) (simp_all add: st1_def add_effects_def False)
  qed
  note ok = load_content_ok [OF st2(1)]
  show "mixConfigVarsWithEnv options (ie_eventQueue ie) (is_vars st) = (is_vars st', None)" using vars st2(2) ok(1) by simp
  show "cf_redisEnabled (is_cf st') \<longleftrightarrow> \<not> truthy (js_prop (is_vars st') ''disableRedis'') \<and> cf_redisBound (is_cf st) \<and> ie_redisUp ie"
    using cf(1) st2(2,4) ok(1,2) by simp
  show "cf_isMultiTenancy (is_cf st') = cf_isMultiTenancy (is_cf st)" using cf(2) st2(5) ok(3) by simp
  show "{OnConnect, Ready} \<subseteq> set (is_effects st')" using st2(3) ok(4) by blast
qed

fun started :: "start_effect \<Rightarrow> runner_kind list" where
  "started (StartRunner k) = [k]"
| "started _ = []"

lemma cleanup_tenants:
  "foldl (\<lambda>db t. db(t := (map cleanup_row (fst (db t)), []))) db ts t
     = (if t \<in> set ts then (map cleanup_row (fst (db t)), []) else db t)"
proof (induction ts arbitrary: db)
  case (Cons u ts)
  have "cleanup_row \<circ> cleanup_row = cleanup_row" by (auto simp: fun_eq_iff cleanup_row_def)
  then show ?case unfolding foldl_Cons Cons.IH by simp
qed simp

subsection \<open>Properties\<close>

text \<open>
  Where a variable of the configuration comes from: the option given to \<open>initialize\<close>, otherwise the
  environment of the project, otherwise the default; the event queue is used as outbox as soon as one
  of the two names says so.  Whether it is used as outbox is never taken back.
\<close>

theorem configuration_precedence:
  assumes "mixConfigVarsWithEnv options env vars = (vars', None)"
  shows "(\<forall>(nm, d, mp) \<in> set CONFIG_VARS. nm \<notin> outbox_names \<longrightarrow>
        js_prop vars' (case mp of None \<Rightarrow> nm | Some m \<Rightarrow> m) = coalesce (js_prop options nm) (coalesce (js_prop env nm) d))
    \<and> (truthy (js_prop vars' ''useAsCAPOutbox'') \<longleftrightarrow> truthy (js_prop vars ''useAsCAPOutbox'')
        \<or> (\<exists>nm \<in> outbox_names. truthy (coalesce (js_prop options nm) (coalesce (js_prop env nm) (JBool False)))))"
proof -
  note mix = assms [unfolded mixConfigVarsWithEnv_def]
  have "js_prop vars' (case mp of None \<Rightarrow> nm | Some m \<Rightarrow> m) = coalesce (js_prop options nm) (coalesce (js_prop env nm) d)"
    if v: "(nm, d, mp) \<in> set CONFIG_VARS" "nm \<notin> outbox_names" for nm d mp
  proof -
    have "\<forall>v \<in> set CONFIG_VARS. target_name v \<in> outbox_names \<longrightarrow> fst v \<in> outbox_names" by code_simp
    then have "target_name (nm, d, mp) \<notin> outbox_names" using v by fastforce
    from mix_vars_get [OF mix distinct_targets v(1) this] show ?thesis by (simp add: chosen_def target_name_def)
  qed
  moreover have "(\<exists>(nm, d, mp) \<in> set CONFIG_VARS. target_name (nm, d, mp) \<in> outbox_names \<and> truthy (chosen options env nm d))
      \<longleftrightarrow> (\<exists>nm \<in> outbox_names. truthy (coalesce (js_prop options nm) (coalesce (js_prop env nm) (JBool False))))"
    by (simp add: CONFIG_VARS_def target_name_def chosen_def outbox_names_def)
  ultimately show ?thesis using mix_vars_outbox [OF mix] by blast
qed

text \<open>
  Initialization happens once: after the first call every further call, with whatever options,
  changes nothing and reports success, even when the first call has failed and nothing processes
  events.
\<close>

theorem initialize_only_once:
  assumes "initialize ie options st = (st', err)"
  shows "initialize ie' options' st' = (st', None)"
  using initialize_initialized [OF assms] by (simp add: initialize_def)


text \<open>
  An initialized instance starts exactly the runner that fits, once the database is connected: none
  when it is not an event processor, otherwise the one for Redis or for the database, and for one or
  several tenants.  Redis is used when it is not disabled, bound and reachable, and only then the
  instance subscribes to the broadcasts.
\<close>

theorem initialized_instance_starts_its_runner:
  assumes "initialize ie options st = (st', None)" "\<not> is_initialized st"
    and "processor = truthy (coalesce (js_prop options ''registerAsEventProcessor'')
           (coalesce (js_prop (ie_eventQueue ie) ''registerAsEventProcessor'') (JBool True)))"
    and "disabled = truthy (coalesce (js_prop options ''disableRedis'') (coalesce (js_prop (ie_eventQueue ie) ''disableRedis'') (JBool True)))"
    and "withRedis \<longleftrightarrow> \<not> disabled \<and> cf_redisBound (is_cf st) \<and> ie_redisUp ie"
  shows "concat (map started (on_connect ''db'' st')) =
      (if \<not> processor then []
       else [if withRedis then if cf_isMultiTenancy (is_cf st) then MultiTenancyRedis else SingleTenantRedis
             else if cf_isMultiTenancy (is_cf st) then MultiTenancyDb else SingleTenantDb])
    \<and> (RedisSubscribe \<in> set (on_connect ''db'' st') \<longleftrightarrow> processor \<and> withRedis)"
proof -
  note ok = initialize_ok [OF assms(1,2)]
  note get = mix_vars_get [OF ok(1) [unfolded mixConfigVarsWithEnv_def] distinct_targets, unfolded chosen_def]
  have "js_prop (is_vars st') ''disableRedis'' = coalesce (js_prop options ''disableRedis'')
      (coalesce (js_prop (ie_eventQueue ie) ''disableRedis'') (JBool True))"
    using get [of "''disableRedis''" "JBool True" None] by (simp add: CONFIG_VARS_def target_name_def outbox_names_def)
  moreover have "js_prop (is_vars st') ''registerAsEventProcessor'' = coalesce (js_prop options ''registerAsEventProcessor'')
      (coalesce (js_prop (ie_eventQueue ie) ''registerAsEventProcessor'') (JBool True))"
    using get [of "''registerAsEventProcessor''" "JBool True" None] by (simp add: CONFIG_VARS_def target_name_def outbox_names_def)
  ultimately have vars: "truthy (js_prop (is_vars st') ''disableRedis'') = disabled"
    "truthy (js_prop (is_vars st') ''registerAsEventProcessor'') = processor" using assms(3,4) by simp_all
  have redis: "cf_redisEnabled (is_cf st') = withRedis" using ok(2) vars(1) assms(5) by simp
  show ?thesis using ok(3,4) by (simp add: on_connect_def registerEventProcessors_def redis vars(2))
qed

text \<open>
  The cleanup for development: in the tables of every tenant no lock is left and no entry is in
  progress; an entry that was in progress can be selected again by a run of its combination unless the
  event is periodic, and every other entry is unchanged.  Outside development nothing happens.
\<close>

theorem dev_cleanup_recovers_entries:
  assumes "db' = registerCleanupForDevDb development cf tenantIds db"
    and "t \<in> (if cf_isMultiTenancy cf then Some ` set tenantIds else {None})"
  shows "if development
    then snd (db' t) = [] \<and> length (fst (db' t)) = length (fst (db t))
      \<and> (\<forall>i < length (fst (db t)). let r = fst (db t) ! i; r' = fst (db' t) ! i in
           if ev_status r = InProgress
           then r' = r\<lparr>ev_status := Error\<rparr> \<and> (\<forall>cfg now. \<not> ec_isPeriodic cfg \<and> sql_le (ev_lastAttemptTimestamp r) (ec_startTime cfg)
                  \<longrightarrow> status_selectable cfg now r')
           else r' = r)
    else db' = db"
proof (cases development)
  case True
  have "t \<in> set (if cf_isMultiTenancy cf then map Some tenantIds else [None])" using assms(2) by (auto split: if_splits)
  then have "db' t = (map cleanup_row (fst (db t)), [])"
    using assms(1) by (simp add: registerCleanupForDevDb_def True cleanup_tenants)
  then show ?thesis using True by (simp add: Let_def cleanup_row_def status_selectable_def)
next
  case False
  then show ?thesis using assms(1) by (simp add: registerCleanupForDevDb_def)
qed

text \<open>
  When a tenant is unsubscribed, every instance learns of it: with Redis the instance publishes a
  message, and whoever receives it treats exactly this tenant, in addition to the earlier ones, as
  unsubscribed; without Redis the instance does so itself.
\<close>

theorem unsubscribed_tenant_is_known:
  assumes "parse (unsubscribe_message tenantId) = Some (JObj [(''tenantId'', JStr tenantId)])"
    and "handleUnsubscribe tenantId cf = (cf1, msg)"
    and "after = (case msg of None \<Rightarrow> cf1 | Some m \<Rightarrow> receiveUnsubscribe parse m cf2)"
    and "old = (case msg of None \<Rightarrow> cf | Some m \<Rightarrow> cf2)"
  shows "isTenantUnsubscribed t after \<longleftrightarrow> t = tenantId \<or> isTenantUnsubscribed t old"
  using assms
  by (cases "cf_redisEnabled cf")
    (auto simp: handleUnsubscribe_def receiveUnsubscribe_def isTenantUnsubscribed_def executeUnsubscribeHandlers_def split: if_splits)

subsection \<open>Witnesses\<close>

definition demo_init_env :: init_env where
  "demo_init_env = \<lparr>ie_eventQueue = [(''userId'', JStr ''tech''), (''disableRedis'', JBool False)], ie_ce = demo_ce, ie_read = (\<lambda>p. None),
     ie_yaml = (\<lambda>s. None), ie_json = (\<lambda>s. None), ie_redisUp = True, ie_development = True\<rparr>"

definition demo_init_state :: init_state where
  "demo_init_state = \<lparr>is_initialized = False, is_vars = [], is_cf = demo_config\<lparr>cf_redisBound := True, cf_isMultiTenancy := True, cf_requires := []\<rparr>,
     is_effects = []\<rparr>"

abbreviation demo_init_options :: "jsval jsobj" where
  "demo_init_options \<equiv> [(''userId'', JStr ''me''), (''useAsCAPQueue'', JBool True)]"

theorem configuration_precedence_witness:
  "js_prop (fst (mixConfigVarsWithEnv demo_init_options (ie_eventQueue demo_init_env) [])) ''userId'' = JStr ''me''
   \<and> js_prop (fst (mixConfigVarsWithEnv demo_init_options (ie_eventQueue demo_init_env) [])) ''disableRedis'' = JBool False
   \<and> truthy (js_prop (fst (mixConfigVarsWithEnv demo_init_options (ie_eventQueue demo_init_env) [])) ''useAsCAPOutbox'')"
proof -
  let ?vars = "fst (mixConfigVarsWithEnv demo_init_options (ie_eventQueue demo_init_env) [])"
  have "mixConfigVarsWithEnv demo_init_options (ie_eventQueue demo_init_env) [] = (?vars, None)" by code_simp
  note prec = configuration_precedence [OF this]
  have "(''userId'', JNull, None) \<in> set CONFIG_VARS" "(''disableRedis'', JBool True, None) \<in> set CONFIG_VARS"
    "''userId'' \<notin> outbox_names" "''disableRedis'' \<notin> outbox_names" "''useAsCAPQueue'' \<in> outbox_names" by code_simp+
  with prec [THEN conjunct1] prec [THEN conjunct2] show ?thesis by (fastforce simp: demo_init_env_def coalesce_def)
qed

theorem initialize_only_once_witness:
  "snd (initialize demo_init_env [(''runInterval'', JNum 5)] demo_init_state) \<noteq> None
   \<and> snd (initialize demo_init_env [] (fst (initialize demo_init_env [(''runInterval'', JNum 5)] demo_init_state))) = None"
proof -
  have "snd (initialize demo_init_env [(''runInterval'', JNum 5)] demo_init_state) \<noteq> None" by code_simp
  then show ?thesis using initialize_only_once [OF prod.collapse [symmetric], of demo_init_env "[]" demo_init_env "[(''runInterval'', JNum 5)]" demo_init_state]
    by simp
qed


definition demo_initialized :: init_state where
  "demo_initialized = fst (initialize demo_init_env demo_init_options demo_init_state)"

theorem initialized_instance_starts_its_runner_witness:
  "concat (map started (on_connect ''db'' demo_initialized)) = [MultiTenancyRedis]"
proof -
  have "initialize demo_init_env demo_init_options demo_init_state = (demo_initialized, None)" by code_simp
  moreover have "\<not> is_initialized demo_init_state" by (simp add: demo_init_state_def)
  ultimately show ?thesis
    using initialized_instance_starts_its_runner [OF _ _ refl refl refl]
    by (simp add: demo_init_env_def demo_init_state_def coalesce_def)
qed

theorem dev_cleanup_recovers_entries_witness:
  "map ev_status (fst (registerCleanupForDevDb True demo_config [] (\<lambda>t. ([(new_row ''e1'' 1 ''T'' ''S'' ''default'' None)\<lparr>ev_status := InProgress\<rparr>],
      [\<lparr>lk_code = ''k'', lk_value = ''true'', lk_createdAt = 5\<rparr>])) None)) = [Error]
   \<and> snd (registerCleanupForDevDb True demo_config [] (\<lambda>t. ([(new_row ''e1'' 1 ''T'' ''S'' ''default'' None)\<lparr>ev_status := InProgress\<rparr>],
      [\<lparr>lk_code = ''k'', lk_value = ''true'', lk_createdAt = 5\<rparr>])) None) = []"
proof -
  let ?db = "\<lambda>t::tenant. ([(new_row ''e1'' 1 ''T'' ''S'' ''default'' None)\<lparr>ev_status := InProgress\<rparr>],
      [\<lparr>lk_code = ''k'', lk_value = ''true'', lk_createdAt = 5\<rparr>])"
  have t: "None \<in> (if cf_isMultiTenancy demo_config then Some ` set [] else {None})" by (simp add: demo_config_def)
  note rec = dev_cleanup_recovers_entries [OF refl t, of True ?db]
  have "length (fst (registerCleanupForDevDb True demo_config [] ?db None)) = 1" using rec by simp
  then obtain r where r: "fst (registerCleanupForDevDb True demo_config [] ?db None) = [r]"
    by (cases "fst (registerCleanupForDevDb True demo_config [] ?db None)") auto
  with rec show ?thesis by (simp add: new_row_def)
qed

theorem unsubscribed_tenant_is_known_witness:
  "isTenantUnsubscribed ''t1'' (receiveUnsubscribe (\<lambda>s. Some (JObj [(''tenantId'', JStr ''t1'')]))
     (the (snd (handleUnsubscribe ''t1'' demo_redis_cfg))) demo_redis_cfg)"
proof -
  have "handleUnsubscribe ''t1'' demo_redis_cfg = (demo_redis_cfg, Some (unsubscribe_message ''t1''))"
    by (simp add: handleUnsubscribe_def demo_redis_cfg_def)
  from unsubscribed_tenant_is_known [OF _ this refl refl, of "\<lambda>s. Some (JObj [(''tenantId'', JStr ''t1'')])" "''t1''" demo_redis_cfg] this
  show ?thesis by simp
qed

end
