(* ===== verification/RedisClient.thy ===== *)
theory RedisClient
  imports Initialize
begin

text \<open>
  \<open>src/shared/redis/client.js\<close>, and the instances of an application connected by it: what each subscribes to
  when it starts (\<open>redisSub.js\<close>, \<open>redis/index.js\<close>), and who receives what another one publishes.

  The client library is a parameter, the record \<open>redis_client\<close> of its two channel operations on the state
  of the server; \<open>client_laws\<close> is the documented behaviour of channels: a message goes once to everybody who
  has subscribed to exactly its channel.  Instances are numbered by their position.  The connection check
  and the connection itself are parameters of the other components (\<open>ie_redisUp\<close>, \<open>redis\<close>).

  Proved: a broadcast becomes, on every instance that processes its namespace and on no other, one request
  per combination; of the instances of one namespace exactly one processes a message, while instances of
  different namespaces do not exclude each other; an unsubscribed tenant gets known to every instance.
\<close>

record 'n redis_client =
  rc_subscribe :: "string \<Rightarrow> nat \<Rightarrow> 'n \<Rightarrow> 'n"
  rc_receivers :: "string \<Rightarrow> 'n \<Rightarrow> nat list"

definition client_laws :: "'n redis_client \<Rightarrow> bool" where
  "client_laws rc \<longleftrightarrow>
     (\<forall>ch ch' i s. set (rc_receivers rc ch (rc_subscribe rc ch' i s))
        = (if ch = ch' then insert i (set (rc_receivers rc ch s)) else set (rc_receivers rc ch s)))
   \<and> (\<forall>ch s. distinct (rc_receivers rc ch s))"

subsection \<open>The client\<close>

definition channelWithNamespace :: "config \<Rightarrow> string \<Rightarrow> string" where
  "channelWithNamespace cf channel = join hash_sep [redisNamespace False cf, channel]"

definition subscribeRedisChannel :: "'n redis_client \<Rightarrow> config \<Rightarrow> string \<Rightarrow> nat \<Rightarrow> 'n \<Rightarrow> 'n" where
  "subscribeRedisChannel rc cf channel i s = rc_subscribe rc (channelWithNamespace cf channel) i s"

text \<open>Who receives a message published on the channel.\<close>

definition publishMessage :: "'n redis_client \<Rightarrow> config \<Rightarrow> string \<Rightarrow> 'n \<Rightarrow> nat list" where
  "publishMessage rc cf channel s = rc_receivers rc (channelWithNamespace cf channel) s"

subsection \<open>Instances\<close>

definition initEventQueueRedisSubscribe :: "'n redis_client \<Rightarrow> config \<Rightarrow> nat \<Rightarrow> 'n \<Rightarrow> 'n" where
  "initEventQueueRedisSubscribe rc cf i s = foldl (\<lambda>s ch. subscribeRedisChannel rc cf ch i s) s (subscribed_channels cf)"

definition attachRedisUnsubscribeHandler :: "'n redis_client \<Rightarrow> config \<Rightarrow> nat \<Rightarrow> 'n \<Rightarrow> 'n" where
  "attachRedisUnsubscribeHandler rc cf i s = subscribeRedisChannel rc cf REDIS_OFFBOARD_TENANT_CHANNEL i s"

definition start_step :: "'n redis_client \<Rightarrow> config \<Rightarrow> nat \<Rightarrow> 'n \<Rightarrow> start_effect \<Rightarrow> 'n" where
  "start_step rc cf i s eff =
     (case eff of
        AttachRedisUnsubscribe \<Rightarrow> attachRedisUnsubscribeHandler rc cf i s
      | RedisSubscribe \<Rightarrow> initEventQueueRedisSubscribe rc cf i s
      | _ \<Rightarrow> s)"

text \<open>A started instance: its variables and configuration, and what its message handler depends on.\<close>

record eq_instance =
  in_vars :: "jsval jsobj"
  in_cf :: config
  in_sv :: sub_env

definition start_instance :: "'n redis_client \<Rightarrow> nat \<Rightarrow> eq_instance \<Rightarrow> 'n \<Rightarrow> 'n" where
  "start_instance rc i inst s =
     foldl (start_step rc (in_cf inst) i) s (registerEventProcessors (in_vars inst) (in_cf inst))"

definition start_instances :: "'n redis_client \<Rightarrow> eq_instance list \<Rightarrow> 'n \<Rightarrow> 'n" where
  "start_instances rc insts s = foldl (\<lambda>s (i, inst). start_instance rc i inst s) s (enumerate 0 insts)"

text \<open>What an instance makes of the messages it receives, one after the other.\<close>

fun receive_messages :: "sub_env \<Rightarrow> string list \<Rightarrow> config \<Rightarrow> config \<times> run_request list" where
  "receive_messages sv [] cf = (cf, [])"
| "receive_messages sv (m # ms) cf =
     (case messageHandlerProcessEvents sv m cf of
        (cf1, r) \<Rightarrow> (case receive_messages sv ms cf1 of (cf2, rs) \<Rightarrow> (cf2, (case r of None \<Rightarrow> rs | Some x \<Rightarrow> x # rs))))"

text \<open>The requests of instance \<open>i\<close> after the given messages were published with configuration \<open>cf\<close>.\<close>

definition requests_at :: "'n redis_client \<Rightarrow> config \<Rightarrow> 'n \<Rightarrow> message list \<Rightarrow> nat \<Rightarrow> eq_instance \<Rightarrow> run_request list" where
  "requests_at rc cf s ms i inst =
     snd (receive_messages (in_sv inst) (map ms_data (filter (\<lambda>m. i \<in> set (publishMessage rc cf (ms_channel m) s)) ms)) (in_cf inst))"

text \<open>\<open>handleUnsubscribe\<close> on one instance, and what it does to the configurations of all others.\<close>

definition unsubscribe_everywhere ::
  "'n redis_client \<Rightarrow> (string \<Rightarrow> jsval option) \<Rightarrow> config \<Rightarrow> string \<Rightarrow> 'n \<Rightarrow> eq_instance list \<Rightarrow> config list" where
  "unsubscribe_everywhere rc parse cf tenantId s insts =
     (case snd (handleUnsubscribe tenantId cf) of
        None \<Rightarrow> map in_cf insts
      | Some msg \<Rightarrow>
          map (\<lambda>(i, inst). if i \<in> set (publishMessage rc cf REDIS_OFFBOARD_TENANT_CHANNEL s)
                           then receiveUnsubscribe parse msg (in_cf inst) else in_cf inst) (enumerate 0 insts))"

text \<open>The callbacks of one message on several instances, in the order in which they run: which of them
  call \<open>processEventQueue\<close>.\<close>

fun run_callbacks :: "'r redis \<Rightarrow> int \<Rightarrow> event_obj \<Rightarrow> run_request \<Rightarrow> (config \<times> time) list \<Rightarrow> 'r locks \<Rightarrow> bool list" where
  "run_callbacks rd tmo e rr [] ls = []"
| "run_callbacks rd tmo e rr ((cf, t) # xs) ls =
     (case exec_combination rd cf tmo t e rr ls of (ls1, ok) \<Rightarrow> ok # run_callbacks rd tmo e rr xs ls1)"

subsection \<open>Who listens to what\<close>

definition processes :: "eq_instance \<Rightarrow> string \<Rightarrow> bool" where
  "processes inst ns \<longleftrightarrow> cf_redisEnabled (in_cf inst) \<and> truthy (js_prop (in_vars inst) ''registerAsEventProcessor'')
     \<and> shouldProcessNamespace ns (in_cf inst)"

definition listens_to :: "eq_instance \<Rightarrow> string set" where
  "listens_to inst = (if cf_redisEnabled (in_cf inst) then {REDIS_OFFBOARD_TENANT_CHANNEL} else {}) \<union> channel_of ` {ns. processes inst ns}"

lemma channelWithNamespace_eq [simp]: "channelWithNamespace cf ch = channelWithNamespace cf' ch' \<longleftrightarrow> ch = ch'"
  by (simp add: channelWithNamespace_def redisNamespace_def)

lemma channel_of_eq [simp]: "channel_of ns = channel_of ns' \<longleftrightarrow> ns = ns'"
  by (simp add: channel_of_def)

lemma channel_of_offboard [simp]: "channel_of ns \<noteq> REDIS_OFFBOARD_TENANT_CHANNEL"
proof
  assume "channel_of ns = REDIS_OFFBOARD_TENANT_CHANNEL"
  then have "take 10 (rev (channel_of ns)) = take 10 (rev REDIS_OFFBOARD_TENANT_CHANNEL)" by simp
  then show False by (simp add: channel_of_def EVENT_MESSAGE_CHANNEL_def REDIS_OFFBOARD_TENANT_CHANNEL_def)
qed

lemma subscribe_receivers:
  "client_laws rc \<Longrightarrow> set (publishMessage rc cf ch (subscribeRedisChannel rc cf' ch' i s))
     = (if ch = ch' then insert i (set (publishMessage rc cf ch s)) else set (publishMessage rc cf ch s))"
  by (simp add: client_laws_def publishMessage_def subscribeRedisChannel_def)

lemma subscribe_all_receivers:
  "client_laws rc \<Longrightarrow> set (publishMessage rc cf ch (foldl (\<lambda>s ch'. subscribeRedisChannel rc cf' ch' i s) s chs))
     = (if ch \<in> set chs then insert i (set (publishMessage rc cf ch s)) else set (publishMessage rc cf ch s))"
  by (induction chs arbitrary: s) (auto simp: subscribe_receivers)

lemma start_instance_receivers:
  assumes "client_laws rc"
  shows "set (publishMessage rc cf ch (start_instance rc i inst s))
     = (if ch \<in> listens_to inst then insert i (set (publishMessage rc cf ch s)) else set (publishMessage rc cf ch s))"
  using assms
  by (auto simp: start_instance_def registerEventProcessors_def start_step_def attachRedisUnsubscribeHandler_def
      initEventQueueRedisSubscribe_def subscribe_receivers subscribe_all_receivers listens_to_def processes_def
      subscribed_channels_def shouldProcessNamespace_def)

lemma start_all_receivers:
  "client_laws rc \<Longrightarrow> set (publishMessage rc cf ch (foldl (\<lambda>s (i, inst). start_instance rc i inst s) s (enumerate n insts)))
     = set (publishMessage rc cf ch s) \<union> {i. n \<le> i \<and> i < n + length insts \<and> ch \<in> listens_to (insts ! (i - n))}"
proof (induction insts arbitrary: n s)
  case (Cons inst insts)
  have "{i. n \<le> i \<and> i < n + length (inst # insts) \<and> ch \<in> listens_to ((inst # insts) ! (i - n))}
      = (if ch \<in> listens_to inst then {n} else {})
        \<union> {i. Suc n \<le> i \<and> i < Suc n + length insts \<and> ch \<in> listens_to (insts ! (i - Suc n))}"
    by (auto simp: nth_Cons' Suc_le_eq le_less not_less)
  with Cons show ?case by (auto simp: start_instance_receivers)
qed auto

text \<open>A server nobody has subscribed to.\<close>

definition no_subscriptions :: "'n redis_client \<Rightarrow> 'n \<Rightarrow> bool" where
  "no_subscriptions rc s \<longleftrightarrow> (\<forall>ch. rc_receivers rc ch s = [])"

lemma receivers_started:
  assumes "client_laws rc" "no_subscriptions rc s0" "i < length insts"
  shows "i \<in> set (publishMessage rc cf ch (start_instances rc insts s0)) \<longleftrightarrow> ch \<in> listens_to (insts ! i)"
  using start_all_receivers [OF assms(1), of cf ch s0 0 insts] assms(2,3)
  by (auto simp: start_instances_def publishMessage_def no_subscriptions_def)

lemma receive_accepted:
  assumes "list_all (\<lambda>(l, c). l \<noteq> [] \<and> accepts sv c cf
      \<and> se_parse sv (json (message_value l t c)) = Some (message_value l t c)) xs"
    and "isTenantIdValidCb None (se_filter sv) EventProcessing t" "se_active sv"
  shows "receive_messages sv (map (\<lambda>(l, c). json (message_value l t c)) xs) cf
    = (cf, map (\<lambda>(l, c). \<lparr>rr_tenant = t, rr_combo = c, rr_lockId = Some l\<rparr>) xs)"
  using assms(1) by (induction xs) (auto simp: handler_accepts assms(2,3))

lemma message_key_namespace:
  "cf_namespace cf1 \<noteq> cf_namespace cf2 \<Longrightarrow> lock_key cf1 t True l False \<noteq> lock_key cf2 t True l False"
  by (auto simp: lock_key_def redisNamespace_def REDIS_PREFIX_def split: if_splits dest: arg_cong [of _ _ length])

lemma exec_message_lock:
  assumes "redis_laws rd" "cf_redisEnabled cf" "rr_lockId rr = Some l" "\<not> truthy (js_prop e ''multiInstanceProcessing'')"
    and "exec_combination rd cf tmo t e rr ls = (ls1, ok)"
  shows "ok \<longleftrightarrow> rd_get rd t (lock_key cf (rr_tenant rr) True l False) (lo_redis ls) = None"
    and "ok \<Longrightarrow> t \<le> u \<Longrightarrow> u < t + tmo \<Longrightarrow> rd_get rd u (lock_key cf (rr_tenant rr) True l False) (lo_redis ls1) = Some (show_int t)"
    and "\<not> ok \<Longrightarrow> rd_get rd u k (lo_redis ls1) = rd_get rd u k (lo_redis ls)"
    and "k \<noteq> lock_key cf (rr_tenant rr) True l False \<Longrightarrow> rd_get rd u k (lo_redis ls1) = rd_get rd u k (lo_redis ls)"
proof -
  let ?k = "lock_key cf (rr_tenant rr) True l False"
  let ?set = "rd_set rd t ?k (show_int t) tmo NX (lo_redis ls)"
  have eq: "ok = snd ?set" "lo_redis ls1 = fst ?set"
    using assms(5) by (auto simp: exec_combination_def acquireLock_def acquire_full_def acquireLockRedis_def track_def assms(2-4)
        split: prod.splits)
  show "ok \<longleftrightarrow> rd_get rd t ?k (lo_redis ls) = None" unfolding eq by (rule redis_lawsD [OF assms(1)])
  show "rd_get rd u ?k (lo_redis ls1) = Some (show_int t)" if "ok" "t \<le> u" "u < t + tmo"
    using that redis_lawsD(2) [OF assms(1)] by (simp add: eq)
  show "rd_get rd u k (lo_redis ls1) = rd_get rd u k (lo_redis ls)" if "\<not> ok"
    using that redis_lawsD(3) [OF assms(1)] by (simp add: eq)
  show "rd_get rd u k (lo_redis ls1) = rd_get rd u k (lo_redis ls)" if "k \<noteq> ?k"
    using that redis_lawsD(3) [OF assms(1)] by (simp add: eq)
qed

subsection \<open>Properties\<close>

text \<open>
  C22. A broadcast between instances that share a Redis: whatever instances have started, an instance makes of
  the published combinations exactly one request for each configured one whose namespace it processes, in
  order and under the lock id of its message, and no request at all for any other namespace.
\<close>

theorem broadcast_reaches_processing_instances:
  assumes "client_laws rc" "no_subscriptions rc s0" "be_active be" "cf_redisEnabled (be_cf be)" "list_all (never_locked be t) cs"
    and "i < length insts" "inst = insts ! i"
    and "isTenantIdValidCb None (se_filter (in_sv inst)) EventProcessing t" "se_active (in_sv inst)"
    and "mine = filter (\<lambda>(n, c). processes inst (snd (snd c))) (enumerate 0 (configured (be_cf be) cs))"
    and "list_all (\<lambda>(n, c). be_uuid be n \<noteq> [] \<and> accepts (in_sv inst) c (in_cf inst)
           \<and> se_parse (in_sv inst) (json (message_value (be_uuid be n) t c)) = Some (message_value (be_uuid be n) t c)) mine"
  shows "requests_at rc (be_cf be) (start_instances rc insts s0) (map snd (fst (broadcastEvent be t force cs now))) i inst
    = map (\<lambda>(n, c). \<lparr>rr_tenant = t, rr_combo = c, rr_lockId = Some (be_uuid be n)\<rparr>) mine"
proof -
  let ?s = "start_instances rc insts s0" and ?cs = "enumerate 0 (configured (be_cf be) cs)"
  let ?xs = "map (\<lambda>(n, c). (be_uuid be n, c)) mine"
  have heard: "i \<in> set (publishMessage rc (be_cf be) (channel_of ns) ?s) \<longleftrightarrow> processes inst ns" for ns
    by (auto simp: receivers_started [OF assms(1,2,6)] assms(7) listens_to_def)
  have "map snd (fst (broadcastEvent be t force cs now)) = map (\<lambda>(n, c). new_message (be_uuid be n) t c) ?cs"
    by (simp add: broadcastEvent_def assms(3,4) publish_combos_free [OF assms(5)] prod.case_distrib cong: prod.case_cong)
  then have "map ms_data (filter (\<lambda>m. i \<in> set (publishMessage rc (be_cf be) (ms_channel m) ?s))
      (map snd (fst (broadcastEvent be t force cs now)))) = map (\<lambda>(l, c). json (message_value l t c)) ?xs"
    by (simp add: filter_map o_def new_message_def heard assms(10) split_def)
  moreover have "list_all (\<lambda>(l, c). l \<noteq> [] \<and> accepts (in_sv inst) c (in_cf inst)
      \<and> se_parse (in_sv inst) (json (message_value l t c)) = Some (message_value l t c)) ?xs"
    using assms(11) by (auto simp: list_all_iff)
  ultimately have "requests_at rc (be_cf be) ?s (map snd (fst (broadcastEvent be t force cs now))) i inst
      = map (\<lambda>(l, c). \<lparr>rr_tenant = t, rr_combo = c, rr_lockId = Some l\<rparr>) ?xs"
    using receive_accepted [OF _ assms(8,9)] by (simp only: requests_at_def snd_conv)
  then show ?thesis by (simp add: split_def)
qed

text \<open>
  Exactly one instance processes a message: when the instances that received it share their namespace and
  run their callbacks before the transaction timeout has passed since the first one, the first processes
  and all others do not.
\<close>

theorem exactly_one_instance_processes:
  assumes "redis_laws rd" "rr_lockId rr = Some l" "\<not> truthy (js_prop e ''multiInstanceProcessing'')"
    and "list_all (\<lambda>(cf, t). cf_redisEnabled cf \<and> cf_namespace cf = ns \<and> t0 \<le> t \<and> t < t0 + tmo) xs"
    and "cf_redisEnabled cf0" "cf_namespace cf0 = ns" "rd_get rd t0 (lock_key cf0 (rr_tenant rr) True l False) (lo_redis ls) = None"
  shows "run_callbacks rd tmo e rr ((cf0, t0) # xs) ls = True # replicate (length xs) False"
proof -
  define k where "k = lock_key cf0 (rr_tenant rr) True l False"
  have key: "lock_key cf (rr_tenant rr) True l False = k" if "cf_namespace cf = ns" for cf
    using that assms(6) by (simp add: k_def lock_key_def redisNamespace_def)
  note exec = exec_message_lock [OF assms(1) _ assms(2,3)]
  have later: "run_callbacks rd tmo e rr xs ls1 = replicate (length xs) False"
    if "\<And>t. t0 \<le> t \<Longrightarrow> t < t0 + tmo \<Longrightarrow> rd_get rd t k (lo_redis ls1) \<noteq> None" for ls1
    using assms(4) that
  proof (induction xs arbitrary: ls1)
    case (Cons x xs)
    obtain cf t where x: "x = (cf, t)" by (cases x)
    obtain ls2 ok where run: "exec_combination rd cf tmo t e rr ls1 = (ls2, ok)" by (metis surj_pair)
    have cf: "cf_redisEnabled cf" "cf_namespace cf = ns" using Cons.prems(1) by (simp_all add: x)
    have "\<not> ok" using exec(1) [OF cf(1) run] Cons.prems by (simp add: x key cf(2))
    with Cons run exec(3) [OF cf(1) run] show ?case by (simp add: x)
  qed simp
  obtain ls1 ok where run: "exec_combination rd cf0 tmo t0 e rr ls = (ls1, ok)" by (metis surj_pair)
  have "ok" using exec(1) [OF assms(5) run] assms(7) by simp
  moreover have "rd_get rd t k (lo_redis ls1) \<noteq> None" if "t0 \<le> t" "t < t0 + tmo" for t
    using exec(2) [OF assms(5) run \<open>ok\<close> that] by (simp add: k_def)
  ultimately show ?thesis using run later by simp
qed

text \<open>
  Instances of different namespaces do not exclude each other: the lock of a message carries the
  publishing namespace of the instance that takes it, so each of two instances that process the namespace of
  the message starts a run for it.
\<close>

theorem namespaces_do_not_share_message_locks:
  assumes "redis_laws rd" "rr_lockId rr = Some l" "\<not> truthy (js_prop e ''multiInstanceProcessing'')"
    and "cf_redisEnabled cf1" "cf_redisEnabled cf2"
    and "cf_namespace cf1 \<noteq> cf_namespace cf2"
    and "\<And>k. rd_get rd t1 k (lo_redis ls) = None" "\<And>k. rd_get rd t2 k (lo_redis ls) = None"
  shows "run_callbacks rd tmo e rr [(cf1, t1), (cf2, t2)] ls = [True, True]"
proof -
  note exec = exec_message_lock [OF assms(1) _ assms(2,3)]
  obtain ls1 ok1 where run1: "exec_combination rd cf1 tmo t1 e rr ls = (ls1, ok1)" by (metis surj_pair)
  obtain ls2 ok2 where run2: "exec_combination rd cf2 tmo t2 e rr ls1 = (ls2, ok2)" by (metis surj_pair)
  have "ok1" using exec(1) [OF assms(4) run1] assms(7) by simp
  moreover have "ok2" using exec(1) [OF assms(5) run2] exec(4) [OF assms(4) run1 message_key_namespace [OF assms(6) [symmetric]]] assms(8) by simp
  ultimately show ?thesis by (simp add: run1 run2)
qed

text \<open>
  An unsubscribed tenant gets known everywhere: when an instance with Redis handles the unsubscription, every
  started instance with Redis treats exactly this tenant, in addition to the earlier ones, as unsubscribed,
  whether or not it processes events; instances without Redis keep what they know.
\<close>

theorem unsubscribe_reaches_every_instance:
  assumes "client_laws rc" "no_subscriptions rc s0" "cf_redisEnabled cf" "i < length insts"
    and "parse (unsubscribe_message tenantId) = Some (JObj [(''tenantId'', JStr tenantId)])"
  shows "isTenantUnsubscribed t (unsubscribe_everywhere rc parse cf tenantId (start_instances rc insts s0) insts ! i)
    \<longleftrightarrow> cf_redisEnabled (in_cf (insts ! i)) \<and> t = tenantId \<or> isTenantUnsubscribed t (in_cf (insts ! i))"
proof -
  have "i \<in> set (publishMessage rc cf REDIS_OFFBOARD_TENANT_CHANNEL (start_instances rc insts s0)) \<longleftrightarrow> cf_redisEnabled (in_cf (insts ! i))"
    by (auto simp: receivers_started [OF assms(1,2,4)] listens_to_def dest: sym [of REDIS_OFFBOARD_TENANT_CHANNEL])
  with assms(3-5) show ?thesis
    by (auto simp: unsubscribe_everywhere_def handleUnsubscribe_def receiveUnsubscribe_def isTenantUnsubscribed_def
        executeUnsubscribeHandlers_def nth_enumerate_eq split: if_splits)
qed

subsection \<open>Witnesses\<close>

text \<open>A client that keeps the list of subscriptions.\<close>

definition demo_client :: "(string \<times> nat) list redis_client" where
  "demo_client = \<lparr>rc_subscribe = (\<lambda>ch i s. List.insert (ch, i) s), rc_receivers = (\<lambda>ch s. map snd (filter (\<lambda>x. fst x = ch) (remdups s)))\<rparr>"

lemma demo_client_laws: "client_laws demo_client"
proof -
  have "distinct (map snd (filter (\<lambda>x. fst x = ch) (remdups s)))" for ch :: string and s :: "(string \<times> nat) list"
    by (auto simp: distinct_map inj_on_def)
  moreover have "set (map snd (filter (\<lambda>x. fst x = ch) (remdups (List.insert (ch', i) s))))
      = (if ch = ch' then insert i (set (map snd (filter (\<lambda>x. fst x = ch) (remdups s)))) else set (map snd (filter (\<lambda>x. fst x = ch) (remdups s))))"
    for ch ch' :: string and i :: nat and s by (auto simp: image_iff)
  ultimately show ?thesis by (simp only: client_laws_def demo_client_def redis_client.simps) blast
qed

lemma demo_client_start: "no_subscriptions demo_client []"
  by (simp add: no_subscriptions_def demo_client_def)

text \<open>The first instance processes the namespace of the combination, the second another one, the third
  none.\<close>

definition demo_instance :: "bool \<Rightarrow> string \<Rightarrow> eq_instance" where
  "demo_instance registered ns = \<lparr>in_vars = [(''registerAsEventProcessor'', JBool registered)],
     in_cf = demo_bc_cfg\<lparr>cf_processingNamespaces := [ns]\<rparr>, in_sv = demo_sv\<rparr>"

definition demo_instances :: "eq_instance list" where
  "demo_instances = [demo_instance True ''default'', demo_instance True ''other'', demo_instance False ''default'']"

theorem broadcast_reaches_processing_instances_witness:
  "map (\<lambda>i. requests_at demo_client demo_bc_cfg (start_instances demo_client demo_instances [])
       (map snd (fst (broadcastEvent (demo_be demo_locks) (Some ''t1'') False [demo_combo] 5))) i (demo_instances ! i)) [0, 1, 2]
   = [[demo_rr], [], []]"
proof -
  let ?be = "demo_be demo_locks" and ?cs = "[demo_combo]" and ?t = "Some ''t1''"
  let ?mine = "\<lambda>i. filter (\<lambda>(n, c). processes (demo_instances ! i) (snd (snd c))) (enumerate 0 (configured (be_cf ?be) ?cs))"
  have h: "be_active ?be" "cf_redisEnabled (be_cf ?be)" "be_cf ?be = demo_bc_cfg" "be_uuid ?be 0 = ''id0''" by code_simp+
  have free: "list_all (never_locked ?be ?t) ?cs" by (simp add: demo_be_free)
  note reach = broadcast_reaches_processing_instances [OF demo_client_laws demo_client_start h(1,2) free _ refl _ _ refl,
      where insts = demo_instances and force = False and now = 5]
  let ?ok = "\<lambda>i. list_all (\<lambda>(n, c). be_uuid ?be n \<noteq> [] \<and> accepts (in_sv (demo_instances ! i)) c (in_cf (demo_instances ! i))
       \<and> se_parse (in_sv (demo_instances ! i)) (json (message_value (be_uuid ?be n) ?t c)) = Some (message_value (be_uuid ?be n) ?t c)) (?mine i)"
  have i: "i < length demo_instances" "isTenantIdValidCb None (se_filter (in_sv (demo_instances ! i))) EventProcessing ?t"
    "se_active (in_sv (demo_instances ! i))" if "i \<in> {0, 1, 2}" for i
    using that by (auto simp: demo_instances_def demo_instance_def demo_sv_def isTenantIdValidCb_def)
  have mine: "?mine 0 = [(0, demo_combo)]" "?mine 1 = []" "?mine 2 = []" by code_simp+
  have ok: "?ok 1" "?ok 2" by (simp_all only: mine list.pred_inject)
  have ok0: "?ok 0" by code_simp
  have "map (\<lambda>i. requests_at demo_client (be_cf ?be) (start_instances demo_client demo_instances [])
       (map snd (fst (broadcastEvent ?be ?t False ?cs 5))) i (demo_instances ! i)) [0, 1, 2] = [[demo_rr], [], []]"
    using reach [OF i ok0] reach [OF i ok(1)] reach [OF i ok(2)] by (simp add: mine mine(2) [unfolded One_nat_def] h(4) demo_rr_def)
  then show ?thesis by (simp only: h(3))
qed

theorem exactly_one_instance_processes_witness:
  "run_callbacks demo_redis 100 [] demo_rr [(demo_bc_cfg, 5), (demo_bc_cfg, 6), (demo_bc_cfg, 104)] demo_locks = [True, False, False]"
proof -
  have h: "rr_lockId demo_rr = Some ''id0''" "\<not> truthy (js_prop [] ''multiInstanceProcessing'')"
    "list_all (\<lambda>(cf, t). cf_redisEnabled cf \<and> cf_namespace cf = ''default'' \<and> 5 \<le> t \<and> t < 5 + 100) [(demo_bc_cfg, 6), (demo_bc_cfg, 104 :: time)]"
    "cf_redisEnabled demo_bc_cfg" "cf_namespace demo_bc_cfg = ''default''"
    "rd_get demo_redis 5 (lock_key demo_bc_cfg (rr_tenant demo_rr) True ''id0'' False) (lo_redis demo_locks) = None" by code_simp+
  from exactly_one_instance_processes [OF demo_redis_laws h] show ?thesis by (simp add: eval_nat_numeral)
qed

theorem namespaces_do_not_share_message_locks_witness:
  "run_callbacks demo_redis 100 [] demo_rr [(demo_bc_cfg, 5), (demo_bc_cfg\<lparr>cf_namespace := ''other''\<rparr>, 6)] demo_locks = [True, True]"
proof -
  have h: "rr_lockId demo_rr = Some ''id0''" "\<not> truthy (js_prop [] ''multiInstanceProcessing'')" "cf_redisEnabled demo_bc_cfg"
    "cf_redisEnabled (demo_bc_cfg\<lparr>cf_namespace := ''other''\<rparr>)" "cf_namespace demo_bc_cfg \<noteq> cf_namespace (demo_bc_cfg\<lparr>cf_namespace := ''other''\<rparr>)"
    by code_simp+
  have "rd_get demo_redis t k (lo_redis demo_locks) = None" for t k by (simp add: demo_redis_def demo_locks_def store_get_def)
  then show ?thesis by (intro namespaces_do_not_share_message_locks [OF demo_redis_laws h])
qed

theorem unsubscribe_reaches_every_instance_witness:
  "isTenantUnsubscribed ''t1'' (unsubscribe_everywhere demo_client (\<lambda>s. Some (JObj [(''tenantId'', JStr ''t1'')])) demo_bc_cfg ''t1''
     (start_instances demo_client demo_instances []) demo_instances ! 2)"
proof -
  have h: "cf_redisEnabled demo_bc_cfg" "2 < length demo_instances" "cf_redisEnabled (in_cf (demo_instances ! 2))" by code_simp+
  show ?thesis
    using unsubscribe_reaches_every_instance [OF demo_client_laws demo_client_start h(1,2)] h(3) by simp
qed

end
