(* ===== verification/Telemetry.thy ===== *)
theory Telemetry
  imports Initialize
begin

text \<open>
  \<open>src/shared/openTelemetry.js\<close> and \<open>src/shared/PerformanceTracer.js\<close>, and the log of waiting times of
  \<open>src/shared/WorkerQueue.js\<close>: what the program tells about itself.

  The tracing library is a parameter, the record \<open>otel\<close> of the operations of a span the module uses, with
  what they document as \<open>otel_laws\<close>.  The traced function is its outcome: a value or an exception, at
  once or later as the settlement of a promise.  Seconds of the refresh age are kept as milliseconds.

  Proved: tracing does not change what the traced function gives its caller, and the span ends exactly
  when the function has finished, with the right status; the gauges show the counters of Redis; and
  without an instance index of the platform no metrics are collected.
\<close>

subsection \<open>Tracing\<close>

datatype span_code = Unset | Ok | Failed_span

record 's otel =
  ot_setStatus :: "span_code \<Rightarrow> jsval \<Rightarrow> 's \<Rightarrow> 's"
  ot_recordException :: "jsval \<Rightarrow> 's \<Rightarrow> 's"
  ot_setAttribute :: "string \<Rightarrow> jsval \<Rightarrow> 's \<Rightarrow> 's"
  ot_end :: "'s \<Rightarrow> 's"
  ot_code :: "'s \<Rightarrow> span_code"
  ot_ended :: "'s \<Rightarrow> bool"
  ot_start :: "string \<Rightarrow> 's"

definition otel_laws :: "'s otel \<Rightarrow> bool" where
  "otel_laws ot \<longleftrightarrow>
     (\<forall>l. ot_code ot (ot_start ot l) = Unset \<and> \<not> ot_ended ot (ot_start ot l))
   \<and> (\<forall>c m s. ot_code ot (ot_setStatus ot c m s) = c \<and> ot_ended ot (ot_setStatus ot c m s) = ot_ended ot s)
   \<and> (\<forall>e s. ot_code ot (ot_recordException ot e s) = ot_code ot s \<and> ot_ended ot (ot_recordException ot e s) = ot_ended ot s)
   \<and> (\<forall>k v s. ot_code ot (ot_setAttribute ot k v s) = ot_code ot s \<and> ot_ended ot (ot_setAttribute ot k v s) = ot_ended ot s)
   \<and> (\<forall>s. ot_code ot (ot_end ot s) = ot_code ot s \<and> ot_ended ot (ot_end ot s))"

text \<open>\<open>Inl\<close> is an exception or a rejection.\<close>

datatype 'a call = Returned "jsval + 'a" | Promised "jsval + 'a"

definition call_outcome :: "'a call \<Rightarrow> jsval + 'a" where
  "call_outcome c = (case c of Returned r \<Rightarrow> r | Promised r \<Rightarrow> r)"

definition onSuccess :: "'s otel \<Rightarrow> 's \<Rightarrow> 's" where
  "onSuccess ot s = ot_setStatus ot Ok JUndef s"

definition onFailure :: "'s otel \<Rightarrow> jsval \<Rightarrow> 's \<Rightarrow> 's" where
  "onFailure ot e s =
     (let m = opt_get e ''message'' in ot_setStatus ot Failed_span (if truthy m then m else JUndef) (ot_recordException ot e s))"

definition onDone :: "'s otel \<Rightarrow> 's \<Rightarrow> 's" where
  "onDone ot s = (if ot_code ot s \<noteq> Unset \<and> \<not> ot_ended ot s then ot_end ot s else s)"

definition settle_span :: "'s otel \<Rightarrow> jsval + 'a \<Rightarrow> 's \<Rightarrow> 's" where
  "settle_span ot r s = onDone ot (case r of Inl e \<Rightarrow> onFailure ot e s | Inr v \<Rightarrow> onSuccess ot s)"

text \<open>The span when \<open>_startOtelTrace\<close> returns, and when the function has finished; the \<open>finally\<close> of the
  synchronous part runs in any case.\<close>

definition span_returned :: "'s otel \<Rightarrow> 'a call \<Rightarrow> 's \<Rightarrow> 's" where
  "span_returned ot c s = (case c of Returned r \<Rightarrow> settle_span ot r s | Promised r \<Rightarrow> onDone ot s)"

definition startOtelTrace :: "'s otel \<Rightarrow> 'a call \<Rightarrow> 's \<Rightarrow> 's \<times> (jsval + 'a)" where
  "startOtelTrace ot c s =
     ((case c of Returned r \<Rightarrow> span_returned ot c s | Promised r \<Rightarrow> settle_span ot r (span_returned ot c s)), call_outcome c)"

text \<open>\<open>_sanitizeAttributes\<close>\<close>

definition sanitize :: "jsval \<Rightarrow> jsval" where
  "sanitize v = (case v of JStr s \<Rightarrow> v | JUndef \<Rightarrow> JUndef | _ \<Rightarrow> JStr (json v))"

definition setAttributes :: "'s otel \<Rightarrow> tenant \<Rightarrow> jsval \<Rightarrow> jsval jsobj \<Rightarrow> 's \<Rightarrow> 's" where
  "setAttributes ot t ctxId attrs s =
     foldl (\<lambda>s (k, v). ot_setAttribute ot k (sanitize v) s)
       (ot_setAttribute ot ''sap.correlation_id'' ctxId
         (ot_setAttribute ot ''sap.tenancy.tenant_id'' (case t of None \<Rightarrow> JUndef | Some x \<Rightarrow> JStr x) s)) attrs"

text \<open>\<open>active\<close>: telemetry is enabled, the library is there and has a provider or the agent is preloaded.\<close>

definition trace :: "'s otel \<Rightarrow> bool \<Rightarrow> tenant \<Rightarrow> jsval \<Rightarrow> string \<Rightarrow> jsval jsobj \<Rightarrow> 'a call \<Rightarrow> 's option \<times> (jsval + 'a)" where
  "trace ot active t ctxId lbl attrs c =
     (if \<not> active then (None, call_outcome c)
      else case startOtelTrace ot c (setAttributes ot t ctxId attrs (ot_start ot (''eventqueue-'' @ lbl))) of
             (s, r) \<Rightarrow> (Some s, r))"

definition getCurrentTraceContext :: "bool \<Rightarrow> jsval jsobj \<Rightarrow> jsval" where
  "getCurrentTraceContext available injected = (if \<not> available then JNull else JObj injected)"

subsection \<open>Metrics\<close>

record metrics =
  mt_initialized :: bool
  mt_snapshot :: "((int \<times> int) jsobj \<times> time) option"

definition metrics_allowed :: "jsval jsobj \<Rightarrow> config \<Rightarrow> env \<Rightarrow> bool \<Rightarrow> metrics \<Rightarrow> bool" where
  "metrics_allowed vars cf e meterProvider m \<longleftrightarrow>
     \<not> mt_initialized m \<and> truthy (js_prop vars ''collectEventQueueMetrics'') \<and> truthy (js_prop vars ''enableTelemetry'')
     \<and> cf_redisEnabled cf \<and> truthy (js_prop vars ''registerAsEventProcessor'') \<and> en_instance e = Some 0 \<and> meterProvider"

definition initMetrics :: "'h redis_hash \<Rightarrow> jsval jsobj \<Rightarrow> config \<Rightarrow> env \<Rightarrow> bool \<Rightarrow> time \<Rightarrow> metrics \<times> 'h \<Rightarrow> metrics \<times> 'h" where
  "initMetrics rh vars cf e meterProvider now s =
     (case s of (m, h) \<Rightarrow>
        if \<not> metrics_allowed vars cf e meterProvider m then (m, h)
        else (\<lparr>mt_initialized = True, mt_snapshot = Some (obj_from (map (\<lambda>ns. (ns, (0, 0))) (cf_processingNamespaces cf)), now)\<rparr>,
              resetInProgressCounters rh cf h))"

text \<open>\<open>None\<close>: reading the counters has failed.\<close>

definition refreshStats :: "(int \<times> int) jsobj option \<Rightarrow> time \<Rightarrow> metrics \<Rightarrow> metrics" where
  "refreshStats stats now m = (case stats of None \<Rightarrow> m | Some ns \<Rightarrow> m\<lparr>mt_snapshot := Some (ns, now)\<rparr>)"

datatype gauge = PendingGauge | InProgressGauge | RefreshAge

definition observe_metrics :: "time \<Rightarrow> metrics \<Rightarrow> (gauge \<times> string option \<times> int) list" where
  "observe_metrics now m =
     (case mt_snapshot m of
        None \<Rightarrow> []
      | Some (stats, at) \<Rightarrow>
          (RefreshAge, None, now - at)
          # concat (map (\<lambda>(ns, p, r). [(PendingGauge, Some ns, p), (InProgressGauge, Some ns, r)]) stats))"

subsection \<open>Performance measurements\<close>

record tracer =
  pt_start :: time
  pt_name :: string

record trace_options =
  to_quantity :: "int option"
  to_threshold :: "int option"
  to_additionalQuantityThreshold :: "int option"

abbreviation no_options :: trace_options where
  "no_options \<equiv> \<lparr>to_quantity = None, to_threshold = None, to_additionalQuantityThreshold = None\<rparr>"

definition new_tracer :: "string \<Rightarrow> time \<Rightarrow> tracer" where
  "new_tracer nm now = \<lparr>pt_start = now, pt_name = nm\<rparr>"

definition positive :: "int option \<Rightarrow> bool" where
  "positive n = (case n of None \<Rightarrow> False | Some k \<Rightarrow> 0 < k)"

text \<open>The first argument counts as options when one of its numbers is meaningful.\<close>

definition used_options :: "trace_options \<Rightarrow> trace_options" where
  "used_options opts =
     (if (case to_quantity opts of None \<Rightarrow> False | Some q \<Rightarrow> 0 \<le> q) \<or> positive (to_threshold opts)
          \<or> positive (to_additionalQuantityThreshold opts) then opts else no_options)"

definition below_threshold :: "trace_options \<Rightarrow> int \<Rightarrow> bool" where
  "below_threshold opts executionTime =
     (case to_threshold opts of
        None \<Rightarrow> False
      | Some th \<Rightarrow> th \<noteq> 0 \<and> executionTime <
          th + (if positive (to_additionalQuantityThreshold opts) \<and> positive (to_quantity opts)
                then the (to_additionalQuantityThreshold opts) * the (to_quantity opts) else 0))"

text \<open>The execution time that is logged, if it is.\<close>

definition endPerformanceTrace :: "trace_options \<Rightarrow> time \<Rightarrow> tracer \<Rightarrow> tracer \<times> int option" where
  "endPerformanceTrace opts now t =
     (let executionTime = now - pt_start t in
      (t\<lparr>pt_start := now\<rparr>, if below_threshold (used_options opts) executionTime then None else Some executionTime))"

subsection \<open>Waiting times\<close>

datatype log_level = Debug | Info | Warn | Err

definition THRESHOLD_INFO :: int where "THRESHOLD_INFO = 35 * 1000"
definition THRESHOLD_WARN :: int where "THRESHOLD_WARN = 55 * 1000"
definition THRESHOLD_ERROR :: int where "THRESHOLD_ERROR = 75 * 1000"

definition PRIORITY_MULTIPLICATION :: "Priority \<Rightarrow> int" where
  "PRIORITY_MULTIPLICATION p = (case map_of (zip PRIORITIES [1..int (length PRIORITIES)]) p of Some n \<Rightarrow> n | None \<Rightarrow> 0)"

definition wait_level :: "Priority \<Rightarrow> int \<Rightarrow> log_level" where
  "wait_level p diffMs =
     (let m = PRIORITY_MULTIPLICATION p in
      if THRESHOLD_ERROR * m \<le> diffMs then Err
      else if THRESHOLD_WARN * m \<le> diffMs then Warn
      else if THRESHOLD_INFO * m \<le> diffMs then Info else Debug)"

text \<open>At most one message per second; \<open>lastLogTs\<close> is undefined at first.\<close>

definition checkAndLogWaitingTime :: "time \<Rightarrow> int \<Rightarrow> Priority \<Rightarrow> time option \<Rightarrow> time option \<times> log_level option" where
  "checkAndLogWaitingTime now diffMs p lastLogTs =
     (if (case lastLogTs of None \<Rightarrow> False | Some t \<Rightarrow> now - t \<le> 1000) then (lastLogTs, None)
      else (Some now, Some (wait_level p diffMs)))"

subsection \<open>Lemmas\<close>

lemma otel_lawsD:
  assumes "otel_laws ot"
  shows "ot_code ot (ot_start ot l) = Unset" "\<not> ot_ended ot (ot_start ot l)"
    "ot_code ot (ot_setStatus ot c m s) = c" "ot_ended ot (ot_setStatus ot c m s) = ot_ended ot s"
    "ot_code ot (ot_recordException ot e s) = ot_code ot s" "ot_ended ot (ot_recordException ot e s) = ot_ended ot s"
    "ot_code ot (ot_setAttribute ot k v s) = ot_code ot s" "ot_ended ot (ot_setAttribute ot k v s) = ot_ended ot s"
    "ot_code ot (ot_end ot s) = ot_code ot s" "ot_ended ot (ot_end ot s)"
  using assms by (simp_all add: otel_laws_def)

lemma setAttributes_fresh:
  assumes "otel_laws ot"
  shows "ot_code ot (setAttributes ot t i as s) = ot_code ot s" "ot_ended ot (setAttributes ot t i as s) = ot_ended ot s"
proof -
  have "ot_code ot (foldl (\<lambda>s (k, v). ot_setAttribute ot k (sanitize v) s) s as) = ot_code ot s
    \<and> ot_ended ot (foldl (\<lambda>s (k, v). ot_setAttribute ot k (sanitize v) s) s as) = ot_ended ot s" for s
  proof (induction as arbitrary: s)
    case (Cons a as)
    then show ?case by (cases a) (simp only: foldl_Cons prod.case otel_lawsD(7,8) [OF assms])
  qed simp
  then show "ot_code ot (setAttributes ot t i as s) = ot_code ot s" "ot_ended ot (setAttributes ot t i as s) = ot_ended ot s"
    by (simp_all add: setAttributes_def otel_lawsD(7,8) [OF assms])
qed

lemma settle_span_ended:
  assumes "otel_laws ot" "\<not> ot_ended ot s"
  shows "ot_ended ot (settle_span ot r s)" "ot_code ot (settle_span ot r s) = (if isl r then Failed_span else Ok)"
  using assms(2)
  by (cases r; simp add: settle_span_def onDone_def onFailure_def onSuccess_def Let_def otel_lawsD [OF assms(1)])+

lemma span_pending: "ot_code ot s = Unset \<Longrightarrow> span_returned ot (Promised p) s = s"
  by (simp add: span_returned_def onDone_def)

lemma reset_keeps_pending:
  assumes "hash_laws rh"
  shows "hash_value rh k Pending (resetInProgressCounters rh cf s) = hash_value rh k Pending s"
proof -
  have keep: "hash_value rh k Pending (foldl (\<lambda>s x. rh_set rh (f x) InProgressField 0 s) s xs) = hash_value rh k Pending s"
    for f :: "'b \<Rightarrow> string" and xs s
    by (induction xs arbitrary: s) (simp_all add: hash_value_simps [OF assms] fields_distinct)
  show ?thesis unfolding resetInProgressCounters_def Let_def keep [of "\<lambda>k. k"] by (rule keep)
qed

subsection \<open>Properties\<close>

text \<open>
  Tracing is transparent: the caller of a traced function gets exactly the value or the exception of
  the function, whether telemetry is active or not, at once or through a promise; the span of an
  active trace is ended with the status of the outcome, and while a promise is pending the span is
  not ended.
\<close>

theorem trace_is_transparent:
  assumes "otel_laws ot" "trace ot active t i lbl as c = (sp, r)"
  shows "r = call_outcome c
    \<and> (case sp of None \<Rightarrow> \<not> active
       | Some s \<Rightarrow> active \<and> ot_ended ot s \<and> ot_code ot s = (if isl (call_outcome c) then Failed_span else Ok))
    \<and> \<not> ot_ended ot (span_returned ot (Promised p) (setAttributes ot t i as (ot_start ot (''eventqueue-'' @ lbl))))"
proof -
  define s where "s = setAttributes ot t i as (ot_start ot (''eventqueue-'' @ lbl))"
  have fresh: "ot_code ot s = Unset" "\<not> ot_ended ot s"
    unfolding s_def setAttributes_fresh [OF assms(1)] by (rule otel_lawsD [OF assms(1)])+
  have "trace ot True t i lbl as c = (Some (settle_span ot (call_outcome c) s), call_outcome c)"
  proof (cases c)
    case (Returned r)
    then show ?thesis unfolding trace_def startOtelTrace_def s_def [symmetric] by (simp add: call_outcome_def span_returned_def)
  next
    case (Promised r)
    then show ?thesis unfolding trace_def startOtelTrace_def s_def [symmetric] by (simp add: call_outcome_def span_pending [OF fresh(1)])
  qed
  moreover have "trace ot False t i lbl as c = (None, call_outcome c)" by (simp add: trace_def)
  ultimately show ?thesis
    using assms(2) settle_span_ended [OF assms(1) fresh(2), of "call_outcome c"] fresh(2)
    unfolding s_def [symmetric] span_pending [OF fresh(1)] by (cases active) auto
qed

text \<open>
  The gauges show Redis: after the metrics have been set up and the counters read, every processed
  namespace is reported with the number of pending entries as Redis counts them, and with nothing in
  progress, since the counters of an earlier instance are reset.
\<close>

theorem metrics_show_counters:
  assumes "hash_laws rh" "metrics_allowed vars cf e meterProvider m"
    and "initMetrics rh vars cf e meterProvider now (m, h) = (m1, h1)" "ns \<in> set (cf_processingNamespaces cf)"
  shows "{(PendingGauge, Some ns, hash_value rh (keyPrefix cf ns @ ''##stats##global'') Pending h), (InProgressGauge, Some ns, 0)}
    \<subseteq> set (observe_metrics t (refreshStats (Some (getAllNamespaceStats rh cf h1)) t1 m1))"
proof -
  let ?key = "\<lambda>ns. keyPrefix cf ns @ ''##stats##global''"
  have h1: "h1 = resetInProgressCounters rh cf h" using assms(2,3) by (simp add: initMetrics_def)
  have "(ns, parseCounterHash rh (?key ns) h1) \<in> set (getAllNamespaceStats rh cf h1)"
  proof -
    have "obj_get (getAllNamespaceStats rh cf h1) ns = Some (parseCounterHash rh (?key ns) h1)"
      unfolding getAllNamespaceStats_def obj_from_get using assms(4)
      by (simp add: rev_map map_of_map_restrict)
    then show ?thesis by (rule map_of_SomeD)
  qed
  moreover have "parseCounterHash rh (?key ns) h1 = (hash_value rh (?key ns) Pending h, 0)"
    using reset_clears_running [OF assms(1), of "?key ns" cf h] assms(4)
    by (auto simp: parseCounterHash_def h1 reset_keeps_pending [OF assms(1)])
  ultimately show ?thesis by (force simp: observe_metrics_def refreshStats_def)
qed

text \<open>
  Without \<open>CF_INSTANCE_INDEX\<close> the instance is not a number, which is neither \<open>undefined\<close> nor zero: no
  metrics are set up.
\<close>

theorem no_metrics_without_instance_index:
  "initMetrics rh vars cf (new_Env parse vcap None) meterProvider now s = s"
  by (auto simp: initMetrics_def metrics_allowed_def new_Env_def split: prod.split)

subsection \<open>Witnesses\<close>

text \<open>A span that remembers its status and whether it has ended.\<close>

definition demo_otel :: "(span_code \<times> bool) otel" where
  "demo_otel = \<lparr>ot_setStatus = (\<lambda>c m s. (c, snd s)), ot_recordException = (\<lambda>e s. s), ot_setAttribute = (\<lambda>k v s. s),
     ot_end = (\<lambda>s. (fst s, True)), ot_code = fst, ot_ended = snd, ot_start = (\<lambda>l. (Unset, False))\<rparr>"

lemma demo_otel_laws: "otel_laws demo_otel"
  by (simp add: otel_laws_def demo_otel_def)

theorem trace_is_transparent_witness:
  "trace demo_otel True None JNull ''run'' [(''n'', JNum 1)] (Promised (Inl (JStr ''failed'') :: jsval + nat))
    = (Some (Failed_span, True), Inl (JStr ''failed''))"
proof -
  let ?c = "Promised (Inl (JStr ''failed'')) :: nat call"
  obtain sp r where run: "trace demo_otel True None JNull ''run'' [(''n'', JNum 1)] ?c = (sp, r)" by fastforce
  have "ot_ended demo_otel = snd" "ot_code demo_otel = fst" by (simp_all add: demo_otel_def)
  with trace_is_transparent [OF demo_otel_laws run, of "Inr ()"] show ?thesis
    unfolding run by (cases sp) (auto simp: call_outcome_def)
qed

abbreviation demo_metric_vars :: "jsval jsobj" where
  "demo_metric_vars \<equiv> [(''collectEventQueueMetrics'', JBool True), (''enableTelemetry'', JBool True), (''registerAsEventProcessor'', JBool True)]"

abbreviation demo_metric_cfg :: config where
  "demo_metric_cfg \<equiv> demo_redis_cfg\<lparr>cf_processingNamespaces := [''default'']\<rparr>"

definition demo_counts :: hash_store where
  "demo_counts = adjustGlobalCounter demo_hash (demo_metric_cfg\<lparr>cf_namespace := ''default''\<rparr>) Pending 3
     (adjustGlobalCounter demo_hash (demo_metric_cfg\<lparr>cf_namespace := ''default''\<rparr>) InProgressField 2 [])"

theorem metrics_show_counters_witness:
  "(PendingGauge, Some ''default'', 3) \<in> set (observe_metrics 9 (refreshStats (Some (getAllNamespaceStats demo_hash demo_metric_cfg
      (snd (initMetrics demo_hash demo_metric_vars demo_metric_cfg (new_Env (\<lambda>s. None) None (Some ''0'')) True 5
        (\<lparr>mt_initialized = False, mt_snapshot = None\<rparr>, demo_counts))))) 7
      (fst (initMetrics demo_hash demo_metric_vars demo_metric_cfg (new_Env (\<lambda>s. None) None (Some ''0'')) True 5
        (\<lparr>mt_initialized = False, mt_snapshot = None\<rparr>, demo_counts)))))"
proof -
  let ?m = "\<lparr>mt_initialized = False, mt_snapshot = None\<rparr>" and ?e = "new_Env (\<lambda>s. None) None (Some ''0'')"
  have "metrics_allowed demo_metric_vars demo_metric_cfg ?e True ?m" "''default'' \<in> set (cf_processingNamespaces demo_metric_cfg)"
    "hash_value demo_hash (keyPrefix demo_metric_cfg ''default'' @ ''##stats##global'') Pending demo_counts = 3" by code_simp+
  with metrics_show_counters [OF demo_hash_laws this(1) prod.collapse [symmetric] this(2), of demo_counts 9 5 7] show ?thesis
    by (simp only: insert_subset)
qed

end
